(* ===== verification/Prelude.thy ===== *)
theory Prelude
  imports Main "HOL-Library.Word" "HOL-Library.AList"
begin

text \<open>
  Shared vocabulary of the development: the machine integers of the Rust sources, the
  runs of a component that consumes inputs and produces outputs, and the two contracts
  (an invariant kept by every step, a simulation by an abstract machine) that the
  components instantiate with their own step functions.

  Conventions used throughout. A Rust \<open>Vec<u8>\<close> or \<open>[u8; N]\<close> is a list of bytes, an
  array carrying its length as a side condition. A Rust \<open>String\<close> is a \<open>string\<close> whose
  characters are its UTF-8 bytes. A \<open>HashMap\<close> that the code only looks up is a map
  (\<open>m(k \<mapsto> v)\<close>); one that it also iterates over is an association list with distinct keys,
  read with \<open>map_of\<close> and written with \<open>AList.update\<close> and \<open>AList.delete\<close>, whose order stands
  for the iteration order, which Rust leaves unspecified. A Rust panic is the value
  \<open>None\<close> of a step function.
\<close>

section \<open>Machine integers\<close>

type_synonym u8 = "8 word"
type_synonym u16 = "16 word"
type_synonym u32 = "32 word"
type_synonym u64 = "64 word"

text \<open>The largest value of an unsigned type, and Rust's \<open>saturating_add(1)\<close>.\<close>

definition u32_max :: nat where
  "u32_max = 2 ^ 32 - 1"

definition saturating_succ :: "u32 \<Rightarrow> u32" where
  "saturating_succ n = (if unat n = u32_max then n else n + 1)"

lemma unat_u32_le: "unat (n :: u32) \<le> u32_max"
proof -
  have "unat n < 2 ^ LENGTH(32)"
    by (rule unsigned_less)
  then show ?thesis by (simp add: u32_max_def)
qed

lemma unat_saturating_succ: "unat (saturating_succ n) = min (Suc (unat n)) u32_max"
  using unat_u32_le [of n]
  by (auto simp: saturating_succ_def unat_word_ariths u32_max_def min_def)

section \<open>Runs\<close>

text \<open>
  A component is a step function: from a state and an input to its outputs and the new
  state, or \<open>None\<close> for a panic, which ends the run.
\<close>

fun run_steps :: "('s \<Rightarrow> 'e \<Rightarrow> ('o list \<times> 's) option) \<Rightarrow> 's \<Rightarrow> 'e list \<Rightarrow> ('o list \<times> 's) option" where
  "run_steps step s [] = Some ([], s)"
| "run_steps step s (e # es) =
     (case step s e of
        None \<Rightarrow> None
      | Some (os, s') \<Rightarrow>
          (case run_steps step s' es of
             None \<Rightarrow> None
           | Some (os', s'') \<Rightarrow> Some (os @ os', s'')))"

lemma run_steps_ConsE:
  assumes "run_steps step s (e # es) = Some (os, t)"
  obtains os1 s' os2 where "step s e = Some (os1, s')" "run_steps step s' es = Some (os2, t)"
    "os = os1 @ os2"
  using assms by (auto split: option.splits)

lemma run_steps_append:
  "run_steps step s (xs @ ys) =
     (case run_steps step s xs of
        None \<Rightarrow> None
      | Some (os, s') \<Rightarrow>
          (case run_steps step s' ys of None \<Rightarrow> None | Some (os', s'') \<Rightarrow> Some (os @ os', s'')))"
  by (induction xs arbitrary: s) (auto split: option.splits)

text \<open>The same for a component that cannot panic.\<close>

definition total_step :: "('s \<Rightarrow> 'e \<Rightarrow> 'o list \<times> 's) \<Rightarrow> 's \<Rightarrow> 'e \<Rightarrow> ('o list \<times> 's) option" where
  "total_step step s e = Some (step s e)"

lemma total_step_Some [simp]: "total_step step s e = Some r \<longleftrightarrow> step s e = r"
  by (simp add: total_step_def)

text \<open>
  What to unfold to run a component on given inputs: each component adds the definitions of its
  steps, and \<open>simp add: run_defs\<close> then evaluates a run.
\<close>

named_theorems run_defs \<open>definitions of the steps of a component\<close>

section \<open>Contracts of a step function\<close>

text \<open>An invariant that every step keeps holds after every run.\<close>

locale invariant_machine =
  fixes step :: "'s \<Rightarrow> 'e \<Rightarrow> ('o list \<times> 's) option"
    and inv :: "'s \<Rightarrow> bool"
  assumes step_inv: "inv s \<Longrightarrow> step s e = Some (os, s') \<Longrightarrow> inv s'"
begin

lemma run_inv: "inv s \<Longrightarrow> run_steps step s es = Some (os, s') \<Longrightarrow> inv s'"
proof (induction es arbitrary: s os)
  case Nil
  then show ?case by simp
next
  case (Cons e es)
  from Cons.prems(2) obtain os1 s1 os2
    where st: "step s e = Some (os1, s1)" and rn: "run_steps step s1 es = Some (os2, s')"
    by (rule run_steps_ConsE)
  from Cons.prems(1) st have "inv s1" by (rule step_inv)
  then show ?case using rn by (rule Cons.IH)
qed

end

text \<open>
  A specification reads the outputs one by one and refuses those it does not allow.
  A machine refines it when each step's outputs take the specification from the
  abstraction of the old state to the abstraction of the new one.
\<close>

fun spec_run :: "('a \<Rightarrow> 'o \<Rightarrow> 'a option) \<Rightarrow> 'a \<Rightarrow> 'o list \<Rightarrow> 'a option" where
  "spec_run spec a [] = Some a"
| "spec_run spec a (x # xs) = (case spec a x of None \<Rightarrow> None | Some a' \<Rightarrow> spec_run spec a' xs)"

lemma spec_run_append:
  "spec_run spec a (xs @ ys) = (case spec_run spec a xs of None \<Rightarrow> None | Some b \<Rightarrow> spec_run spec b ys)"
  by (induction xs arbitrary: a) (auto split: option.splits)

lemma spec_run_take: "spec_run spec a (xs @ ys) = Some b \<Longrightarrow> \<exists>c. spec_run spec a xs = Some c"
  by (auto simp: spec_run_append split: option.splits)

lemma spec_run_appendE:
  assumes "spec_run spec a (xs @ ys) = Some b"
  obtains c where "spec_run spec a xs = Some c" "spec_run spec c ys = Some b"
  using assms by (auto simp: spec_run_append split: option.splits)

lemma spec_run_ConsE:
  assumes "spec_run spec a (x # xs) = Some b"
  obtains c where "spec a x = Some c" "spec_run spec c xs = Some b"
  using assms by (auto split: option.splits)

locale refining_machine = invariant_machine step inv
  for step :: "'s \<Rightarrow> 'e \<Rightarrow> ('o list \<times> 's) option"
    and inv :: "'s \<Rightarrow> bool" +
  fixes abs :: "'s \<Rightarrow> 'a"
    and spec :: "'a \<Rightarrow> 'o \<Rightarrow> 'a option"
  assumes step_refines: "inv s \<Longrightarrow> step s e = Some (os, s') \<Longrightarrow> spec_run spec (abs s) os = Some (abs s')"
begin

lemma run_refines:
  "inv s \<Longrightarrow> run_steps step s es = Some (os, s') \<Longrightarrow> spec_run spec (abs s) os = Some (abs s')"
proof (induction es arbitrary: s os)
  case Nil
  then show ?case by simp
next
  case (Cons e es)
  from Cons.prems(2) obtain os1 s1 os2
    where st: "step s e = Some (os1, s1)" and rn: "run_steps step s1 es = Some (os2, s')"
      and os: "os = os1 @ os2"
    by (rule run_steps_ConsE)
  from Cons.prems(1) st have "inv s1" by (rule step_inv)
  then have "spec_run spec (abs s1) os2 = Some (abs s')" using rn by (rule Cons.IH)
  moreover have "spec_run spec (abs s) os1 = Some (abs s1)"
    using Cons.prems(1) st by (rule step_refines)
  ultimately show ?case by (simp add: os spec_run_append)
qed

end

section \<open>Lists\<close>

lemma length_2_conv: "length xs = 2 \<longleftrightarrow> (\<exists>a b. xs = [a, b])"
  by (auto simp: numeral_2_eq_2 length_Suc_conv)

lemma in_set_map_filter: "y \<in> set (List.map_filter f xs) \<longleftrightarrow> (\<exists>x \<in> set xs. f x = Some y)"
  by (induction xs) (auto simp: List.map_filter_simps split: option.splits)

section \<open>Association lists as hash maps\<close>

lemma map_of_AList_update [simp]: "map_of (AList.update k v m) = (map_of m)(k \<mapsto> v)"
  by (rule ext) (simp add: update_conv')

lemma map_of_AList_delete [simp]: "map_of (AList.delete k m) = (map_of m)(k := None)"
  by (rule ext) (simp add: delete_conv')

lemma keys_AList_update: "fst ` set (AList.update k v m) = insert k (fst ` set m)"
  by (simp add: dom_update)

lemma keys_AList_delete: "fst ` set (AList.delete k m) = fst ` set m - {k}"
  by (simp add: dom_map_of_conv_image_fst [symmetric])

end
