(* ===== verification/Rust_Time.thy ===== *)
theory Rust_Time
  imports Prelude
begin

text \<open>
  The parts of \<open>std::time\<close> the sources use. An \<open>Instant\<close> is the number of nanoseconds since
  an arbitrary origin; a \<open>Duration\<close> is a number of nanoseconds, at most
  \<open>Duration::MAX\<close> (\<open>u64::MAX\<close> seconds and 999999999 nanoseconds). \<open>Instant::duration_since\<close>
  saturates at zero when the argument is the later one; \<open>Duration * u32\<close> panics on
  overflow; \<open>Duration::checked_mul\<close> returns \<open>None\<close> there.
\<close>

type_synonym instant = nat
type_synonym duration = nat

definition from_secs :: "nat \<Rightarrow> duration" where
  "from_secs s = s * 1000000000"

definition duration_max :: duration where
  "duration_max = (2 ^ 64 - 1) * 1000000000 + 999999999"

definition duration_since :: "instant \<Rightarrow> instant \<Rightarrow> duration" where
  "duration_since now earlier = now - earlier"

definition checked_mul :: "duration \<Rightarrow> nat \<Rightarrow> duration option" where
  "checked_mul d k = (if d * k \<le> duration_max then Some (d * k) else None)"

definition as_secs :: "duration \<Rightarrow> nat" where
  "as_secs d = d div 1000000000"

text \<open>\<open>d.as_millis() as u64\<close>: the cast keeps the low 64 bits.\<close>

definition as_millis_u64 :: "duration \<Rightarrow> u64" where
  "as_millis_u64 d = of_nat (d div 1000000)"

lemma from_secs_0 [simp]: "from_secs 0 = 0"
  by (simp add: from_secs_def)

lemma from_secs_le [simp]: "from_secs a \<le> from_secs b \<longleftrightarrow> a \<le> b"
  by (simp add: from_secs_def)

lemma from_secs_less [simp]: "from_secs a < from_secs b \<longleftrightarrow> a < b"
  by (simp add: from_secs_def)

lemma as_secs_from_secs [simp]: "as_secs (from_secs a) = a"
  by (simp add: as_secs_def from_secs_def)

lemma from_secs_mult: "from_secs a * k = from_secs (a * k)"
  by (simp add: from_secs_def)

lemma min_from_secs: "min (from_secs a) (from_secs b) = from_secs (min a b)"
  by (simp add: min_def)

lemma from_secs_le_duration_max: "a < 2 ^ 64 \<Longrightarrow> from_secs a \<le> duration_max"
  by (simp add: from_secs_def duration_max_def)

lemma checked_mul_Some_iff: "checked_mul d k = Some e \<longleftrightarrow> e = d * k \<and> d * k \<le> duration_max"
  by (auto simp: checked_mul_def)

lemma checked_mul_None_iff: "checked_mul d k = None \<longleftrightarrow> duration_max < d * k"
  by (auto simp: checked_mul_def)

end
