(* ===== verification/Backoff.thy ===== *)
theory Backoff
  imports Rust_Time
begin

text \<open>
  \<open>crates/protocol/src/backoff.rs\<close>: the delay before a reconnect attempt, a function of the
  attempt number, a \<open>u32\<close>.
\<close>

definition base :: duration where
  "base = from_secs 1"

definition cap :: duration where
  "cap = from_secs 60"

text \<open>\<open>1u32.checked_shl(attempt)\<close> is \<open>None\<close> from 32 on; below, the shift is exact.\<close>

definition checked_shl_one :: "u32 \<Rightarrow> nat option" where
  "checked_shl_one attempt = (if unat attempt < 32 then Some (2 ^ unat attempt) else None)"

definition delay :: "u32 \<Rightarrow> duration" where
  "delay attempt =
     (let factor = (case checked_shl_one attempt of None \<Rightarrow> u32_max | Some f \<Rightarrow> f)
      in min (case checked_mul base factor of None \<Rightarrow> cap | Some d \<Rightarrow> d) cap)"

text \<open>The reference: one second doubled per attempt, cut off at a minute.\<close>

definition delay_spec :: "nat \<Rightarrow> duration" where
  "delay_spec n = from_secs (min (2 ^ n) 60)"

lemma power_ge_60: "6 \<le> n \<Longrightarrow> (60::nat) \<le> 2 ^ n"
proof -
  assume "6 \<le> n"
  then have "(2::nat) ^ 6 \<le> 2 ^ n"
    by (rule power_increasing) simp
  then show ?thesis by simp
qed

lemma delay_eq: "delay attempt = delay_spec (unat attempt)"
proof (cases "unat attempt < 32")
  case True
  then have "(2::nat) ^ unat attempt \<le> 2 ^ 31"
    by (intro power_increasing) simp_all
  then have "from_secs (2 ^ unat attempt) \<le> duration_max"
    by (intro from_secs_le_duration_max) simp
  then show ?thesis
    using True
    by (simp add: delay_def delay_spec_def checked_shl_one_def checked_mul_def base_def cap_def
        from_secs_mult min_from_secs)
next
  case False
  then have "(60::nat) \<le> 2 ^ unat attempt"
    by (intro power_ge_60) simp
  moreover have "from_secs u32_max \<le> duration_max"
    by (intro from_secs_le_duration_max) (simp add: u32_max_def)
  ultimately show ?thesis
    using False
    by (simp add: delay_def delay_spec_def checked_shl_one_def checked_mul_def base_def cap_def
        from_secs_mult min_from_secs u32_max_def)
qed

text \<open>
  The backoff schedule equals its reference for all 2^32 attempt numbers: with the
  shift and the multiplication both checked, no attempt number overflows; the delay is one
  second times two to the attempt, cut off at sixty seconds.
\<close>

theorem delay_refines_spec: "delay attempt = from_secs (min (2 ^ unat attempt) 60)"
  by (simp add: delay_eq delay_spec_def)

lemma delay_bounds: "from_secs 1 \<le> delay attempt \<and> delay attempt \<le> from_secs 60"
  by (simp add: delay_eq delay_spec_def)

lemma delay_mono: "a \<le> b \<Longrightarrow> delay a \<le> delay b"
proof -
  assume "a \<le> b"
  then have "(2::nat) ^ unat a \<le> 2 ^ unat b"
    by (intro power_increasing) (simp_all add: word_le_nat_alt)
  then show ?thesis by (simp add: delay_eq delay_spec_def min.coboundedI1)
qed

lemma delay_cap: "6 \<le> unat attempt \<Longrightarrow> delay attempt = cap"
  using power_ge_60 [of "unat attempt"] by (simp add: delay_eq delay_spec_def cap_def)

end
