(* ===== verification/Rust_Text.thy ===== *)
theory Rust_Text
  imports Prelude
begin

text \<open>
  The parts of Rust's \<open>str\<close> and formatting machinery the sources use: \<open>{:02x}\<close>, decimal
  \<open>Display\<close> of unsigned integers, \<open>from_str_radix\<close> and \<open>FromStr\<close> of unsigned integers (which
  both accept one leading plus sign), \<open>str::get\<close> on a byte range (\<open>None\<close> off a character
  boundary), \<open>join\<close>, and the UTF-8 check of \<open>String::from_utf8\<close>. A character of a
  \<open>string\<close> is one byte.
\<close>

section \<open>Digits\<close>

abbreviation char_code :: "char \<Rightarrow> nat" where
  "char_code c \<equiv> of_char c"

definition digit_char :: "nat \<Rightarrow> char" where
  "digit_char n = (if n < 10 then char_of (48 + n) else char_of (87 + n))"

definition hex_value :: "char \<Rightarrow> nat option" where
  "hex_value c =
     (let n = char_code c in
      if 48 \<le> n \<and> n \<le> 57 then Some (n - 48)
      else if 65 \<le> n \<and> n \<le> 70 then Some (n - 55)
      else if 97 \<le> n \<and> n \<le> 102 then Some (n - 87)
      else None)"

definition dec_value :: "char \<Rightarrow> nat option" where
  "dec_value c = (let n = char_code c in if 48 \<le> n \<and> n \<le> 57 then Some (n - 48) else None)"

definition lower_hex :: "char \<Rightarrow> bool" where
  "lower_hex c = (let n = char_code c in (48 \<le> n \<and> n \<le> 57) \<or> (97 \<le> n \<and> n \<le> 102))"

lemma digit_char_code: "n < 16 \<Longrightarrow> char_code (digit_char n) = (if n < 10 then 48 + n else 87 + n)"
  by (auto simp: digit_char_def)

lemma hex_value_digit_char [simp]: "n < 16 \<Longrightarrow> hex_value (digit_char n) = Some n"
  by (auto simp: hex_value_def digit_char_code Let_def)

lemma dec_value_digit_char [simp]: "n < 10 \<Longrightarrow> dec_value (digit_char n) = Some n"
  by (auto simp: dec_value_def digit_char_code Let_def)

lemma lower_hex_digit_char [simp]: "n < 16 \<Longrightarrow> lower_hex (digit_char n)"
  by (auto simp: lower_hex_def digit_char_code Let_def)

lemma hex_value_less: "hex_value c = Some n \<Longrightarrow> n < 16"
  by (auto simp: hex_value_def Let_def split: if_splits)

lemma hex_value_ascii: "hex_value c = Some n \<Longrightarrow> char_code c < 128"
  by (auto simp: hex_value_def Let_def split: if_splits)

lemma digit_char_hex_value:
  assumes "hex_value c = Some n" and "lower_hex c"
  shows "digit_char n = c"
  using assms by (auto simp: hex_value_def lower_hex_def Let_def digit_char_def split: if_splits)

section \<open>Formatting\<close>

definition fmt_02x :: "u8 \<Rightarrow> string" where
  "fmt_02x b = [digit_char (unat b div 16), digit_char (unat b mod 16)]"

fun show_nat :: "nat \<Rightarrow> string" where
  "show_nat n = (if n < 10 then [digit_char n] else show_nat (n div 10) @ [digit_char (n mod 10)])"

declare show_nat.simps [simp del]

fun join_with :: "string \<Rightarrow> string list \<Rightarrow> string" where
  "join_with sep [] = []"
| "join_with sep [s] = s"
| "join_with sep (s # ss) = s @ sep @ join_with sep ss"

lemma length_fmt_02x [simp]: "length (fmt_02x b) = 2"
  by (simp add: fmt_02x_def)

lemma unat_u8_less: "unat (b :: u8) < 256"
proof -
  have "unat b < 2 ^ LENGTH(8)"
    by (rule unsigned_less)
  then show ?thesis by simp
qed

lemma unat_u8_div [simp]: "unat (b :: u8) div 16 < 16"
  using unat_u8_less [of b] by auto

lemma lower_hex_fmt_02x: "c \<in> set (fmt_02x b) \<Longrightarrow> lower_hex c"
  by (auto simp: fmt_02x_def)

section \<open>Parsing unsigned integers\<close>

text \<open>
  \<open>digits\<close> reads the digits most significant first and fails on a character that is no digit
  or as soon as the value reaches \<open>lim\<close>, where Rust's checked arithmetic overflows.
  \<open>strip_sign\<close> is the sign rule for unsigned types: a lone sign is an error, one leading
  plus is skipped, and a minus is left in place, where it is no digit.
\<close>

fun digits :: "(char \<Rightarrow> nat option) \<Rightarrow> nat \<Rightarrow> nat \<Rightarrow> nat \<Rightarrow> string \<Rightarrow> nat option" where
  "digits dig r lim acc [] = Some acc"
| "digits dig r lim acc (c # cs) =
     (case dig c of
        None \<Rightarrow> None
      | Some d \<Rightarrow> if acc * r + d < lim then digits dig r lim (acc * r + d) cs else None)"

definition strip_sign :: "string \<Rightarrow> string option" where
  "strip_sign s =
     (case s of
        [] \<Rightarrow> None
      | [c] \<Rightarrow> if c = CHR ''+'' \<or> c = CHR ''-'' then None else Some [c]
      | c # cs \<Rightarrow> if c = CHR ''+'' then Some cs else Some (c # cs))"

definition parse_unsigned :: "(char \<Rightarrow> nat option) \<Rightarrow> nat \<Rightarrow> nat \<Rightarrow> string \<Rightarrow> nat option" where
  "parse_unsigned dig r lim s =
     (case strip_sign s of None \<Rightarrow> None | Some ds \<Rightarrow> digits dig r lim 0 ds)"

definition u8_from_hex :: "string \<Rightarrow> u8 option" where
  "u8_from_hex s = map_option of_nat (parse_unsigned hex_value 16 256 s)"

definition parse_u16 :: "string \<Rightarrow> u16 option" where
  "parse_u16 s = map_option of_nat (parse_unsigned dec_value 10 65536 s)"

lemma digits_append:
  "digits dig r lim acc (xs @ ys) =
     (case digits dig r lim acc xs of None \<Rightarrow> None | Some a \<Rightarrow> digits dig r lim a ys)"
  by (induction xs arbitrary: acc) (auto split: option.splits)

lemma strip_sign_no_plus: "s \<noteq> [] \<Longrightarrow> hd s \<noteq> CHR ''+'' \<Longrightarrow> hd s \<noteq> CHR ''-'' \<Longrightarrow> strip_sign s = Some s"
  by (auto simp: strip_sign_def split: list.splits)

lemma digit_char_not_sign: "n < 16 \<Longrightarrow> digit_char n \<noteq> CHR ''+'' \<and> digit_char n \<noteq> CHR ''-''"
  using digit_char_code [of n] by (auto split: if_splits)

lemma u8_from_hex_fmt_02x [simp]: "u8_from_hex (fmt_02x b) = Some b"
proof -
  have "unat b div 16 * 16 + unat b mod 16 = unat b"
    by simp
  moreover have "unat b div 16 < 256"
    using unat_u8_div [of b] by linarith
  moreover have "strip_sign (fmt_02x b) = Some (fmt_02x b)"
    by (rule strip_sign_no_plus) (use digit_char_not_sign [of "unat b div 16"] in \<open>simp_all add: fmt_02x_def\<close>)
  ultimately show ?thesis
    by (simp add: u8_from_hex_def parse_unsigned_def fmt_02x_def unat_u8_less)
qed

text \<open>Reading two lower-case digits and printing the byte gives the digits back.\<close>

lemma fmt_02x_u8_from_hex:
  assumes "u8_from_hex [c, d] = Some b" and "lower_hex c" and "lower_hex d"
  shows "fmt_02x b = [c, d]"
proof -
  have "strip_sign [c, d] = Some [c, d]"
    by (rule strip_sign_no_plus) (use assms(2) in \<open>auto simp: lower_hex_def\<close>)
  then obtain x y where x: "hex_value c = Some x" and y: "hex_value d = Some y"
    and b: "b = of_nat (x * 16 + y)"
    using assms(1) by (auto simp: u8_from_hex_def parse_unsigned_def split: option.splits if_splits)
  have "x < 16" and "y < 16"
    using x y by (simp_all add: hex_value_less)
  then have "unat b = x * 16 + y"
    unfolding b unat_of_nat by simp
  with \<open>y < 16\<close> have "fmt_02x b = [digit_char x, digit_char y]"
    by (simp add: fmt_02x_def)
  then show ?thesis
    using x y assms(2,3) by (simp add: digit_char_hex_value)
qed

lemma show_nat_not_Nil [simp]: "show_nat n \<noteq> []"
  by (subst show_nat.simps) simp

lemma set_show_nat: "c \<in> set (show_nat n) \<Longrightarrow> \<exists>d < 10. c = digit_char d"
proof (induction n rule: show_nat.induct)
  case (1 n)
  show ?case
  proof (cases "n < 10")
    case True
    with "1.prems" show ?thesis by (auto simp: show_nat.simps [of n])
  next
    case False
    with "1.prems" have "c \<in> set (show_nat (n div 10)) \<or> c = digit_char (n mod 10)"
      by (auto simp: show_nat.simps [of n])
    moreover have "n mod 10 < 10" by simp
    ultimately show ?thesis using False "1.IH" by blast
  qed
qed

lemma digits_show_nat: "n < lim \<Longrightarrow> digits dec_value 10 lim 0 (show_nat n) = Some n"
proof (induction n rule: show_nat.induct)
  case (1 n)
  show ?case
  proof (cases "n < 10")
    case True
    with "1.prems" show ?thesis by (simp add: show_nat.simps [of n])
  next
    case False
    then have "digits dec_value 10 lim 0 (show_nat (n div 10)) = Some (n div 10)"
      using "1.IH" "1.prems" by simp
    moreover have "n div 10 * 10 + n mod 10 = n"
      by simp
    ultimately show ?thesis
      using False "1.prems" by (simp add: show_nat.simps [of n] digits_append)
  qed
qed

lemma strip_sign_show_nat [simp]: "strip_sign (show_nat n) = Some (show_nat n)"
proof -
  have "hd (show_nat n) \<in> set (show_nat n)"
    by simp
  then obtain d where d: "d < 10" "hd (show_nat n) = digit_char d"
    using set_show_nat by blast
  then have "hd (show_nat n) \<noteq> CHR ''+'' \<and> hd (show_nat n) \<noteq> CHR ''-''"
    using digit_char_not_sign [of d] by simp
  then show ?thesis
    by (intro strip_sign_no_plus) simp_all
qed

lemma parse_u16_show_nat [simp]: "parse_u16 (show_nat (unat (v :: u16))) = Some v"
proof -
  have "unat v < 2 ^ LENGTH(16)"
    by (rule unsigned_less)
  then show ?thesis
    by (simp add: parse_u16_def parse_unsigned_def digits_show_nat)
qed

section \<open>Slicing\<close>

definition utf8_continuation :: "char \<Rightarrow> bool" where
  "utf8_continuation c = (128 \<le> char_code c \<and> char_code c < 192)"

definition is_char_boundary :: "string \<Rightarrow> nat \<Rightarrow> bool" where
  "is_char_boundary s i = (i = 0 \<or> i = length s \<or> (i < length s \<and> \<not> utf8_continuation (s ! i)))"

definition str_get :: "string \<Rightarrow> nat \<Rightarrow> nat \<Rightarrow> string option" where
  "str_get s i j =
     (if i \<le> j \<and> is_char_boundary s i \<and> is_char_boundary s j then Some (take (j - i) (drop i s)) else None)"

definition ascii :: "string \<Rightarrow> bool" where
  "ascii s = (\<forall>c \<in> set s. char_code c < 128)"

lemma is_char_boundary_ascii: "ascii s \<Longrightarrow> i \<le> length s \<Longrightarrow> is_char_boundary s i"
proof -
  assume a: "ascii s" and "i \<le> length s"
  then have "i = length s \<or> s ! i \<in> set s" by (auto simp: nth_mem le_less)
  with a \<open>i \<le> length s\<close> show ?thesis
    by (auto simp: is_char_boundary_def ascii_def utf8_continuation_def not_le le_less)
qed

lemma str_get_ascii: "ascii s \<Longrightarrow> i \<le> j \<Longrightarrow> j \<le> length s \<Longrightarrow> str_get s i j = Some (take (j - i) (drop i s))"
  by (simp add: str_get_def is_char_boundary_ascii)

lemma str_get_Some_length: "str_get s i j = Some t \<Longrightarrow> length t = j - i \<and> j \<le> length s"
  by (auto simp: str_get_def is_char_boundary_def split: if_splits)

lemma lower_hex_ascii: "(\<forall>c \<in> set s. lower_hex c) \<Longrightarrow> ascii s"
  by (force simp: ascii_def lower_hex_def Let_def)

section \<open>UTF-8 validity\<close>

text \<open>
  \<open>String::from_utf8\<close> and \<open>str::from_utf8\<close> accept exactly the well-formed byte sequences:
  no overlong forms, no surrogates, nothing above U+10FFFF.
\<close>

definition cont_byte :: "u8 \<Rightarrow> bool" where
  "cont_byte b = (128 \<le> unat b \<and> unat b < 192)"

fun utf8_valid :: "u8 list \<Rightarrow> bool" where
  "utf8_valid [] = True"
| "utf8_valid (b # bs) =
     (let n = unat b in
      if n < 128 then utf8_valid bs
      else if n < 194 then False
      else if n < 224 then
        (case bs of c # r \<Rightarrow> cont_byte c \<and> utf8_valid r | [] \<Rightarrow> False)
      else if n < 240 then
        (case bs of
           c # d # r \<Rightarrow>
             cont_byte c \<and> cont_byte d \<and> (n = 224 \<longrightarrow> 160 \<le> unat c) \<and> (n = 237 \<longrightarrow> unat c < 160) \<and> utf8_valid r
         | _ \<Rightarrow> False)
      else if n < 245 then
        (case bs of
           c # d # e # r \<Rightarrow>
             cont_byte c \<and> cont_byte d \<and> cont_byte e \<and> (n = 240 \<longrightarrow> 144 \<le> unat c) \<and> (n = 244 \<longrightarrow> unat c < 144)
             \<and> utf8_valid r
         | _ \<Rightarrow> False)
      else False)"

text \<open>A Rust \<open>String\<close> and its bytes (\<open>into_bytes\<close>, and back where the bytes are valid).\<close>

definition string_bytes :: "string \<Rightarrow> u8 list" where
  "string_bytes s = map (\<lambda>c. of_nat (char_code c)) s"

definition bytes_string :: "u8 list \<Rightarrow> string" where
  "bytes_string bs = map (\<lambda>b. char_of (unat b)) bs"

definition from_utf8 :: "u8 list \<Rightarrow> string option" where
  "from_utf8 bs = (if utf8_valid bs then Some (bytes_string bs) else None)"

definition is_rust_string :: "string \<Rightarrow> bool" where
  "is_rust_string s = utf8_valid (string_bytes s)"

lemma bytes_string_bytes [simp]: "bytes_string (string_bytes s) = s"
proof -
  have "char_of (unat (of_nat (char_code c) :: u8)) = c" for c
  proof -
    have "char_code c < 256"
      by (rule nat_of_char_less_256)
    then have "unat (of_nat (char_code c) :: u8) = char_code c"
      unfolding unat_of_nat by simp
    then show ?thesis by simp
  qed
  then show ?thesis
    by (simp add: bytes_string_def string_bytes_def comp_def)
qed

lemma length_string_bytes [simp]: "length (string_bytes s) = length s"
  by (simp add: string_bytes_def)

lemma from_utf8_string_bytes: "is_rust_string s \<Longrightarrow> from_utf8 (string_bytes s) = Some s"
  by (simp add: from_utf8_def is_rust_string_def)

lemma utf8_valid_ascii: "\<forall>b \<in> set bs. unat b < 128 \<Longrightarrow> utf8_valid bs"
  by (induction bs) simp_all

lemma unat_char_byte [simp]: "unat (of_nat (char_code c) :: u8) = char_code c"
proof -
  have "char_code c < 256"
    by (rule nat_of_char_less_256)
  then show ?thesis
    unfolding unat_of_nat by simp
qed

lemma ascii_is_rust_string: "ascii s \<Longrightarrow> is_rust_string s"
  unfolding is_rust_string_def by (rule utf8_valid_ascii) (auto simp: string_bytes_def ascii_def)

end
