(* ===== verification/Clip.thy ===== *)
theory Clip
  imports Rust_Text
begin

text \<open>
  \<open>crates/protocol/src/clipboard.rs\<close>: clipboard content with its size and MIME rules. BLAKE3
  is a third-party hash, so it is the parameter \<open>blake3\<close> of every operation that hashes.
\<close>

definition max_content_len :: nat where
  "max_content_len = 100 * 1024"

definition mime_text_plain :: string where
  "mime_text_plain = ''text/plain''"

record clip =
  mime :: string
  content :: "u8 list"
  hash :: "u8 list"

datatype clip_error = TooLarge nat | UnsupportedMime string

text \<open>\<open>Clip::new\<close>.\<close>

definition clip_new :: "(u8 list \<Rightarrow> u8 list) \<Rightarrow> string \<Rightarrow> u8 list \<Rightarrow> clip_error + clip" where
  "clip_new blake3 m c =
     (if m \<noteq> mime_text_plain then Inl (UnsupportedMime m)
      else if length c > max_content_len then Inl (TooLarge (length c))
      else Inr \<lparr>mime = m, content = c, hash = blake3 c\<rparr>)"

text \<open>What the constructor promises of a clip.\<close>

definition clip_ok :: "(u8 list \<Rightarrow> u8 list) \<Rightarrow> clip \<Rightarrow> bool" where
  "clip_ok blake3 k \<longleftrightarrow>
     mime k = mime_text_plain \<and> length (content k) \<le> max_content_len \<and> hash k = blake3 (content k)"

lemma clip_new_Inr_iff:
  "clip_new blake3 m c = Inr k \<longleftrightarrow> clip_ok blake3 k \<and> mime k = m \<and> content k = c"
  by (cases k) (auto simp: clip_new_def clip_ok_def)

lemma clip_new_Inl_iff:
  "clip_new blake3 m c = Inl e \<longleftrightarrow>
     (e = UnsupportedMime m \<and> m \<noteq> mime_text_plain) \<or>
     (e = TooLarge (length c) \<and> m = mime_text_plain \<and> max_content_len < length c)"
  by (auto simp: clip_new_def)

text \<open>
  \<open>Clip::new\<close> is total and its result is exactly one of three: the MIME type is refused
  first, then a length above 102400 bytes, and otherwise the clip is the given content under
  its own hash. Every clip the constructor returns keeps the three promises, and every clip
  that keeps them is returned by the constructor for its own fields.
\<close>

theorem clip_new_spec:
  "(case clip_new blake3 m c of
      Inl (UnsupportedMime x) \<Rightarrow> m \<noteq> mime_text_plain \<and> x = m
    | Inl (TooLarge n) \<Rightarrow> m = mime_text_plain \<and> n = length c \<and> 102400 < n
    | Inr k \<Rightarrow> clip_ok blake3 k \<and> mime k = m \<and> content k = c)
   \<and> (clip_ok blake3 k' \<longleftrightarrow> clip_new blake3 (mime k') (content k') = Inr k')"
proof -
  have "clip_ok blake3 k' \<longleftrightarrow> clip_new blake3 (mime k') (content k') = Inr k'"
    by (simp add: clip_new_Inr_iff)
  moreover have "m = mime_text_plain \<Longrightarrow> length c \<le> max_content_len \<Longrightarrow>
      clip_ok blake3 \<lparr>mime = m, content = c, hash = blake3 c\<rparr>"
    by (simp add: clip_ok_def)
  ultimately show ?thesis
    by (auto simp: clip_new_def max_content_len_def)
qed

end
