(* ===== verification/Message.thy ===== *)
theory Message
  imports Clip
begin

text \<open>
  \<open>crates/protocol/src/message.rs\<close>: device identifiers and their text forms, the wire messages,
  and the codec. Encoding is done by the third-party \<open>postcard\<close> crate, whose two functions
  are the parameters \<open>to_allocvec\<close> and \<open>from_bytes\<close>.
\<close>

section \<open>Device identifiers\<close>

text \<open>\<open>[u8; 32]\<close>: a byte list, of length 32 wherever the code holds one.\<close>

type_synonym device_id = "u8 list"
type_synonym token_bytes = "u8 list"

definition device_id_len :: nat where
  "device_id_len = 32"

definition token_len :: nat where
  "token_len = 16"

fun chunks2 :: "'a list \<Rightarrow> 'a list list" where
  "chunks2 [] = []"
| "chunks2 [x] = [[x]]"
| "chunks2 (x # y # zs) = [x, y] # chunks2 zs"

text \<open>\<open>short_fingerprint\<close>: the first eight bytes, in dash-separated groups of two.\<close>

definition short_fingerprint :: "device_id \<Rightarrow> string" where
  "short_fingerprint i =
     join_with ''-'' (map (\<lambda>pair. fmt_02x (pair ! 0) @ fmt_02x (pair ! 1)) (chunks2 (take 8 i)))"

definition to_hex :: "u8 list \<Rightarrow> string" where
  "to_hex i = concat (map fmt_02x i)"

text \<open>
  The loop of \<open>from_hex\<close>: slot \<open>i\<close> of the array is read from the bytes \<open>2 i\<close> and \<open>2 i + 1\<close>
  of the string, and the first slot that fails ends the function.
\<close>

fun hex_slots :: "string \<Rightarrow> nat \<Rightarrow> nat \<Rightarrow> u8 list option" where
  "hex_slots s i 0 = Some []"
| "hex_slots s i (Suc n) =
     (case str_get s (i * 2) (i * 2 + 2) of
        None \<Rightarrow> None
      | Some p \<Rightarrow>
          (case u8_from_hex p of
             None \<Rightarrow> None
           | Some b \<Rightarrow> map_option ((#) b) (hex_slots s (Suc i) n)))"

definition from_hex :: "string \<Rightarrow> device_id option" where
  "from_hex s = (if length s \<noteq> 64 then None else hex_slots s 0 32)"

subsection \<open>Reading back what was printed\<close>

lemma length_to_hex [simp]: "length (to_hex i) = 2 * length i"
  by (induction i) (simp_all add: to_hex_def)

lemma to_hex_Nil [simp]: "to_hex [] = []"
  by (simp add: to_hex_def)

lemma to_hex_Cons: "to_hex (b # i) = fmt_02x b @ to_hex i"
  by (simp add: to_hex_def)

lemma to_hex_append: "to_hex (xs @ ys) = to_hex xs @ to_hex ys"
  by (simp add: to_hex_def)

lemma lower_hex_to_hex: "c \<in> set (to_hex i) \<Longrightarrow> lower_hex c"
  by (auto simp: to_hex_def lower_hex_fmt_02x)

lemma ascii_to_hex: "ascii (to_hex i)"
  by (simp add: lower_hex_ascii lower_hex_to_hex)

lemma hex_slots_length: "hex_slots s i n = Some bs \<Longrightarrow> length bs = n"
  by (induction s i n arbitrary: bs rule: hex_slots.induct) (auto split: option.splits)

lemma hex_slots_to_hex:
  "ascii (pre @ to_hex bs) \<Longrightarrow> length pre = 2 * i \<Longrightarrow> n = length bs \<Longrightarrow>
     hex_slots (pre @ to_hex bs) i n = Some bs"
proof (induction bs arbitrary: pre i n)
  case Nil
  then show ?case by simp
next
  case (Cons b bs)
  let ?s = "pre @ to_hex (b # bs)"
  have "str_get ?s (i * 2) (i * 2 + 2) = Some (fmt_02x b)"
    using Cons.prems by (simp add: str_get_ascii to_hex_Cons)
  moreover have "hex_slots ?s (Suc i) (length bs) = Some bs"
    using Cons.IH [of "pre @ fmt_02x b" "Suc i" "length bs"] Cons.prems
    by (simp add: to_hex_Cons)
  ultimately show ?case
    using Cons.prems by simp
qed

lemma from_hex_length: "from_hex s = Some i \<Longrightarrow> length i = device_id_len"
  by (auto simp: from_hex_def device_id_len_def hex_slots_length split: if_splits)

lemma from_hex_to_hex: "length i = device_id_len \<Longrightarrow> from_hex (to_hex i) = Some i"
  using hex_slots_to_hex [of "[]" i 0 32] ascii_to_hex [of i]
  by (simp add: from_hex_def device_id_len_def)

text \<open>Conversely, a string of lower-case digits that is accepted is the canonical text.\<close>

lemma hex_slots_canonical:
  "hex_slots s i n = Some bs \<Longrightarrow> \<forall>c \<in> set s. lower_hex c \<Longrightarrow>
     to_hex bs = take (2 * n) (drop (2 * i) s)"
proof (induction s i n arbitrary: bs rule: hex_slots.induct)
  case (1 s i)
  then show ?case by simp
next
  case (2 s i n)
  from "2.prems"(1) obtain p b bs'
    where p: "str_get s (i * 2) (i * 2 + 2) = Some p" and b: "u8_from_hex p = Some b"
      and bs': "hex_slots s (Suc i) n = Some bs'" and bs: "bs = b # bs'"
    by (auto split: option.splits)
  have pl: "length p = 2" and ln: "i * 2 + 2 \<le> length s"
    using str_get_Some_length [OF p] by simp_all
  have pe: "p = take 2 (drop (2 * i) s)"
    using p by (auto simp: str_get_def mult.commute split: if_splits)
  obtain c d where cd: "p = [c, d]"
    using pl by (auto simp: length_2_conv)
  have "set p \<subseteq> set s"
    unfolding pe by (meson set_drop_subset set_take_subset subset_trans)
  then have "fmt_02x b = p"
    using fmt_02x_u8_from_hex [of c d b] b "2.prems"(2) by (auto simp: cd)
  moreover have "to_hex bs' = take (2 * n) (drop (2 * Suc i) s)"
    using "2.IH" [OF p b bs' "2.prems"(2)] .
  moreover have "take (2 * Suc n) (drop (2 * i) s) = take 2 (drop (2 * i) s) @ take (2 * n) (drop (2 * i + 2) s)"
    using take_add [of 2 "2 * n" "drop (2 * i) s"] by (simp add: add.commute)
  ultimately show ?case
    by (simp add: bs to_hex_Cons pe add.commute)
qed

lemma to_hex_from_hex:
  assumes "from_hex s = Some i" and "\<forall>c \<in> set s. lower_hex c"
  shows "to_hex i = s"
proof -
  have "length s = 64" and "hex_slots s 0 32 = Some i"
    using assms(1) by (auto simp: from_hex_def split: if_splits)
  then show ?thesis
    using hex_slots_canonical [of s 0 32 i] assms(2) by simp
qed

subsection \<open>Fixed-width hexadecimal text as an interface\<close>

text \<open>
  What the users of a hexadecimal text form rely on. The device identifiers here and the
  pairing tokens of the QR payload provide it.
\<close>

locale hex_form =
  fixes width :: nat
    and enc :: "u8 list \<Rightarrow> string"
    and dec :: "string \<Rightarrow> u8 list option"
  assumes dec_enc: "length bs = width \<Longrightarrow> dec (enc bs) = Some bs"
    and dec_width: "dec s = Some bs \<Longrightarrow> length bs = width"
    and enc_dec: "dec s = Some bs \<Longrightarrow> \<forall>c \<in> set s. lower_hex c \<Longrightarrow> enc bs = s"
    and enc_lower: "c \<in> set (enc bs) \<Longrightarrow> lower_hex c"
begin

lemma enc_inject: "length a = width \<Longrightarrow> length b = width \<Longrightarrow> enc a = enc b \<longleftrightarrow> a = b"
  by (metis dec_enc option.inject)

lemma dec_lower_inject:
  "dec s = Some bs \<Longrightarrow> dec t = Some bs \<Longrightarrow> \<forall>c \<in> set s. lower_hex c \<Longrightarrow> \<forall>c \<in> set t. lower_hex c \<Longrightarrow> s = t"
  by (metis enc_dec)

lemma canonical_iff: "dec s = Some bs \<Longrightarrow> enc bs = s \<longleftrightarrow> (\<forall>c \<in> set s. lower_hex c)"
  by (metis enc_dec enc_lower)

end

interpretation idhex: hex_form device_id_len to_hex from_hex
  by unfold_locales (simp_all add: from_hex_to_hex from_hex_length to_hex_from_hex lower_hex_to_hex)

text \<open>
  The text form of a device identifier: every 32-byte identifier is read back from its
  hexadecimal text, and a text that is accepted is the canonical one exactly when all its
  characters are lower-case hexadecimal digits.
\<close>

theorem device_id_hex_roundtrip:
  assumes "length i = 32"
  shows "from_hex (to_hex i) = Some i \<and>
    (\<forall>s. from_hex s = Some i \<longrightarrow> (s = to_hex i \<longleftrightarrow> (\<forall>c \<in> set s. lower_hex c)))"
proof -
  have "length i = device_id_len"
    using assms by (simp add: device_id_len_def)
  then show ?thesis
    using idhex.dec_enc idhex.canonical_iff by blast
qed

theorem device_id_hex_roundtrip_witness:
  "from_hex (to_hex (replicate 32 7)) = Some (replicate 32 7)"
  using device_id_hex_roundtrip [of "replicate 32 7"] by simp

text \<open>
  \<open>from_hex\<close> is documented to parse "a full lowercase hex string", but
  \<open>u8::from_str_radix\<close> also takes upper-case digits and a leading plus sign, so strings that
  \<open>to_hex\<close> never prints are accepted, and distinct strings name one device.
\<close>

lemma hex_slots_repeat:
  assumes "u8_from_hex [c, d] = Some b" and "char_code c < 128" and "char_code d < 128"
  shows "from_hex (concat (replicate 32 [c, d])) = Some (replicate 32 b)"
proof -
  let ?s = "\<lambda>n. concat (replicate n [c, d])"
  have len: "length (?s n) = 2 * n" for n
    by (induction n) simp_all
  have asc: "ascii (?s n)" for n
    using assms(2,3) by (auto simp: ascii_def)
  have app: "?s (i + n) = ?s i @ ?s n" for i n
    by (simp add: replicate_add)
  have "hex_slots (?s (i + n)) i n = Some (replicate n b)" for i n
  proof (induction n arbitrary: i)
    case 0
    show ?case by simp
  next
    case (Suc n)
    have "str_get (?s (i + Suc n)) (i * 2) (i * 2 + 2) = Some [c, d]"
      using str_get_ascii [OF asc, of "i * 2" "i * 2 + 2" "i + Suc n"] len [of i]
      by (simp add: len app del: add_Suc_right)
    with Suc [of "Suc i"] assms(1) show ?case
      by simp
  qed
  from this [of 0 32] show ?thesis
    by (simp add: from_hex_def len)
qed

theorem from_hex_accepts_non_canonical:
  "from_hex (concat (replicate 32 ''+f'')) = Some (replicate 32 15) \<and>
   from_hex (concat (replicate 32 ''0F'')) = Some (replicate 32 15) \<and>
   to_hex (replicate 32 15) \<noteq> concat (replicate 32 ''+f'') \<and>
   to_hex (replicate 32 15) \<noteq> concat (replicate 32 ''0F'')"
proof -
  have "u8_from_hex ''+f'' = Some 15" and "u8_from_hex ''0F'' = Some 15"
    by (simp_all add: u8_from_hex_def parse_unsigned_def strip_sign_def hex_value_def)
  then have "from_hex (concat (replicate 32 ''+f'')) = Some (replicate 32 15)"
    and "from_hex (concat (replicate 32 ''0F'')) = Some (replicate 32 15)"
    by (simp_all add: hex_slots_repeat)
  moreover have "\<not> lower_hex (CHR ''+'')" and "\<not> lower_hex (CHR ''F'')"
    by (simp_all add: lower_hex_def)
  moreover have "CHR ''+'' \<in> set (concat (replicate 32 ''+f''))" and "CHR ''F'' \<in> set (concat (replicate 32 ''0F''))"
    by simp_all
  ultimately show ?thesis
    by (metis idhex.enc_lower)
qed

subsection \<open>The short fingerprint\<close>

lemma join_with_inject:
  "\<forall>x \<in> set xs. length x = 4 \<Longrightarrow> \<forall>y \<in> set ys. length y = 4 \<Longrightarrow> length xs = length ys \<Longrightarrow>
     join_with sep xs = join_with sep ys \<Longrightarrow> xs = ys"
proof (induction sep xs arbitrary: ys rule: join_with.induct)
  case (1 sep)
  then show ?case by simp
next
  case (2 sep s)
  then show ?case by (cases ys) auto
next
  case (3 sep s s' ss)
  then obtain t t' ts where ys: "ys = t # t' # ts"
    by (metis Suc_length_conv length_Cons)
  with "3.prems" have "s = t" and "join_with sep (s' # ss) = join_with sep (t' # ts)"
    by auto
  moreover have "s' # ss = t' # ts"
    by (rule "3.IH") (use "3.prems" ys calculation(2) in auto)
  ultimately show ?case by (simp add: ys)
qed

lemma fmt_02x_inject [simp]: "fmt_02x a = fmt_02x b \<longleftrightarrow> a = b"
  by (metis option.inject u8_from_hex_fmt_02x)

lemma length_8_conv: "length xs = 8 \<longleftrightarrow> (\<exists>a b c d e f g h. xs = [a, b, c, d, e, f, g, h])"
  by (auto simp: eval_nat_numeral length_Suc_conv)

text \<open>
  The short fingerprint of a device identifier is nineteen characters, never fails on an
  identifier of at least eight bytes, and two identifiers have the same fingerprint exactly
  when their first eight bytes agree, so a human comparison decides those eight bytes and
  nothing more.
\<close>

theorem short_fingerprint_spec:
  assumes "8 \<le> length a" and "8 \<le> length b"
  shows "length (short_fingerprint a) = 19 \<and>
    (short_fingerprint a = short_fingerprint b \<longleftrightarrow> take 8 a = take 8 b)"
proof -
  from assms have "length (take 8 a) = 8" and "length (take 8 b) = 8"
    by simp_all
  then obtain a0 a1 a2 a3 a4 a5 a6 a7 b0 b1 b2 b3 b4 b5 b6 b7
    where a: "take 8 a = [a0, a1, a2, a3, a4, a5, a6, a7]"
      and b: "take 8 b = [b0, b1, b2, b3, b4, b5, b6, b7]"
    unfolding length_8_conv by blast
  show ?thesis
    by (simp add: short_fingerprint_def a b)
qed

theorem short_fingerprint_spec_witness:
  "short_fingerprint [0, 1, 2, 3, 4, 5, 6, 7] = short_fingerprint [0, 1, 2, 3, 4, 5, 6, 7, 9]"
  using short_fingerprint_spec [of "[0, 1, 2, 3, 4, 5, 6, 7]" "[0, 1, 2, 3, 4, 5, 6, 7, 9]"] by simp

section \<open>Wire messages\<close>

datatype capability = CapClipboard | CapFiles | CapNotifications

record handshake =
  hs_version :: u16
  hs_device_id :: device_id
  hs_name :: string
  hs_capabilities :: "capability list"
  hs_pairing_token :: "token_bytes option"

text \<open>\<open>Ping\<close> and \<open>Pong\<close> are structs with the one field \<open>nonce\<close>.\<close>

datatype message =
    Handshake handshake
  | Ping u64
  | Pong u64
  | Clipboard clip

definition protocol_version :: u16 where
  "protocol_version = 1"

section \<open>The codec\<close>

datatype 'e codec_error = Encode 'e | Decode 'e

definition encode :: "(message \<Rightarrow> 'e + u8 list) \<Rightarrow> message \<Rightarrow> 'e codec_error + u8 list" where
  "encode to_allocvec msg = (case to_allocvec msg of Inl e \<Rightarrow> Inl (Encode e) | Inr bs \<Rightarrow> Inr bs)"

definition decode :: "(u8 list \<Rightarrow> 'e + message) \<Rightarrow> u8 list \<Rightarrow> 'e codec_error + message" where
  "decode from_bytes bs = (case from_bytes bs of Inl e \<Rightarrow> Inl (Decode e) | Inr m \<Rightarrow> Inr m)"

text \<open>
  What the code relies on, for one message: \<open>postcard\<close> encodes it, and decodes the encoding
  to the same message.
\<close>

definition codec_ok :: "(message \<Rightarrow> 'e + u8 list) \<Rightarrow> (u8 list \<Rightarrow> 'e + message) \<Rightarrow> message \<Rightarrow> bool" where
  "codec_ok to_allocvec from_bytes m \<longleftrightarrow>
     (case to_allocvec m of Inl _ \<Rightarrow> False | Inr bs \<Rightarrow> from_bytes bs = Inr m)"

lemma codec_ok_decode:
  "codec_ok to_allocvec from_bytes m \<Longrightarrow>
     \<exists>bs. encode to_allocvec m = Inr bs \<and> decode from_bytes bs = Inr m"
  by (auto simp: codec_ok_def encode_def decode_def split: sum.splits)

end
