(* ===== verification/Connection.thy ===== *)
theory Connection
  imports Message Rust_Time
begin

text \<open>
  \<open>crates/protocol/src/connection.rs\<close>: the per-connection state machine, which exchanges
  handshakes, keeps the connection alive with pings and carries clipboard updates.
  The nonce the caller's generator would give and the clock read by \<open>Instant::elapsed\<close> are
  arguments of a step. \<open>None\<close> is the panic of \<open>Duration * u32\<close> on overflow.
\<close>

section \<open>State, events and actions\<close>

record local_identity =
  li_device_id :: device_id
  li_name :: string
  li_capabilities :: "capability list"

datatype event =
    Started
  | Received message
  | Tick instant
  | SendClipboard clip

datatype reject_reason = VersionMismatch u16 u16

datatype action =
    Send message
  | PeerHandshake device_id string "capability list" "token_bytes option"
  | Ponged duration
  | PeerClipboard clip
  | KeepaliveTimedOut
  | Reject reject_reason

definition pong_timeout_multiplier :: nat where
  "pong_timeout_multiplier = 3"

datatype phase = AwaitingPeerHandshake | Ready

record machine =
  phase :: phase
  local_id :: local_identity
  outgoing_pairing_token :: "token_bytes option"
  keepalive_interval :: duration
  last_ping_sent :: "instant option"
  pending_ping :: "(u64 \<times> instant) option"
  next_nonce :: u64

definition new_machine :: "local_identity \<Rightarrow> duration \<Rightarrow> token_bytes option \<Rightarrow> machine" where
  "new_machine loc interval tok =
     \<lparr>phase = AwaitingPeerHandshake, local_id = loc, outgoing_pairing_token = tok,
      keepalive_interval = interval, last_ping_sent = None, pending_ping = None, next_nonce = 0\<rparr>"

section \<open>The handlers\<close>

definition own_handshake :: "machine \<Rightarrow> handshake" where
  "own_handshake m =
     \<lparr>hs_version = protocol_version, hs_device_id = li_device_id (local_id m), hs_name = li_name (local_id m),
      hs_capabilities = li_capabilities (local_id m), hs_pairing_token = outgoing_pairing_token m\<rparr>"

fun on_received :: "machine \<Rightarrow> message \<Rightarrow> instant \<Rightarrow> action list \<times> machine" where
  "on_received m msg clock =
     (case (phase m, msg) of
        (AwaitingPeerHandshake, Handshake h) \<Rightarrow>
          if hs_version h \<noteq> protocol_version
          then ([Reject (VersionMismatch protocol_version (hs_version h))], m)
          else ([PeerHandshake (hs_device_id h) (hs_name h) (hs_capabilities h) (hs_pairing_token h)],
                m\<lparr>phase := Ready\<rparr>)
      | (Ready, Ping nonce) \<Rightarrow> ([Send (Pong nonce)], m)
      | (Ready, Pong nonce) \<Rightarrow>
          (case pending_ping m of
             Some (expected, sent_at) \<Rightarrow>
               if expected = nonce
               then ([Ponged (duration_since clock sent_at)], m\<lparr>pending_ping := None\<rparr>)
               else ([], m)
           | None \<Rightarrow> ([], m))
      | (Ready, Clipboard clip) \<Rightarrow> ([PeerClipboard clip], m)
      | _ \<Rightarrow> ([], m))"

definition on_tick :: "machine \<Rightarrow> instant \<Rightarrow> u64 \<Rightarrow> (action list \<times> machine) option" where
  "on_tick m now random_nonce =
     (if phase m \<noteq> Ready then Some ([], m)
      else case pending_ping m of
        Some (_, sent_at) \<Rightarrow>
          (case checked_mul (keepalive_interval m) pong_timeout_multiplier of
             None \<Rightarrow> None
           | Some timeout \<Rightarrow>
               if timeout \<le> duration_since now sent_at
               then Some ([KeepaliveTimedOut], m\<lparr>pending_ping := None\<rparr>)
               else Some ([], m))
      | None \<Rightarrow>
          (case last_ping_sent m of
             None \<Rightarrow> Some ([], m\<lparr>last_ping_sent := Some now\<rparr>)
           | Some prev \<Rightarrow>
               if keepalive_interval m \<le> duration_since now prev
               then Some ([Send (Ping random_nonce)],
                          m\<lparr>next_nonce := next_nonce m + 1, last_ping_sent := Some now,
                            pending_ping := Some (random_nonce, now)\<rparr>)
               else Some ([], m)))"

fun handle :: "machine \<Rightarrow> event \<Rightarrow> u64 \<Rightarrow> instant \<Rightarrow> (action list \<times> machine) option" where
  "handle m Started random_nonce clock = Some ([Send (Handshake (own_handshake m))], m)"
| "handle m (Received msg) random_nonce clock = Some (on_received m msg clock)"
| "handle m (Tick now) random_nonce clock = on_tick m now random_nonce"
| "handle m (SendClipboard clip) random_nonce clock =
     Some (if phase m = Ready then [Send (Clipboard clip)] else [], m)"

text \<open>A run of the machine: each input carries the event, the nonce and the clock.\<close>

type_synonym input = "event \<times> u64 \<times> instant"

definition machine_step :: "machine \<Rightarrow> input \<Rightarrow> (action list \<times> machine) option" where
  "machine_step m i = (case i of (e, nonce, clock) \<Rightarrow> handle m e nonce clock)"

abbreviation run_machine :: "machine \<Rightarrow> input list \<Rightarrow> (action list \<times> machine) option" where
  "run_machine \<equiv> run_steps machine_step"

section \<open>Well-formedness\<close>

text \<open>
  A ping is outstanding only in the phase \<open>Ready\<close> and was sent at \<open>last_ping_sent\<close>; the
  baseline of the keepalive clock is set only in \<open>Ready\<close>.
\<close>

definition machine_inv :: "machine \<Rightarrow> bool" where
  "machine_inv m \<longleftrightarrow>
     (last_ping_sent m \<noteq> None \<longrightarrow> phase m = Ready) \<and>
     (\<forall>n t. pending_ping m = Some (n, t) \<longrightarrow> last_ping_sent m = Some t)"

lemmas handler_defs = on_received.simps on_tick_def own_handshake_def
lemmas handler_splits = phase.splits message.splits option.splits if_splits prod.splits

lemma machine_inv_waiting: "machine_inv m \<Longrightarrow> phase m = AwaitingPeerHandshake \<Longrightarrow> pending_ping m = None"
  by (cases "pending_ping m") (auto simp: machine_inv_def)

lemma machine_inv_new: "machine_inv (new_machine loc interval tok)"
  by (simp add: machine_inv_def new_machine_def)

lemma on_received_inv: "machine_inv m \<Longrightarrow> on_received m msg c = (as, m') \<Longrightarrow> machine_inv m'"
  by (auto simp: machine_inv_def split: handler_splits)

lemma on_tick_inv: "machine_inv m \<Longrightarrow> on_tick m now n = Some (as, m') \<Longrightarrow> machine_inv m'"
  by (auto simp: machine_inv_def on_tick_def split: handler_splits)

text \<open>One step is one of the four handlers.\<close>

lemma machine_step_cases [consumes 1, case_names started received tick clipboard]:
  assumes "machine_step m i = Some (as, m')"
  obtains "as = [Send (Handshake (own_handshake m))]" "m' = m"
  | msg c where "on_received m msg c = (as, m')"
  | now n where "on_tick m now n = Some (as, m')"
  | clip where "as = (if phase m = Ready then [Send (Clipboard clip)] else [])" "m' = m"
proof -
  obtain e n c where i: "i = (e, n, c)" by (metis surj_pair)
  have st: "handle m e n c = Some (as, m')"
    using assms by (simp only: machine_step_def i prod.case)
  show thesis
  proof (cases e)
    case Started
    with st have "as = [Send (Handshake (own_handshake m))]" and "m' = m" by auto
    then show ?thesis by (rule that(1))
  next
    case (Received msg)
    with st show ?thesis by (intro that(2) [of msg c]) (simp del: on_received.simps)
  next
    case (Tick now)
    with st show ?thesis by (intro that(3) [of now n]) simp
  next
    case (SendClipboard clip)
    with st have "as = (if phase m = Ready then [Send (Clipboard clip)] else [])" and "m' = m" by auto
    then show ?thesis by (rule that(4))
  qed
qed

lemma machine_step_inv:
  assumes "machine_step m i = Some (as, m')" and "machine_inv m"
  shows "machine_inv m'"
  using assms
proof (cases rule: machine_step_cases)
  case (received msg c)
  then show ?thesis using on_received_inv [OF assms(2)] by blast
next
  case (tick now n)
  then show ?thesis using on_tick_inv [OF assms(2)] by blast
qed simp_all

section \<open>The abstract connection\<close>

text \<open>
  What a user of the machine may rely on, read off its actions alone: nothing but our own
  handshake and version rejections before the peer's handshake is reported, that report
  exactly once, and from then on at most one unanswered ping, closed by a \<open>Ponged\<close> or a
  timeout.
\<close>

datatype conn_view = Waiting | Live "u64 option"

fun conn_spec :: "conn_view \<Rightarrow> action \<Rightarrow> conn_view option" where
  "conn_spec v (Send (Handshake h)) = Some v"
| "conn_spec Waiting (Reject r) = Some Waiting"
| "conn_spec Waiting (PeerHandshake i nm caps tok) = Some (Live None)"
| "conn_spec (Live p) (Send (Pong n)) = Some (Live p)"
| "conn_spec (Live p) (Send (Clipboard c)) = Some (Live p)"
| "conn_spec (Live p) (PeerClipboard c) = Some (Live p)"
| "conn_spec (Live None) (Send (Ping n)) = Some (Live (Some n))"
| "conn_spec (Live (Some n)) (Ponged d) = Some (Live None)"
| "conn_spec (Live (Some n)) KeepaliveTimedOut = Some (Live None)"
| "conn_spec v a = None"

definition conn_abs :: "machine \<Rightarrow> conn_view" where
  "conn_abs m =
     (case phase m of AwaitingPeerHandshake \<Rightarrow> Waiting | Ready \<Rightarrow> Live (map_option fst (pending_ping m)))"

lemma on_received_refines:
  "on_received m msg c = (as, m') \<Longrightarrow> machine_inv m \<Longrightarrow> spec_run conn_spec (conn_abs m) as = Some (conn_abs m')"
  by (auto simp: conn_abs_def machine_inv_waiting split: handler_splits)

lemma on_tick_refines:
  "on_tick m now n = Some (as, m') \<Longrightarrow> spec_run conn_spec (conn_abs m) as = Some (conn_abs m')"
  by (auto simp: conn_abs_def on_tick_def split: handler_splits)

lemma machine_step_refines:
  assumes "machine_step m i = Some (as, m')" and "machine_inv m"
  shows "spec_run conn_spec (conn_abs m) as = Some (conn_abs m')"
  using assms
proof (cases rule: machine_step_cases)
  case (received msg c)
  then show ?thesis using assms(2) by (rule on_received_refines)
next
  case (tick now n)
  then show ?thesis by (rule on_tick_refines)
qed (simp_all add: conn_abs_def split: phase.splits)

interpretation conn: refining_machine machine_step machine_inv conn_abs conn_spec
  by unfold_locales (blast intro: machine_step_inv machine_step_refines)+

text \<open>
  C12. Every run of a fresh connection machine is a run of the abstract connection: before the
  peer's handshake is reported only our handshake or a version rejection is ever emitted,
  the peer is reported exactly once, clipboard data and pings flow only after it, at most one
  ping is unanswered at any time, and a \<open>Ponged\<close> or a timeout always closes one.
\<close>

theorem connection_refines_spec:
  assumes "run_machine (new_machine loc interval tok) inputs = Some (actions, m')"
  shows "spec_run conn_spec Waiting actions = Some (conn_abs m') \<and> machine_inv m'"
proof -
  have "spec_run conn_spec (conn_abs (new_machine loc interval tok)) actions = Some (conn_abs m')"
    using conn.run_refines [OF machine_inv_new assms] .
  moreover have "machine_inv m'"
    using conn.run_inv [OF machine_inv_new assms] .
  ultimately show ?thesis
    by (simp add: conn_abs_def new_machine_def)
qed

definition demo_identity :: local_identity where
  "demo_identity = \<lparr>li_device_id = replicate 32 1, li_name = ''desk'', li_capabilities = []\<rparr>"

definition demo_handshake :: handshake where
  "demo_handshake =
     \<lparr>hs_version = 1, hs_device_id = replicate 32 2, hs_name = ''pixel'', hs_capabilities = [],
      hs_pairing_token = None\<rparr>"

definition demo_ready :: machine where
  "demo_ready = (new_machine demo_identity 20 None)\<lparr>phase := Ready\<rparr>"

theorem connection_refines_spec_witness:
  "spec_run conn_spec Waiting
     [PeerHandshake (replicate 32 2) ''pixel'' [] None, Send (Ping 9), Ponged 3] = Some (Live None)"
proof -
  have "run_machine (new_machine demo_identity 20 None)
      [(Received (Handshake demo_handshake), 0, 0), (Tick 100, 0, 0), (Tick 120, 9, 0), (Received (Pong 9), 0, 123)]
    = Some ([PeerHandshake (replicate 32 2) ''pixel'' [] None, Send (Ping 9), Ponged 3],
        demo_ready\<lparr>last_ping_sent := Some 120, next_nonce := 1\<rparr>)"
    by (simp add: machine_step_def new_machine_def demo_handshake_def demo_ready_def protocol_version_def
        on_tick_def duration_since_def)
  from connection_refines_spec [OF this] show ?thesis
    by (simp add: conn_abs_def demo_ready_def new_machine_def)
qed

section \<open>Handshake and version\<close>

lemma ready_stays: "machine_step m i = Some (as, m') \<Longrightarrow> phase m = Ready \<Longrightarrow> phase m' = Ready"
  by (erule machine_step_cases) (auto simp: on_tick_def split: handler_splits)

text \<open>
  What is done with each message, in each phase. A handshake is believed exactly when it
  is the first and its version is ours: it then opens the connection and reports the peer's
  identity verbatim; another version yields the rejection naming both versions and leaves the
  machine waiting. Before that every other message is ignored without a trace; after it a
  second handshake is ignored, a ping is answered with its own nonce, a pong counts only when
  its nonce is the outstanding one, and clipboard content is passed on unchanged.
\<close>

theorem received_outcomes:
  "on_received m msg clock =
     (if phase m = Ready then
        (case msg of
           Handshake h \<Rightarrow> ([], m)
         | Ping n \<Rightarrow> ([Send (Pong n)], m)
         | Pong n \<Rightarrow>
             (if n \<in> fst ` set_option (pending_ping m)
              then ([Ponged (clock - snd (the (pending_ping m)))], m\<lparr>pending_ping := None\<rparr>)
              else ([], m))
         | Clipboard k \<Rightarrow> ([PeerClipboard k], m))
      else
        (case msg of
           Handshake h \<Rightarrow>
             (if hs_version h = 1
              then ([PeerHandshake (hs_device_id h) (hs_name h) (hs_capabilities h) (hs_pairing_token h)],
                    m\<lparr>phase := Ready\<rparr>)
              else ([Reject (VersionMismatch 1 (hs_version h))], m))
         | _ \<Rightarrow> ([], m)))"
  by (auto simp: protocol_version_def duration_since_def split: phase.splits message.splits option.splits)

section \<open>Panics\<close>

text \<open>
  C36. The only panic of the machine is the overflow of three keepalive intervals, and only
  on a tick while a ping is outstanding; with an interval of at most a third of
  \<open>Duration::MAX\<close> no input of any run panics.
\<close>

lemma handle_panic_iff:
  "handle m e n c = None \<longleftrightarrow>
     (\<exists>now. e = Tick now) \<and> phase m = Ready \<and> pending_ping m \<noteq> None \<and>
     duration_max < keepalive_interval m * 3"
  by (cases e) (auto simp: on_tick_def checked_mul_def pong_timeout_multiplier_def split: option.splits if_splits)

lemma machine_step_frame:
  "machine_step m i = Some (as, m') \<Longrightarrow>
     keepalive_interval m' = keepalive_interval m \<and> local_id m' = local_id m \<and>
     outgoing_pairing_token m' = outgoing_pairing_token m"
  by (erule machine_step_cases) (auto simp: on_tick_def split: handler_splits)

theorem no_panic:
  assumes "keepalive_interval m * 3 \<le> duration_max"
  shows "run_machine m inputs \<noteq> None"
  using assms
proof (induction inputs arbitrary: m)
  case Nil
  then show ?case by simp
next
  case (Cons i inputs)
  obtain e n c where i: "i = (e, n, c)" by (metis surj_pair)
  have "handle m e n c \<noteq> None"
    using Cons.prems by (auto simp: handle_panic_iff)
  then obtain as m' where st: "machine_step m i = Some (as, m')"
    by (auto simp: machine_step_def i)
  then have "run_machine m' inputs \<noteq> None"
    using Cons.IH Cons.prems machine_step_frame [OF st] by simp
  then show ?case by (auto simp: st)
qed

theorem no_panic_witness: "run_machine demo_ready [(Tick 1, 0, 0), (Tick 40, 7, 0), (Tick 200, 0, 0)] \<noteq> None"
  by (rule no_panic) (simp add: demo_ready_def new_machine_def duration_max_def)

section \<open>Keepalive timing\<close>

text \<open>
  No keepalive action without its reason. In every reachable machine state, a ping is
  sent only by a tick at least one interval after the previous ping (or the baseline) and
  with none outstanding, and it becomes the outstanding one; a \<open>Ponged\<close> answers the
  outstanding ping with exactly its nonce and reports the time since it was sent; and a
  timeout is declared only by a tick at least three intervals after the outstanding ping.
\<close>

theorem keepalive_actions_justified:
  assumes "machine_inv m" and "machine_step m (e, nonce, clock) = Some (as, m')"
  shows "(\<forall>n. Send (Ping n) \<in> set as \<longrightarrow>
            (\<exists>now prev. e = Tick now \<and> n = nonce \<and> pending_ping m = None \<and> last_ping_sent m = Some prev \<and>
               keepalive_interval m \<le> now - prev \<and> pending_ping m' = Some (n, now) \<and> last_ping_sent m' = Some now))
       \<and> (\<forall>d. Ponged d \<in> set as \<longrightarrow>
            (\<exists>n p. e = Received (Pong n) \<and> pending_ping m = Some (n, p) \<and> last_ping_sent m = Some p \<and>
               d = clock - p \<and> pending_ping m' = None))
       \<and> (KeepaliveTimedOut \<in> set as \<longrightarrow>
            (\<exists>now n p. e = Tick now \<and> pending_ping m = Some (n, p) \<and> last_ping_sent m = Some p \<and>
               3 * keepalive_interval m \<le> now - p \<and> pending_ping m' = None))"
proof (cases e)
  case (Received msg)
  with assms show ?thesis
    by (auto simp: machine_step_def machine_inv_def duration_since_def split: handler_splits)
next
  case (Tick now)
  with assms show ?thesis
    by (auto simp: machine_step_def machine_inv_def on_tick_def duration_since_def checked_mul_def
        pong_timeout_multiplier_def mult.commute split: handler_splits)
qed (use assms in \<open>auto simp: machine_step_def split: if_splits\<close>)

theorem keepalive_actions_justified_witness:
  "\<exists>now n p. Tick 90 = Tick now \<and> Some (7, 20) = Some (n :: u64, p) \<and> 3 * 20 \<le> now - (p :: nat)"
proof -
  let ?m = "demo_ready\<lparr>last_ping_sent := Some 20, pending_ping := Some (7, 20)\<rparr>"
  have "machine_inv ?m"
    by (simp add: machine_inv_def demo_ready_def new_machine_def)
  moreover have "machine_step ?m (Tick 90, 0, 0) = Some ([KeepaliveTimedOut], ?m\<lparr>pending_ping := None\<rparr>)"
    by (simp add: machine_step_def on_tick_def demo_ready_def new_machine_def checked_mul_def duration_max_def
        pong_timeout_multiplier_def duration_since_def)
  ultimately show ?thesis
    using keepalive_actions_justified [of ?m "Tick 90" 0 0 "[KeepaliveTimedOut]" "?m\<lparr>pending_ping := None\<rparr>"]
    by (simp add: demo_ready_def new_machine_def)
qed

text \<open>Ticks of the driving task: each carries a nonce and a clock the machine may read.\<close>

definition tick_inputs :: "(instant \<times> u64 \<times> instant) list \<Rightarrow> input list" where
  "tick_inputs ticks = map (\<lambda>(t, n, c). (Tick t, n, c)) ticks"

fun gaps_within :: "duration \<Rightarrow> instant \<Rightarrow> instant list \<Rightarrow> bool" where
  "gaps_within d t0 [] = True"
| "gaps_within d t0 (t # ts) = (t0 \<le> t \<and> t \<le> t0 + d \<and> gaps_within d t ts)"

lemma tick_ready_pending:
  assumes "phase m = Ready" and "pending_ping m = Some (n, p)" and "keepalive_interval m * 3 \<le> duration_max"
  shows "machine_step m (Tick t, r, c) =
    Some (if keepalive_interval m * 3 \<le> t - p then ([KeepaliveTimedOut], m\<lparr>pending_ping := None\<rparr>) else ([], m))"
  using assms
  by (simp add: machine_step_def on_tick_def checked_mul_def pong_timeout_multiplier_def duration_since_def)

lemma tick_ready_idle:
  assumes "phase m = Ready" and "pending_ping m = None" and "last_ping_sent m = Some l"
  shows "machine_step m (Tick t, r, c) =
    Some (if keepalive_interval m \<le> t - l
      then ([Send (Ping r)], m\<lparr>next_nonce := next_nonce m + 1, last_ping_sent := Some t, pending_ping := Some (r, t)\<rparr>)
      else ([], m))"
  using assms by (simp add: machine_step_def on_tick_def duration_since_def)

definition times_out :: "machine \<Rightarrow> input list \<Rightarrow> bool" where
  "times_out m is \<longleftrightarrow> (\<exists>as m'. run_machine m is = Some (as, m') \<and> KeepaliveTimedOut \<in> set as)"

lemma times_out_Cons:
  assumes "machine_step m i = Some (as, m')" and "keepalive_interval m * 3 \<le> duration_max"
  shows "times_out m (i # is) \<longleftrightarrow> KeepaliveTimedOut \<in> set as \<or> times_out m' is"
proof -
  have "run_machine m' is \<noteq> None"
    using no_panic machine_step_frame [OF assms(1)] assms(2) by simp
  with assms(1) show ?thesis by (auto simp: times_out_def)
qed

lemma tick_inputs_Cons: "tick_inputs ((t, r, c) # ticks) = (Tick t, r, c) # tick_inputs ticks"
  by (simp add: tick_inputs_def)

lemma pending_ping_times_out:
  assumes "phase m = Ready" and "pending_ping m = Some (n, p)" and "keepalive_interval m * 3 \<le> duration_max"
    and "\<exists>t \<in> fst ` set ticks. keepalive_interval m * 3 \<le> t - p"
  shows "times_out m (tick_inputs ticks)"
  using assms(4)
proof (induction ticks)
  case Nil
  then show ?case by simp
next
  case (Cons x ticks)
  obtain t r c where x: "x = (t, r, c)" by (metis surj_pair)
  show ?case
  proof (cases "keepalive_interval m * 3 \<le> t - p")
    case True
    then show ?thesis
      using times_out_Cons [OF _ assms(3)] tick_ready_pending [OF assms(1-3), of t r c]
      by (simp add: x tick_inputs_Cons)
  next
    case False
    with Cons.prems have "\<exists>t \<in> fst ` set ticks. keepalive_interval m * 3 \<le> t - p"
      by (auto simp: x)
    from Cons.IH [OF this] False show ?thesis
      using times_out_Cons [OF _ assms(3)] tick_ready_pending [OF assms(1-3), of t r c]
      by (simp add: x tick_inputs_Cons)
  qed
qed

lemma silence_detected:
  assumes "phase m = Ready" and "pending_ping m = None" and "last_ping_sent m = Some l"
    and "keepalive_interval m * 3 \<le> duration_max"
    and "gaps_within d t0 (map fst ticks)" and "t0 \<le> l + keepalive_interval m"
    and "t \<in> fst ` set ticks" and "l + 4 * keepalive_interval m + d < t"
  shows "times_out m (tick_inputs ticks)"
  using assms(5-7)
proof (induction ticks arbitrary: t0)
  case Nil
  then show ?case by simp
next
  case (Cons x ticks)
  obtain u r c where x: "x = (u, r, c)" by (metis surj_pair)
  let ?k = "keepalive_interval m"
  let ?m' = "m\<lparr>next_nonce := next_nonce m + 1, last_ping_sent := Some u, pending_ping := Some (r, u)\<rparr>"
  note step = tick_ready_idle [OF assms(1-3), of u r c]
  have u: "u \<le> l + ?k + d"
    using Cons.prems by (simp add: x)
  then have later: "t \<in> fst ` set ticks"
    using Cons.prems(3) assms(8) by (auto simp: x)
  show ?case
  proof (cases "?k \<le> u - l")
    case True
    have "?k * 3 \<le> t - u"
      using u assms(8) by linarith
    then have "times_out ?m' (tick_inputs ticks)"
      using later assms(1,4) by (intro pending_ping_times_out [of _ r u]) auto
    with step True show ?thesis
      using times_out_Cons [OF _ assms(4)] by (simp add: x tick_inputs_Cons)
  next
    case False
    then have "u \<le> l + ?k" by linarith
    moreover have "gaps_within d u (map fst ticks)"
      using Cons.prems(1) by (simp add: x)
    ultimately have "times_out m (tick_inputs ticks)"
      using Cons.IH later by blast
    with step False show ?thesis
      using times_out_Cons [OF _ assms(4)] by (simp add: x tick_inputs_Cons)
  qed
qed

text \<open>
  C35. A dead peer is noticed. From a ready machine whose last ping was answered, if ticks
  keep coming with gaps of at most \<open>d\<close> and nothing arrives from the peer, the machine reports
  the timeout before any tick later than four intervals plus \<open>d\<close> after the last ping has
  passed: one interval until the next ping, three more for its pong, and one tick of
  granularity.
\<close>

theorem keepalive_detects_silence:
  assumes "phase m = Ready" and "pending_ping m = None" and "last_ping_sent m = Some l"
    and "keepalive_interval m * 3 \<le> duration_max"
    and "gaps_within d l (map fst ticks)"
    and "t \<in> fst ` set ticks" and "l + 4 * keepalive_interval m + d < t"
  shows "\<exists>as m'. run_machine m (tick_inputs ticks) = Some (as, m') \<and> KeepaliveTimedOut \<in> set as"
  using silence_detected [of m l d l ticks t] assms by (simp add: times_out_def)

theorem keepalive_detects_silence_witness:
  "\<exists>as m'. run_machine (demo_ready\<lparr>last_ping_sent := Some 0\<rparr>)
     (tick_inputs [(15, 1, 0), (30, 2, 0), (45, 3, 0), (60, 4, 0), (75, 5, 0), (90, 6, 0), (105, 7, 0)]) = Some (as, m')
     \<and> KeepaliveTimedOut \<in> set as"
  by (rule keepalive_detects_silence [of _ 0 15 _ 105])
    (simp_all add: demo_ready_def new_machine_def duration_max_def)

end
