(* ===== verification/Pairing_Token.thy ===== *)
theory Pairing_Token
  imports Message Rust_Time
begin

text \<open>
  The single-use token of \<open>crates/protocol/src/pairing.rs\<close>. Randomness and the clock are
  arguments, as in the source.
\<close>

definition token_ttl :: duration where
  "token_ttl = from_secs 60"

record pairing_token =
  bytes :: token_bytes
  issued_at :: instant
  redeemed :: bool

datatype redeem_error = Mismatch | AlreadyRedeemed | Expired

definition issue :: "token_bytes \<Rightarrow> instant \<Rightarrow> pairing_token" where
  "issue random now = \<lparr>bytes = random, issued_at = now, redeemed = False\<rparr>"

definition is_expired :: "pairing_token \<Rightarrow> instant \<Rightarrow> bool" where
  "is_expired t now \<longleftrightarrow> token_ttl \<le> duration_since now (issued_at t)"

definition redeem :: "pairing_token \<Rightarrow> token_bytes \<Rightarrow> instant \<Rightarrow> (redeem_error + unit) \<times> pairing_token" where
  "redeem t presented now =
     (if redeemed t then (Inl AlreadyRedeemed, t)
      else if is_expired t now then (Inl Expired, t)
      else if presented \<noteq> bytes t then (Inl Mismatch, t)
      else (Inr (), t\<lparr>redeemed := True\<rparr>))"

lemma redeem_Inr_iff:
  "redeem t p now = (Inr u, t') \<longleftrightarrow>
     \<not> redeemed t \<and> duration_since now (issued_at t) < token_ttl \<and> p = bytes t \<and> t' = t\<lparr>redeemed := True\<rparr>"
  by (auto simp: redeem_def is_expired_def)

lemma redeem_Inl_same: "redeem t p now = (Inl e, t') \<Longrightarrow> t' = t"
  by (auto simp: redeem_def split: if_splits)

lemma redeem_frame: "redeem t p now = (r, t') \<Longrightarrow> bytes t' = bytes t \<and> issued_at t' = issued_at t"
  by (auto simp: redeem_def split: if_splits)

section \<open>Any sequence of attempts\<close>

text \<open>One attempt as a step: what is presented, when, and whether it succeeded.\<close>

type_synonym attempt = "token_bytes \<times> instant"

definition redeem_step :: "pairing_token \<Rightarrow> attempt \<Rightarrow> (attempt \<times> bool) list \<times> pairing_token" where
  "redeem_step t a = (case redeem t (fst a) (snd a) of (r, t') \<Rightarrow> ([(a, r = Inr ())], t'))"

text \<open>
  The abstract token is the option of the bytes still redeemable; a success uses it up.
\<close>

definition token_view :: "pairing_token \<Rightarrow> (token_bytes \<times> instant) option" where
  "token_view t = (if redeemed t then None else Some (bytes t, issued_at t))"

fun token_spec ::
  "(token_bytes \<times> instant) option \<Rightarrow> attempt \<times> bool \<Rightarrow> (token_bytes \<times> instant) option option" where
  "token_spec None (a, ok) = (if ok then None else Some None)"
| "token_spec (Some (b, at)) ((p, now), ok) =
     (let live = (p = b \<and> now - at < from_secs 60)
      in if ok then (if live then Some None else None)
         else (if live then None else Some (Some (b, at))))"

lemma redeem_step_refines:
  "total_step redeem_step t a = Some (os, t') \<Longrightarrow>
     spec_run token_spec (token_view t) os = Some (token_view t')"
  by (cases a) (auto simp: redeem_step_def redeem_def token_view_def is_expired_def
      duration_since_def token_ttl_def not_le split: prod.splits if_splits)

interpretation token: refining_machine "total_step redeem_step" "\<lambda>_. True" token_view token_spec
  by unfold_locales (simp_all add: redeem_step_refines del: total_step_Some)

text \<open>What the specification says of a whole run: successes are rare and justified.\<close>

definition successes :: "(attempt \<times> bool) list \<Rightarrow> attempt list" where
  "successes xs = map fst (filter snd xs)"

lemma token_spec_used_up: "spec_run token_spec None xs = Some v \<Longrightarrow> successes xs = []"
  by (induction xs) (auto simp: successes_def split: option.splits if_splits)

lemma token_spec_successes:
  "spec_run token_spec (Some (b, at)) xs = Some v \<Longrightarrow>
     successes xs = [] \<or> (\<exists>now. successes xs = [(b, now)] \<and> now - at < from_secs 60)"
proof (induction xs)
  case Nil
  then show ?case by (simp add: successes_def)
next
  case (Cons x xs)
  obtain p now ok where x: "x = ((p, now), ok)"
    by (metis surj_pair)
  show ?case
  proof (cases ok)
    case True
    with Cons.prems x have "p = b" and "now - at < from_secs 60" and "spec_run token_spec None xs = Some v"
      by (auto simp: Let_def split: if_splits)
    with True x show ?thesis
      using token_spec_used_up [of xs v] by (auto simp: successes_def)
  next
    case False
    with Cons.prems x have "spec_run token_spec (Some (b, at)) xs = Some v"
      by (auto simp: Let_def split: if_splits)
    then have "successes xs = [] \<or> (\<exists>now. successes xs = [(b, now)] \<and> now - at < from_secs 60)"
      by (rule Cons.IH)
    with False x show ?thesis by (simp add: successes_def)
  qed
qed

text \<open>
  C20. A pairing token is single-use. However many attempts are made on a freshly issued
  token, with any bytes and in any order of times, at most one succeeds; the one that does
  presented exactly the issued bytes, less than sixty seconds after issuance.
\<close>

theorem token_single_use:
  assumes "run_steps (total_step redeem_step) (issue random now0) attempts = Some (log, t')"
  shows "successes log = [] \<or> (\<exists>now. successes log = [(random, now)] \<and> now - now0 < from_secs 60)"
proof -
  have "spec_run token_spec (token_view (issue random now0)) log = Some (token_view t')"
    using token.run_refines [OF TrueI assms] .
  then show ?thesis
    using token_spec_successes by (simp add: token_view_def issue_def)
qed

theorem token_single_use_witness:
  "successes [(([2], 5), False), (([1], 6), True), (([1], 7), False)] = [([1], 6)]"
proof -
  have "run_steps (total_step redeem_step) (issue [1] 5) [([2], 5), ([1], 6), ([1], 7)]
      = Some ([(([2], 5), False), (([1], 6), True), (([1], 7), False)],
          \<lparr>bytes = [1], issued_at = 5, redeemed = True\<rparr>)"
    by (simp add: total_step_def redeem_step_def redeem_def issue_def is_expired_def duration_since_def
        token_ttl_def from_secs_def)
  from token_single_use [OF this] show ?thesis
    by (simp add: successes_def)
qed

end
