(* ===== verification/Rust_Net.thy ===== *)
theory Rust_Net
  imports Rust_Text
begin

text \<open>
  The parts of \<open>std::net\<close> the sources use: socket addresses, their \<open>Display\<close> text and their
  \<open>FromStr\<close> parser. A reader takes the text left to read and returns the value with the text
  after it, or \<open>None\<close>; the parser's \<open>read_atomically\<close> is that a failed reader consumes
  nothing.
\<close>

section \<open>Addresses\<close>

text \<open>An IPv6 address is its eight 16-bit segments.\<close>

datatype ip_addr = IpV4 u8 u8 u8 u8 | IpV6 "u16 list"

datatype socket_addr =
    SocketV4 u8 u8 u8 u8 u16
  | SocketV6 "u16 list" u16 (flowinfo: u32) (scope_id: u32)

fun addr_ip :: "socket_addr \<Rightarrow> ip_addr" where
  "addr_ip (SocketV4 a b c d p) = IpV4 a b c d"
| "addr_ip (SocketV6 segs p f sc) = IpV6 segs"

fun addr_port :: "socket_addr \<Rightarrow> u16" where
  "addr_port (SocketV4 a b c d p) = p"
| "addr_port (SocketV6 segs p f sc) = p"

text \<open>\<open>SocketAddr::new\<close>.\<close>

fun socket_new :: "ip_addr \<Rightarrow> u16 \<Rightarrow> socket_addr" where
  "socket_new (IpV4 a b c d) p = SocketV4 a b c d p"
| "socket_new (IpV6 segs) p = SocketV6 segs p 0 0"

fun is_unspecified :: "ip_addr \<Rightarrow> bool" where
  "is_unspecified (IpV4 a b c d) = (a = 0 \<and> b = 0 \<and> c = 0 \<and> d = 0)"
| "is_unspecified (IpV6 segs) = (\<forall>x \<in> set segs. x = 0)"

section \<open>Display\<close>

definition show_ipv4 :: "u8 \<Rightarrow> u8 \<Rightarrow> u8 \<Rightarrow> u8 \<Rightarrow> string" where
  "show_ipv4 a b c d =
     show_nat (unat a) @ ''.'' @ show_nat (unat b) @ ''.'' @ show_nat (unat c) @ ''.'' @ show_nat (unat d)"

fun show_hex :: "nat \<Rightarrow> string" where
  "show_hex n = (if n < 16 then [digit_char n] else show_hex (n div 16) @ [digit_char (n mod 16)])"

declare show_hex.simps [simp del]

definition show_groups :: "u16 list \<Rightarrow> string" where
  "show_groups segs = join_with '':'' (map (\<lambda>x. show_hex (unat x)) segs)"

text \<open>
  The longest run of zero segments, the first of that length: (start, length). The loop
  carries the current run as (start, length) too.
\<close>

fun zero_run :: "nat \<Rightarrow> nat \<times> nat \<Rightarrow> nat \<times> nat \<Rightarrow> u16 list \<Rightarrow> nat \<times> nat" where
  "zero_run i longest cur [] = longest"
| "zero_run i longest cur (x # xs) =
     (if x = 0 then
        (let cur' = (if snd cur = 0 then i else fst cur, snd cur + 1)
         in zero_run (Suc i) (if snd longest < snd cur' then cur' else longest) cur' xs)
      else zero_run (Suc i) longest (0, 0) xs)"

definition ipv4_mapped :: "u16 list \<Rightarrow> bool" where
  "ipv4_mapped segs \<longleftrightarrow> length segs = 8 \<and> take 6 segs = [0, 0, 0, 0, 0, -1]"

definition octets :: "u16 \<Rightarrow> u8 \<times> u8" where
  "octets x = (of_nat (unat x div 256), of_nat (unat x mod 256))"

definition show_ipv6 :: "u16 list \<Rightarrow> string" where
  "show_ipv6 segs =
     (if ipv4_mapped segs then
        (case (octets (segs ! 6), octets (segs ! 7)) of
           ((a, b), (c, d)) \<Rightarrow> ''::ffff:'' @ show_ipv4 a b c d)
      else
        (case zero_run 0 (0, 0) (0, 0) segs of
           (start, len) \<Rightarrow>
             if 1 < len
             then show_groups (take start segs) @ ''::'' @ show_groups (drop (start + len) segs)
             else show_groups segs))"

fun show_socket :: "socket_addr \<Rightarrow> string" where
  "show_socket (SocketV4 a b c d p) = show_ipv4 a b c d @ '':'' @ show_nat (unat p)"
| "show_socket (SocketV6 segs p f sc) =
     (if sc = 0 then ''['' @ show_ipv6 segs @ '']:'' @ show_nat (unat p)
      else ''['' @ show_ipv6 segs @ ''%'' @ show_nat (unat sc) @ '']:'' @ show_nat (unat p))"

section \<open>The parser\<close>

fun read_char :: "char \<Rightarrow> string \<Rightarrow> string option" where
  "read_char c [] = None"
| "read_char c (x # xs) = (if x = c then Some xs else None)"

definition read_number ::
  "(char \<Rightarrow> nat option) \<Rightarrow> nat \<Rightarrow> nat option \<Rightarrow> bool \<Rightarrow> nat \<Rightarrow> string \<Rightarrow> (nat \<times> string) option" where
  "read_number dig r max_digits zero_prefix lim s =
     (let ds = takeWhile (\<lambda>c. dig c \<noteq> None) s; rest = dropWhile (\<lambda>c. dig c \<noteq> None) s
      in if ds = [] then None
         else if (case max_digits of None \<Rightarrow> False | Some k \<Rightarrow> k < length ds) then None
         else if \<not> zero_prefix \<and> hd ds = CHR ''0'' \<and> 1 < length ds then None
         else map_option (\<lambda>v. (v, rest)) (digits dig r lim 0 ds))"

definition read_octet :: "string \<Rightarrow> (u8 \<times> string) option" where
  "read_octet s = map_option (\<lambda>(v, r). (of_nat v, r)) (read_number dec_value 10 (Some 3) False 256 s)"

definition read_dot_octet :: "string \<Rightarrow> (u8 \<times> string) option" where
  "read_dot_octet s = Option.bind (read_char CHR ''.'' s) read_octet"

definition read_ipv4 :: "string \<Rightarrow> ((u8 \<times> u8 \<times> u8 \<times> u8) \<times> string) option" where
  "read_ipv4 s =
     (case read_octet s of None \<Rightarrow> None | Some (a, s1) \<Rightarrow>
     (case read_dot_octet s1 of None \<Rightarrow> None | Some (b, s2) \<Rightarrow>
     (case read_dot_octet s2 of None \<Rightarrow> None | Some (c, s3) \<Rightarrow>
     (case read_dot_octet s3 of None \<Rightarrow> None | Some (d, s4) \<Rightarrow> Some ((a, b, c, d), s4)))))"

text \<open>\<open>read_separator(':', i, ...)\<close>: from index 1 on, the separator must come first.\<close>

definition separated :: "nat \<Rightarrow> (string \<Rightarrow> ('a \<times> string) option) \<Rightarrow> string \<Rightarrow> ('a \<times> string) option" where
  "separated i rd s = (if 0 < i then Option.bind (read_char CHR '':'' s) rd else rd s)"

definition read_segment :: "string \<Rightarrow> (u16 \<times> string) option" where
  "read_segment s = map_option (\<lambda>(v, r). (of_nat v, r)) (read_number hex_value 16 (Some 4) True 65536 s)"

text \<open>
  \<open>read_groups\<close> with \<open>n\<close> slots left from index \<open>i\<close>: the segments read, whether an embedded IPv4
  address ended them, and the text left.
\<close>

fun read_groups :: "nat \<Rightarrow> nat \<Rightarrow> string \<Rightarrow> u16 list \<times> bool \<times> string" where
  "read_groups i 0 s = ([], False, s)"
| "read_groups i (Suc n) s =
     (case (if 0 < n then separated i read_ipv4 s else None) of
        Some ((a, b, c, d), s') \<Rightarrow>
          ([of_nat (unat a * 256 + unat b), of_nat (unat c * 256 + unat d)], True, s')
      | None \<Rightarrow>
          (case separated i read_segment s of
             None \<Rightarrow> ([], False, s)
           | Some (x, s') \<Rightarrow>
               (case read_groups (Suc i) n s' of (xs, v4, s'') \<Rightarrow> (x # xs, v4, s''))))"

definition read_ipv6 :: "string \<Rightarrow> (u16 list \<times> string) option" where
  "read_ipv6 s =
     (case read_groups 0 8 s of
        (hd_segs, v4, s1) \<Rightarrow>
          if length hd_segs = 8 then Some (hd_segs, s1)
          else if v4 then None
          else case Option.bind (read_char CHR '':'' s1) (read_char CHR '':'') of
            None \<Rightarrow> None
          | Some s2 \<Rightarrow>
              (case read_groups 0 (8 - (length hd_segs + 1)) s2 of
                 (tl_segs, _, s3) \<Rightarrow>
                   Some (hd_segs @ replicate (8 - (length hd_segs + length tl_segs)) 0 @ tl_segs, s3)))"

definition read_port :: "string \<Rightarrow> (u16 \<times> string) option" where
  "read_port s =
     Option.bind (read_char CHR '':'' s)
       (\<lambda>r. map_option (\<lambda>(v, t). (of_nat v, t)) (read_number dec_value 10 None True 65536 r))"

definition read_socket_v4 :: "string \<Rightarrow> (socket_addr \<times> string) option" where
  "read_socket_v4 s =
     (case read_ipv4 s of None \<Rightarrow> None | Some ((a, b, c, d), s1) \<Rightarrow>
     (case read_port s1 of None \<Rightarrow> None | Some (p, s2) \<Rightarrow> Some (SocketV4 a b c d p, s2)))"

definition read_scope_id :: "string \<Rightarrow> (u32 \<times> string) option" where
  "read_scope_id s =
     Option.bind (read_char CHR ''%'' s)
       (\<lambda>r. map_option (\<lambda>(v, t). (of_nat v, t)) (read_number dec_value 10 None True (2 ^ 32) r))"

definition read_socket_v6 :: "string \<Rightarrow> (socket_addr \<times> string) option" where
  "read_socket_v6 s =
     (case read_char CHR ''['' s of None \<Rightarrow> None | Some s1 \<Rightarrow>
     (case read_ipv6 s1 of None \<Rightarrow> None | Some (segs, s2) \<Rightarrow>
     (case (case read_scope_id s2 of None \<Rightarrow> (0, s2) | Some r \<Rightarrow> r) of (sc, s3) \<Rightarrow>
     (case read_char CHR '']'' s3 of None \<Rightarrow> None | Some s4 \<Rightarrow>
     (case read_port s4 of None \<Rightarrow> None | Some (p, s5) \<Rightarrow> Some (SocketV6 segs p 0 sc, s5))))))"

definition parse_socket :: "string \<Rightarrow> socket_addr option" where
  "parse_socket s =
     (case (case read_socket_v4 s of Some r \<Rightarrow> Some r | None \<Rightarrow> read_socket_v6 s) of
        Some (a, []) \<Rightarrow> Some a
      | _ \<Rightarrow> None)"

section \<open>Round trips\<close>

definition ends_number :: "(char \<Rightarrow> nat option) \<Rightarrow> string \<Rightarrow> bool" where
  "ends_number dig s \<longleftrightarrow> s = [] \<or> dig (hd s) = None"

lemma takeWhile_dropWhile_append:
  assumes "\<forall>c \<in> set ds. P c" and "rest = [] \<or> \<not> P (hd rest)"
  shows "takeWhile P (ds @ rest) = ds \<and> dropWhile P (ds @ rest) = rest"
  using assms by (induction ds) (auto, (cases rest; simp)+)

lemma digit_char_0: "digit_char 0 = CHR ''0''"
  by code_simp

lemma digit_char_0_iff: "n < 10 \<Longrightarrow> digit_char n = CHR ''0'' \<longleftrightarrow> n = 0"
proof
  assume "n < 10" and "digit_char n = CHR ''0''"
  then have "dec_value (CHR ''0'') = Some n"
    using dec_value_digit_char [of n] by simp
  then show "n = 0" by (simp add: dec_value_def)
qed (simp add: digit_char_0)

lemma hd_show_nat_0: "hd (show_nat n) = CHR ''0'' \<Longrightarrow> n = 0"
proof (induction n rule: show_nat.induct)
  case (1 n)
  show ?case
  proof (cases "n < 10")
    case True
    with "1.prems" show ?thesis by (simp add: show_nat.simps [of n] digit_char_0_iff)
  next
    case False
    with "1.prems" have "hd (show_nat (n div 10)) = CHR ''0''"
      by (simp add: show_nat.simps [of n])
    with False "1.IH" show ?thesis by auto
  qed
qed

lemma length_show_nat_le: "n < 1000 \<Longrightarrow> length (show_nat n) \<le> 3"
  by (simp add: show_nat.simps [of n] show_nat.simps [of "n div 10"] show_nat.simps [of "n div 10 div 10"])

lemma read_number_show_nat:
  assumes "n < lim" and "ends_number dec_value rest"
    and "case k of None \<Rightarrow> True | Some j \<Rightarrow> length (show_nat n) \<le> j"
  shows "read_number dec_value 10 k z lim (show_nat n @ rest) = Some (n, rest)"
proof -
  have "\<forall>c \<in> set (show_nat n). dec_value c \<noteq> None"
    using set_show_nat by force
  then have split: "takeWhile (\<lambda>c. dec_value c \<noteq> None) (show_nat n @ rest) = show_nat n"
    "dropWhile (\<lambda>c. dec_value c \<noteq> None) (show_nat n @ rest) = rest"
    using takeWhile_dropWhile_append [of "show_nat n" "\<lambda>c. dec_value c \<noteq> None" rest] assms(2)
    by (auto simp: ends_number_def)
  have "\<not> (hd (show_nat n) = CHR ''0'' \<and> 1 < length (show_nat n))"
    using hd_show_nat_0 [of n] by (auto simp: show_nat.simps [of 0])
  then show ?thesis
    unfolding read_number_def Let_def split
    using assms(1,3) by (auto simp: digits_show_nat split: option.splits)
qed

lemma read_octet_show [simp]: "ends_number dec_value rest \<Longrightarrow> read_octet (show_nat (unat a) @ rest) = Some (a, rest)"
  using unat_u8_less [of a]
  by (simp add: read_octet_def read_number_show_nat length_show_nat_le)

lemma ends_number_dec [simp]: "ends_number dec_value (CHR ''.'' # s)" "ends_number dec_value (CHR '':'' # s)"
  "ends_number dec_value []" "ends_number dec_value (CHR '']'' # s)"
  by (simp_all add: ends_number_def dec_value_def)

lemma read_ipv4_show: "ends_number dec_value rest \<Longrightarrow> read_ipv4 (show_ipv4 a b c d @ rest) = Some ((a, b, c, d), rest)"
  by (simp add: read_ipv4_def show_ipv4_def read_dot_octet_def)

lemma read_port_show: "ends_number dec_value rest \<Longrightarrow> read_port (CHR '':'' # show_nat (unat p) @ rest) = Some (p, rest)"
proof -
  assume "ends_number dec_value rest"
  moreover have "unat p < 2 ^ LENGTH(16)"
    by (rule unsigned_less)
  ultimately show ?thesis
    by (simp add: read_port_def read_number_show_nat)
qed

lemma parse_show_socket_v4: "parse_socket (show_socket (SocketV4 a b c d p)) = Some (SocketV4 a b c d p)"
proof -
  have "read_socket_v4 (show_ipv4 a b c d @ CHR '':'' # show_nat (unat p) @ []) = Some (SocketV4 a b c d p, [])"
    unfolding read_socket_v4_def
    by (simp add: read_ipv4_show read_port_show [of "[]", simplified])
  then show ?thesis by (simp add: parse_socket_def)
qed

subsection \<open>IPv6\<close>

lemma set_show_hex: "c \<in> set (show_hex n) \<Longrightarrow> \<exists>d < 16. c = digit_char d"
proof (induction n rule: show_hex.induct)
  case (1 n)
  show ?case
  proof (cases "n < 16")
    case True
    with "1.prems" show ?thesis by (auto simp: show_hex.simps [of n])
  next
    case False
    with "1.prems" have "c \<in> set (show_hex (n div 16)) \<or> c = digit_char (n mod 16)"
      by (auto simp: show_hex.simps [of n])
    moreover have "n mod 16 < 16" by simp
    ultimately show ?thesis using False "1.IH" by blast
  qed
qed

lemma show_hex_not_Nil [simp]: "show_hex n \<noteq> []"
  by (subst show_hex.simps) simp

lemma digits_show_hex: "n < lim \<Longrightarrow> digits hex_value 16 lim 0 (show_hex n) = Some n"
proof (induction n rule: show_hex.induct)
  case (1 n)
  show ?case
  proof (cases "n < 16")
    case True
    with "1.prems" show ?thesis by (simp add: show_hex.simps [of n])
  next
    case False
    then have "digits hex_value 16 lim 0 (show_hex (n div 16)) = Some (n div 16)"
      using "1.IH" "1.prems" by simp
    moreover have "n div 16 * 16 + n mod 16 = n"
      by simp
    ultimately show ?thesis
      using False "1.prems" by (simp add: show_hex.simps [of n] digits_append)
  qed
qed

lemma length_show_hex_le: "n < 65536 \<Longrightarrow> length (show_hex n) \<le> 4"
  by (simp add: show_hex.simps [of n] show_hex.simps [of "n div 16"] show_hex.simps [of "n div 16 div 16"]
      show_hex.simps [of "n div 16 div 16 div 16"])

lemma unat_u16_less: "unat (x :: u16) < 65536"
proof -
  have "unat x < 2 ^ LENGTH(16)"
    by (rule unsigned_less)
  then show ?thesis by simp
qed

lemma read_segment_show:
  assumes "ends_number hex_value rest"
  shows "read_segment (show_hex (unat x) @ rest) = Some (x, rest)"
proof -
  let ?ds = "show_hex (unat x)"
  have "\<forall>c \<in> set ?ds. hex_value c \<noteq> None"
    using set_show_hex by force
  then have split: "takeWhile (\<lambda>c. hex_value c \<noteq> None) (?ds @ rest) = ?ds"
    "dropWhile (\<lambda>c. hex_value c \<noteq> None) (?ds @ rest) = rest"
    using takeWhile_dropWhile_append [of ?ds "\<lambda>c. hex_value c \<noteq> None" rest] assms
    by (auto simp: ends_number_def)
  show ?thesis
    unfolding read_segment_def read_number_def Let_def split
    using length_show_hex_le [OF unat_u16_less] unat_u16_less [of x]
    by (auto simp: digits_show_hex not_less)
qed

lemma ends_number_hex [simp]: "ends_number hex_value (CHR '':'' # s)" "ends_number hex_value (CHR '']'' # s)"
  "ends_number hex_value (CHR ''%'' # s)"
  by (simp_all add: ends_number_def hex_value_def)

lemma read_number_None: "s = [] \<or> dig (hd s) = None \<Longrightarrow> read_number dig r k z lim s = None"
  by (cases s) (auto simp: read_number_def)

lemma read_number_rest: "read_number dig r k z lim s = Some (v, rest) \<Longrightarrow> set rest \<subseteq> set s"
  by (auto simp: read_number_def Let_def dest: set_dropWhileD split: if_splits)

lemma read_ipv4_needs_dot: "CHR ''.'' \<notin> set s \<Longrightarrow> read_ipv4 s = None"
proof -
  assume dot: "CHR ''.'' \<notin> set s"
  have "read_dot_octet s1 = None" if "read_octet s = Some (a, s1)" for a s1
  proof -
    have "set s1 \<subseteq> set s"
      using that by (auto simp: read_octet_def dest: read_number_rest)
    with dot have "read_char CHR ''.'' s1 = None"
      by (cases s1) auto
    then show ?thesis by (simp add: read_dot_octet_def)
  qed
  then show ?thesis
    by (auto simp: read_ipv4_def split: option.splits)
qed

lemma separated_ipv4_needs_dot: "CHR ''.'' \<notin> set s \<Longrightarrow> separated i read_ipv4 s = None"
  by (cases s) (auto simp: separated_def read_ipv4_needs_dot)

lemma separated_0: "separated 0 rd s = rd s"
  by (simp add: separated_def)

lemma separated_pos: "0 < i \<Longrightarrow> separated i rd s = separated 1 rd s"
  by (simp add: separated_def)

definition colon_groups :: "u16 list \<Rightarrow> string" where
  "colon_groups xs = concat (map (\<lambda>x. CHR '':'' # show_hex (unat x)) xs)"

lemma colon_groups_Nil [simp]: "colon_groups [] = []"
  by (simp add: colon_groups_def)

lemma show_groups_Cons: "show_groups (x # xs) = show_hex (unat x) @ colon_groups xs"
  by (induction xs arbitrary: x) (simp_all add: show_groups_def colon_groups_def)

lemma no_dot_show_hex: "CHR ''.'' \<notin> set (show_hex n)"
proof
  assume "CHR ''.'' \<in> set (show_hex n)"
  then obtain d where "d < 16" and "CHR ''.'' = digit_char d"
    using set_show_hex by blast
  then have "hex_value CHR ''.'' = Some d"
    using hex_value_digit_char by metis
  then show False by (simp add: hex_value_def)
qed

lemma no_dot_colon_groups: "CHR ''.'' \<notin> set (colon_groups xs)"
  by (auto simp: colon_groups_def no_dot_show_hex)

lemma ends_hex_colon_groups: "ends_number hex_value rest \<Longrightarrow> ends_number hex_value (colon_groups xs @ rest)"
  by (cases xs) (simp_all add: colon_groups_def)

lemma read_colon_groups:
  assumes "ends_number hex_value rest" and "CHR ''.'' \<notin> set rest"
  shows "0 < i \<Longrightarrow> length xs \<le> n \<Longrightarrow> length xs = n \<or> separated 1 read_segment rest = None \<Longrightarrow>
    read_groups i n (colon_groups xs @ rest) = (xs, False, rest)"
proof (induction xs arbitrary: i n)
  case Nil
  then have "n = 0 \<or> separated i read_segment rest = None"
    by (simp add: separated_pos [of i])
  moreover have "separated i read_ipv4 rest = None"
    using assms(2) by (rule separated_ipv4_needs_dot)
  ultimately show ?case
    by (cases n) (auto simp: colon_groups_def)
next
  case (Cons x xs)
  then obtain n' where n: "n = Suc n'" by (cases n) auto
  let ?rest = "colon_groups xs @ rest"
  have text_eq: "colon_groups (x # xs) @ rest = CHR '':'' # show_hex (unat x) @ ?rest"
    by (simp add: colon_groups_def)
  have "separated i read_ipv4 (colon_groups (x # xs) @ rest) = None"
    using assms(2) no_dot_colon_groups by (intro separated_ipv4_needs_dot) auto
  moreover have "separated i read_segment (colon_groups (x # xs) @ rest) = Some (x, ?rest)"
    using Cons.prems(1) assms(1) unfolding text_eq
    by (simp add: separated_def read_segment_show ends_hex_colon_groups)
  moreover have "read_groups (Suc i) n' ?rest = (xs, False, rest)"
    using Cons n by simp
  ultimately show ?case by (cases n') (simp_all add: n)
qed

lemma read_groups_show:
  assumes "ends_number hex_value rest" and "CHR ''.'' \<notin> set rest"
    and "length xs \<le> n" and "length xs = n \<or> separated 1 read_segment rest = None"
    and "xs = [] \<Longrightarrow> read_segment rest = None"
  shows "read_groups 0 n (show_groups xs @ rest) = (xs, False, rest)"
proof (cases xs)
  case Nil
  with assms show ?thesis
    by (cases n) (auto simp: show_groups_def read_ipv4_needs_dot separated_0)
next
  case (Cons x ys)
  with assms(3) obtain n' where n: "n = Suc n'" by (cases n) auto
  have "separated 0 read_ipv4 (show_groups xs @ rest) = None"
    using assms(2) no_dot_colon_groups no_dot_show_hex
    by (intro separated_ipv4_needs_dot) (auto simp: Cons show_groups_Cons)
  moreover have "separated 0 read_segment (show_groups xs @ rest) = Some (x, colon_groups ys @ rest)"
    using assms(1) by (simp add: separated_def read_segment_show ends_hex_colon_groups Cons show_groups_Cons)
  moreover have "read_groups 1 n' (colon_groups ys @ rest) = (ys, False, rest)"
    using assms Cons n by (intro read_colon_groups) auto
  ultimately show ?thesis by (cases n') (simp_all add: n Cons)
qed

subsection \<open>Compressed zeros\<close>

definition zeros_at :: "u16 list \<Rightarrow> nat \<times> nat \<Rightarrow> bool" where
  "zeros_at ys r \<longleftrightarrow> fst r + snd r \<le> length ys \<and> (\<forall>j < snd r. ys ! (fst r + j) = 0)"

lemma zero_run_zeros:
  "zeros_at ys longest \<Longrightarrow> zeros_at ys cur \<Longrightarrow> snd cur = 0 \<or> fst cur + snd cur = i \<Longrightarrow> xs = drop i ys \<Longrightarrow> i \<le> length ys \<Longrightarrow>
     zeros_at ys (zero_run i longest cur xs)"
proof (induction i longest cur xs rule: zero_run.induct)
  case (1 i longest cur)
  then show ?case by simp
next
  case (2 i longest cur x xs)
  from "2.prems"(4) have i: "i < length ys" and x: "ys ! i = x" and xs: "xs = drop (Suc i) ys"
    by (metis drop_all list.distinct(1) not_le, metis nth_via_drop, metis drop_Suc list.sel(3) tl_drop)
  show ?case
  proof (cases "x = 0")
    case True
    let ?cur = "(if snd cur = 0 then i else fst cur, snd cur + 1)"
    have z: "zeros_at ys ?cur"
      using "2.prems"(2,3) i x True by (auto simp: zeros_at_def less_Suc_eq)
    have "zeros_at ys (if snd longest < snd ?cur then ?cur else longest)"
      using z "2.prems"(1) by simp
    then have "zeros_at ys (zero_run (Suc i) (if snd longest < snd ?cur then ?cur else longest) ?cur xs)"
      using "2.IH"(1) [OF True refl] z "2.prems"(3) i xs by auto
    then show ?thesis
      by (simp only: zero_run.simps Let_def True if_True simp_thms)
  next
    case False
    then show ?thesis
      using "2.IH"(2) "2.prems"(1) i xs by (simp add: zeros_at_def)
  qed
qed

lemma zero_run_split:
  assumes "zero_run 0 (0, 0) (0, 0) segs = (start, len)"
  shows "segs = take start segs @ replicate len 0 @ drop (start + len) segs \<and> start + len \<le> length segs"
proof -
  have "zeros_at segs (start, len)"
    using zero_run_zeros [of segs "(0, 0)" "(0, 0)" 0 segs] assms by (simp add: zeros_at_def)
  then have le: "start + len \<le> length segs" and z: "\<forall>j < len. segs ! (start + j) = 0"
    by (simp_all add: zeros_at_def)
  have "take len (drop start segs) = replicate len 0"
    using le z by (intro nth_equalityI) auto
  then have "segs = take start segs @ replicate len 0 @ drop len (drop start segs)"
    by (metis append_take_drop_id)
  with le show ?thesis by (simp add: add.commute)
qed

lemma unat_octet_pair: "of_nat (unat (fst (octets x)) * 256 + unat (snd (octets x))) = (x :: u16)"
proof -
  have "unat x div 256 < 256"
    using unat_u16_less [of x] by (simp add: less_mult_imp_div_less)
  then have "unat (of_nat (unat x div 256) :: u8) = unat x div 256"
    unfolding unat_of_nat by simp
  moreover have "unat (of_nat (unat x mod 256) :: u8) = unat x mod 256"
    unfolding unat_of_nat by simp
  ultimately show ?thesis
    by (simp add: octets_def del: of_nat_mult of_nat_add)
qed

lemma read_groups_colon: "read_groups 0 (Suc n) (CHR '':'' # s) = ([], False, CHR '':'' # s)"
  by (simp add: separated_0 read_ipv4_def read_octet_def read_segment_def read_number_None dec_value_def hex_value_def)

lemma read_segment_ffff: "read_segment (''ffff'' @ CHR '':'' # s) = Some (-1, CHR '':'' # s)"
  by (simp add: read_segment_def read_number_def hex_value_def)

lemma read_ipv4_ffff: "read_ipv4 (''ffff'' @ s) = None"
  by (simp add: read_ipv4_def read_octet_def read_number_None dec_value_def)

lemma read_groups_mapped:
  assumes "ends_number dec_value rest" and "octets x = (a, b)" and "octets y = (c, d)"
  shows "read_groups 0 (Suc (Suc (Suc n))) (''ffff'' @ CHR '':'' # show_ipv4 a b c d @ rest) = ([-1, x, y], True, rest)"
proof -
  have "separated 1 read_ipv4 (CHR '':'' # show_ipv4 a b c d @ rest) = Some ((a, b, c, d), rest)"
    using assms(1) by (simp add: separated_def read_ipv4_show)
  then have "read_groups 1 (Suc (Suc n)) (CHR '':'' # show_ipv4 a b c d @ rest) = ([x, y], True, rest)"
    using unat_octet_pair [of x] unat_octet_pair [of y] assms(2,3) by simp
  then show ?thesis
    by (simp only: read_groups.simps separated_0 read_ipv4_ffff read_segment_ffff if_cancel option.case prod.case
        One_nat_def)
qed

lemma mapped_segments: "ipv4_mapped segs \<Longrightarrow> segs = [0, 0, 0, 0, 0, -1, segs ! 6, segs ! 7]"
proof -
  assume m: "ipv4_mapped segs"
  then have "length (drop 6 segs) = 2"
    by (simp add: ipv4_mapped_def)
  then obtain x y where xy: "drop 6 segs = [x, y]"
    unfolding length_2_conv by blast
  have "segs = take 6 segs @ drop 6 segs"
    by simp
  then have "segs = [0, 0, 0, 0, 0, -1, x, y]"
    using m xy unfolding ipv4_mapped_def by simp
  then show ?thesis by simp
qed

lemma read_ipv6_show_mapped:
  assumes "ipv4_mapped segs" and rest: "rest = CHR '']'' # r \<or> rest = CHR ''%'' # r"
  shows "read_ipv6 (show_ipv6 segs @ rest) = Some (segs, rest)"
proof -
  obtain a b c d where ab: "octets (segs ! 6) = (a, b)" and cd: "octets (segs ! 7) = (c, d)"
    by (metis surj_pair)
  let ?t = "''ffff'' @ CHR '':'' # show_ipv4 a b c d @ rest"
  have text_eq: "show_ipv6 segs @ rest = CHR '':'' # CHR '':'' # ?t"
    using assms(1) ab cd by (simp add: show_ipv6_def)
  have suc_7: "Suc (Suc (Suc 4)) = 7" and suc_8: "Suc 7 = 8"
    by simp_all
  have "ends_number dec_value rest"
    using rest by (auto simp: ends_number_def dec_value_def)
  from read_groups_mapped [OF this ab cd, of 4]
  have tail: "read_groups 0 7 ?t = ([-1, segs ! 6, segs ! 7], True, rest)"
    unfolding suc_7 .
  have "read_groups 0 8 (CHR '':'' # CHR '':'' # ?t) = ([], False, CHR '':'' # CHR '':'' # ?t)"
    using read_groups_colon [of 7 "CHR '':'' # ?t"] unfolding suc_8 .
  then have "read_ipv6 (CHR '':'' # CHR '':'' # ?t) = Some ([] @ replicate 5 0 @ [-1, segs ! 6, segs ! 7], rest)"
    using tail unfolding read_ipv6_def by simp
  moreover have "[] @ replicate 5 0 @ [-1, segs ! 6, segs ! 7] = segs"
    using mapped_segments [OF assms(1)] by (simp add: numeral_eq_Suc)
  ultimately show ?thesis unfolding text_eq by simp
qed

lemma read_ipv6_show:
  assumes "length segs = 8" and rest: "rest = CHR '']'' # r \<or> rest = CHR ''%'' # r" and dot: "CHR ''.'' \<notin> set rest"
  shows "read_ipv6 (show_ipv6 segs @ rest) = Some (segs, rest)"
proof (cases "ipv4_mapped segs")
  case True
  then show ?thesis
    using rest by (rule read_ipv6_show_mapped)
next
  case False
  have eh: "ends_number hex_value rest" and stop: "separated 1 read_segment rest = None" "read_segment rest = None"
    using rest by (auto simp: separated_def read_segment_def read_number_None hex_value_def)
  obtain start len where zr: "zero_run 0 (0, 0) (0, 0) segs = (start, len)"
    by (metis surj_pair)
  note split = zero_run_split [OF zr]
  show ?thesis
  proof (cases "1 < len")
    case compressed: True
    let ?h = "take start segs" and ?t = "drop (start + len) segs"
    let ?rest = "CHR '':'' # CHR '':'' # show_groups ?t @ rest"
    have len: "length ?h + len + length ?t = 8"
      using split assms(1) by (metis length_append length_replicate add.assoc)
    have no_dot: "CHR ''.'' \<notin> set ?rest"
      using dot no_dot_colon_groups no_dot_show_hex by (cases ?t) (auto simp: show_groups_Cons, simp add: show_groups_def)
    have "read_groups 0 8 (show_groups ?h @ ?rest) = (?h, False, ?rest)"
      using no_dot len compressed
      by (intro read_groups_show) (auto simp: separated_def read_segment_def read_number_None hex_value_def)
    moreover have "read_groups 0 (8 - (length ?h + 1)) (show_groups ?t @ rest) = (?t, False, rest)"
      using eh dot stop len compressed by (intro read_groups_show) auto
    moreover have "length ?h \<noteq> 8" and "8 - (length ?h + length ?t) = len"
      using len compressed by linarith+
    ultimately show ?thesis
      using split compressed False zr by (simp add: read_ipv6_def show_ipv6_def)
  next
    case plain: False
    have "read_groups 0 8 (show_groups segs @ rest) = (segs, False, rest)"
      using eh dot assms(1) stop by (intro read_groups_show) auto
    then show ?thesis
      using plain False zr assms(1) by (simp add: read_ipv6_def show_ipv6_def)
  qed
qed

text \<open>
  Which addresses survive being printed and read back: all IPv4 ones, and the IPv6 ones without
  flow information, which \<open>Display\<close> leaves out.
\<close>

fun text_faithful :: "socket_addr \<Rightarrow> bool" where
  "text_faithful (SocketV4 a b c d p) = True"
| "text_faithful (SocketV6 segs p f sc) = (length segs = 8 \<and> f = 0)"

lemma read_scope_id_show: "read_scope_id (CHR ''%'' # show_nat (unat sc) @ CHR '']'' # s) = Some (sc, CHR '']'' # s)"
proof -
  have "unat sc < 2 ^ LENGTH(32)"
    by (rule unsigned_less)
  then show ?thesis
    by (simp add: read_scope_id_def read_number_show_nat)
qed

lemma no_dot_show_nat: "CHR ''.'' \<notin> set (show_nat n)"
proof
  assume "CHR ''.'' \<in> set (show_nat n)"
  then obtain d where "d < 10" and "CHR ''.'' = digit_char d"
    using set_show_nat by blast
  then have "dec_value CHR ''.'' = Some d"
    using dec_value_digit_char by metis
  then show False by (simp add: dec_value_def)
qed

lemma parse_show_socket_v6:
  assumes "length segs = 8"
  shows "parse_socket (show_socket (SocketV6 segs p 0 sc)) = Some (SocketV6 segs p 0 sc)"
proof -
  let ?port = "CHR '']'' # CHR '':'' # show_nat (unat p)"
  let ?rest = "if sc = 0 then ?port else CHR ''%'' # show_nat (unat sc) @ ?port"
  have text_eq: "show_socket (SocketV6 segs p 0 sc) = CHR ''['' # show_ipv6 segs @ ?rest"
    by simp
  have "CHR ''.'' \<notin> set ?rest"
    using no_dot_show_nat by auto
  then have v6: "read_ipv6 (show_ipv6 segs @ ?rest) = Some (segs, ?rest)"
    using assms by (cases "sc = 0") (auto intro!: read_ipv6_show)
  have scope: "(case read_scope_id ?rest of None \<Rightarrow> (0, ?rest) | Some r \<Rightarrow> r) = (sc, ?port)"
    by (cases "sc = 0") (simp_all add: read_scope_id_show, simp add: read_scope_id_def)
  have "read_port (CHR '':'' # show_nat (unat p)) = Some (p, [])"
    using read_port_show [of "[]" p] by simp
  then have "read_socket_v6 (CHR ''['' # show_ipv6 segs @ ?rest) = Some (SocketV6 segs p 0 sc, [])"
    unfolding read_socket_v6_def using v6 scope by simp
  moreover have "read_socket_v4 (CHR ''['' # s) = None" for s
    by (simp add: read_socket_v4_def read_ipv4_def read_octet_def read_number_None dec_value_def)
  ultimately show ?thesis
    unfolding text_eq parse_socket_def by simp
qed

lemma parse_show_socket: "text_faithful a \<Longrightarrow> parse_socket (show_socket a) = Some a"
  by (cases a) (simp_all add: parse_show_socket_v4 parse_show_socket_v6 del: show_socket.simps)

end
