(* ===== verification/Qr_Uri.thy ===== *)
theory Qr_Uri
  imports Pairing_Token Rust_Net
begin

text \<open>
  The QR payload of \<open>crates/protocol/src/pairing.rs\<close> and its URI form. URL syntax is the
  third-party \<open>url\<close> crate's: the record \<open>url_api\<close> holds the five functions the source calls.
\<close>

record 'u url_api =
  url_parse :: "string \<Rightarrow> 'u option"
  url_scheme :: "'u \<Rightarrow> string"
  url_append_pair :: "'u \<Rightarrow> string \<Rightarrow> string \<Rightarrow> 'u"
  url_query_pairs :: "'u \<Rightarrow> (string \<times> string) list"
  url_into_string :: "'u \<Rightarrow> string"

record qr_payload =
  qr_version :: u16
  qr_device_id :: device_id
  qr_name :: string
  qr_addrs :: "socket_addr list"
  qr_token :: token_bytes

datatype qr_parse_error = WrongScheme | MissingField string | MalformedField string

definition scheme :: string where
  "scheme = ''penguinsync''"

section \<open>Tokens as hexadecimal text\<close>

definition hex_encode :: "u8 list \<Rightarrow> string" where
  "hex_encode bs = concat (map fmt_02x bs)"

definition hex_decode_token :: "string \<Rightarrow> token_bytes option" where
  "hex_decode_token s = (if length s \<noteq> token_len * 2 then None else hex_slots s 0 token_len)"

lemma hex_encode_eq: "hex_encode = to_hex"
  by (rule ext) (simp add: hex_encode_def to_hex_def)

lemma hex_decode_token_encode: "length bs = token_len \<Longrightarrow> hex_decode_token (hex_encode bs) = Some bs"
  using hex_slots_to_hex [of "[]" bs 0 token_len] ascii_to_hex [of bs]
  by (simp add: hex_decode_token_def hex_encode_eq)

lemma hex_encode_decode_token:
  assumes "hex_decode_token s = Some bs" and "\<forall>c \<in> set s. lower_hex c"
  shows "hex_encode bs = s"
proof -
  have "length s = 2 * token_len" and "hex_slots s 0 token_len = Some bs"
    using assms(1) by (auto simp: hex_decode_token_def split: if_splits)
  then show ?thesis
    using hex_slots_canonical [of s 0 token_len bs] assms(2) by (simp add: hex_encode_eq)
qed

lemma hex_decode_token_length: "hex_decode_token s = Some bs \<Longrightarrow> length bs = token_len"
  by (auto simp: hex_decode_token_def hex_slots_length split: if_splits)

interpretation tokhex: hex_form token_len hex_encode hex_decode_token
  by unfold_locales
    (erule hex_decode_token_encode | erule hex_decode_token_length | erule (1) hex_encode_decode_token
      | simp add: hex_encode_eq lower_hex_to_hex)+

section \<open>Writing the URI\<close>

definition qr_pairs :: "qr_payload \<Rightarrow> (string \<times> string) list" where
  "qr_pairs p =
     [(''v'', show_nat (unat (qr_version p))), (''id'', to_hex (qr_device_id p)), (''name'', qr_name p)]
     @ map (\<lambda>a. (''addr'', show_socket a)) (qr_addrs p)
     @ [(''token'', hex_encode (qr_token p))]"

text \<open>\<open>None\<close> is the panic of \<open>expect\<close> on the fixed prefix.\<close>

definition encode_qr_uri :: "'u url_api \<Rightarrow> qr_payload \<Rightarrow> string option" where
  "encode_qr_uri api p =
     (case url_parse api (scheme @ ''://pair'') of
        None \<Rightarrow> None
      | Some u \<Rightarrow> Some (url_into_string api (foldl (\<lambda>u kv. url_append_pair api u (fst kv) (snd kv)) u (qr_pairs p))))"

section \<open>Reading the URI\<close>

text \<open>The five mutable locals of \<open>decode_qr_uri\<close>.\<close>

record qr_locals =
  l_version :: "u16 option"
  l_device_id :: "device_id option"
  l_name :: "string option"
  l_addrs :: "socket_addr list"
  l_token :: "token_bytes option"

definition no_locals :: qr_locals where
  "no_locals = \<lparr>l_version = None, l_device_id = None, l_name = None, l_addrs = [], l_token = None\<rparr>"

definition decode_pair :: "qr_locals \<Rightarrow> string \<times> string \<Rightarrow> qr_parse_error + qr_locals" where
  "decode_pair l kv =
     (let key = fst kv; value = snd kv in
      if key = ''v'' then
        (case parse_u16 value of None \<Rightarrow> Inl (MalformedField ''v'') | Some v \<Rightarrow> Inr (l\<lparr>l_version := Some v\<rparr>))
      else if key = ''id'' then
        (case from_hex value of None \<Rightarrow> Inl (MalformedField ''id'') | Some i \<Rightarrow> Inr (l\<lparr>l_device_id := Some i\<rparr>))
      else if key = ''name'' then Inr (l\<lparr>l_name := Some value\<rparr>)
      else if key = ''addr'' then
        (case parse_socket value of
           None \<Rightarrow> Inl (MalformedField ''addr'')
         | Some a \<Rightarrow> Inr (l\<lparr>l_addrs := l_addrs l @ [a]\<rparr>))
      else if key = ''token'' then
        (case hex_decode_token value of
           None \<Rightarrow> Inl (MalformedField ''token'')
         | Some t \<Rightarrow> Inr (l\<lparr>l_token := Some t\<rparr>))
      else Inr l)"

fun decode_pairs :: "qr_locals \<Rightarrow> (string \<times> string) list \<Rightarrow> qr_parse_error + qr_locals" where
  "decode_pairs l [] = Inr l"
| "decode_pairs l (kv # kvs) = (case decode_pair l kv of Inl e \<Rightarrow> Inl e | Inr l' \<Rightarrow> decode_pairs l' kvs)"

definition finish_payload :: "qr_locals \<Rightarrow> qr_parse_error + qr_payload" where
  "finish_payload l =
     (case l_version l of None \<Rightarrow> Inl (MissingField ''v'') | Some v \<Rightarrow>
     (case l_device_id l of None \<Rightarrow> Inl (MissingField ''id'') | Some i \<Rightarrow>
     (case l_name l of None \<Rightarrow> Inl (MissingField ''name'') | Some n \<Rightarrow>
     (case l_token l of None \<Rightarrow> Inl (MissingField ''token'') | Some t \<Rightarrow>
        Inr \<lparr>qr_version = v, qr_device_id = i, qr_name = n, qr_addrs = l_addrs l, qr_token = t\<rparr>))))"

definition decode_qr_uri :: "'u url_api \<Rightarrow> string \<Rightarrow> qr_parse_error + qr_payload" where
  "decode_qr_uri api uri =
     (case url_parse api uri of
        None \<Rightarrow> Inl WrongScheme
      | Some u \<Rightarrow>
          if url_scheme api u \<noteq> scheme then Inl WrongScheme
          else case decode_pairs no_locals (url_query_pairs api u) of
            Inl e \<Rightarrow> Inl e
          | Inr l \<Rightarrow> finish_payload l)"

section \<open>Round trip\<close>

text \<open>
  What the source relies on of the \<open>url\<close> crate: the fixed prefix is a URL with that scheme and
  no query; appending a pair of valid strings adds it at the end of the decoded query and
  keeps the scheme; a URL is parsed back from its own text.
\<close>

definition url_ok :: "'u url_api \<Rightarrow> bool" where
  "url_ok api \<longleftrightarrow>
     (\<exists>u. url_parse api ''penguinsync://pair'' = Some u \<and> url_scheme api u = ''penguinsync'' \<and> url_query_pairs api u = [])
     \<and> (\<forall>u k v. is_rust_string k \<longrightarrow> is_rust_string v \<longrightarrow>
          url_scheme api (url_append_pair api u k v) = url_scheme api u \<and>
          url_query_pairs api (url_append_pair api u k v) = url_query_pairs api u @ [(k, v)])
     \<and> (\<forall>u. url_parse api (url_into_string api u) = Some u)"

definition payload_ok :: "qr_payload \<Rightarrow> bool" where
  "payload_ok p \<longleftrightarrow>
     length (qr_device_id p) = device_id_len \<and> length (qr_token p) = token_len \<and>
     is_rust_string (qr_name p) \<and> (\<forall>a \<in> set (qr_addrs p). text_faithful a)"

lemma append_pairs:
  assumes "url_ok api"
  shows "\<forall>kv \<in> set kvs. is_rust_string (fst kv) \<and> is_rust_string (snd kv) \<Longrightarrow>
    url_scheme api (foldl (\<lambda>u kv. url_append_pair api u (fst kv) (snd kv)) u kvs) = url_scheme api u \<and>
    url_query_pairs api (foldl (\<lambda>u kv. url_append_pair api u (fst kv) (snd kv)) u kvs) = url_query_pairs api u @ kvs"
  using assms by (induction kvs arbitrary: u) (simp_all add: url_ok_def)

lemma digit_char_ascii: "n < 16 \<Longrightarrow> char_code (digit_char n) < 128"
  by (simp add: digit_char_code)

lemma ascii_show_nat: "ascii (show_nat n)"
  using set_show_nat digit_char_ascii by (fastforce simp: ascii_def)

lemma ascii_show_hex: "ascii (show_hex n)"
  using set_show_hex digit_char_ascii by (fastforce simp: ascii_def)

lemma ascii_append [simp]: "ascii (s @ t) \<longleftrightarrow> ascii s \<and> ascii t"
  by (auto simp: ascii_def)

lemma ascii_Cons [simp]: "ascii (c # s) \<longleftrightarrow> char_code c < 128 \<and> ascii s"
  by (auto simp: ascii_def)

lemma ascii_Nil [simp]: "ascii []"
  by (simp add: ascii_def)

lemma ascii_show_groups: "ascii (show_groups xs)"
  by (cases xs) (auto simp: show_groups_Cons ascii_show_hex colon_groups_def ascii_def [of "concat _"],
      auto simp: show_groups_def ascii_show_hex [unfolded ascii_def])

lemma ascii_show_ipv4: "ascii (show_ipv4 a b c d)"
  by (simp add: show_ipv4_def ascii_show_nat)

lemma ascii_show_socket: "ascii (show_socket a)"
  by (cases a)
    (auto simp: ascii_show_nat ascii_show_ipv4 show_ipv6_def ascii_show_groups split: prod.splits)

lemma qr_pairs_strings:
  "is_rust_string (qr_name p) \<Longrightarrow> \<forall>kv \<in> set (qr_pairs p). is_rust_string (fst kv) \<and> is_rust_string (snd kv)"
  by (auto simp: qr_pairs_def hex_encode_eq ascii_is_rust_string ascii_show_nat ascii_to_hex ascii_show_socket)

lemma decode_pairs_append:
  "decode_pairs l (xs @ ys) = (case decode_pairs l xs of Inl e \<Rightarrow> Inl e | Inr l' \<Rightarrow> decode_pairs l' ys)"
  by (induction xs arbitrary: l) (auto split: sum.splits)

lemma decode_addrs:
  "\<forall>a \<in> set as. text_faithful a \<Longrightarrow>
     decode_pairs l (map (\<lambda>a. (''addr'', show_socket a)) as) = Inr (l\<lparr>l_addrs := l_addrs l @ as\<rparr>)"
  by (induction as arbitrary: l) (simp_all add: decode_pair_def parse_show_socket del: show_socket.simps)

lemma decode_qr_pairs:
  assumes "payload_ok p"
  shows "decode_pairs no_locals (qr_pairs p) =
    Inr \<lparr>l_version = Some (qr_version p), l_device_id = Some (qr_device_id p), l_name = Some (qr_name p),
         l_addrs = qr_addrs p, l_token = Some (qr_token p)\<rparr>"
  using assms
  by (simp add: qr_pairs_def decode_pairs_append decode_addrs decode_pair_def no_locals_def payload_ok_def
      idhex.dec_enc tokhex.dec_enc)

lemma decode_encode_qr:
  assumes "url_ok api" and "payload_ok p"
  shows "\<exists>uri. encode_qr_uri api p = Some uri \<and> decode_qr_uri api uri = Inr p"
proof -
  obtain u where u: "url_parse api (scheme @ ''://pair'') = Some u" "url_scheme api u = scheme" "url_query_pairs api u = []"
    using assms(1) by (auto simp: url_ok_def scheme_def)
  let ?u = "foldl (\<lambda>u kv. url_append_pair api u (fst kv) (snd kv)) u (qr_pairs p)"
  have "encode_qr_uri api p = Some (url_into_string api ?u)"
    by (simp add: encode_qr_uri_def u)
  moreover have "url_parse api (url_into_string api ?u) = Some ?u"
    using assms(1) by (simp add: url_ok_def)
  moreover have "url_scheme api ?u = scheme" and "url_query_pairs api ?u = qr_pairs p"
    using append_pairs [OF assms(1) qr_pairs_strings, of p u] assms(2) u by (simp_all add: payload_ok_def)
  ultimately show ?thesis
    using decode_qr_pairs [OF assms(2)] by (simp add: decode_qr_uri_def finish_payload_def)
qed

text \<open>
  C31. A pairing code survives the trip through the QR: for every payload with a 32-byte
  identifier, a 16-byte token, a valid name and addresses that have a faithful text (every
  IPv4 one; every IPv6 one without flow information), the URI that is shown is read back as
  exactly that payload, addresses in the order they were offered.
\<close>

theorem qr_roundtrip:
  assumes "url_ok api" and "payload_ok p"
  shows "\<exists>uri. encode_qr_uri api p = Some uri \<and> decode_qr_uri api uri = Inr p"
  using assms by (rule decode_encode_qr)

text \<open>
  An implementation of the interface, to show that the hypothesis can hold: a URL is its list of
  query pairs, written after the prefix with every character escaped.
\<close>

definition stuff :: "string \<Rightarrow> string" where
  "stuff s = concat (map (\<lambda>c. [CHR ''x'', c]) s) @ '';''"

fun unstuff :: "string \<Rightarrow> string \<times> string" where
  "unstuff [] = ([], [])"
| "unstuff [a] = ([], [])"
| "unstuff (a # c # r) = (if a = CHR ''x'' then (case unstuff r of (s, t) \<Rightarrow> (c # s, t)) else ([], c # r))"

fun unstuff_pairs :: "nat \<Rightarrow> string \<Rightarrow> (string \<times> string) list" where
  "unstuff_pairs 0 s = []"
| "unstuff_pairs (Suc n) s =
     (if s = [] then []
      else case unstuff s of (k, r) \<Rightarrow> (case unstuff r of (v, r') \<Rightarrow> (k, v) # unstuff_pairs n r'))"

definition demo_url :: "(string \<times> string) list url_api" where
  "demo_url =
     \<lparr>url_parse = (\<lambda>s. if take 18 s = ''penguinsync://pair'' then Some (unstuff_pairs (length s) (drop 18 s)) else None),
      url_scheme = (\<lambda>u. ''penguinsync''),
      url_append_pair = (\<lambda>u k v. u @ [(k, v)]),
      url_query_pairs = (\<lambda>u. u),
      url_into_string = (\<lambda>u. ''penguinsync://pair'' @ concat (map (\<lambda>(k, v). stuff k @ stuff v) u))\<rparr>"

lemma unstuff_stuff: "unstuff (stuff s @ r) = (s, r)"
proof (induction s)
  case Nil
  show ?case by (cases r) (simp_all add: stuff_def)
next
  case (Cons c s)
  then show ?case by (simp add: stuff_def)
qed

lemma unstuff_pairs_stuff:
  "length u \<le> n \<Longrightarrow> unstuff_pairs n (concat (map (\<lambda>(k, v). stuff k @ stuff v) u)) = u"
proof (induction u arbitrary: n)
  case Nil
  show ?case by (cases n) simp_all
next
  case (Cons kv u)
  obtain k v where kv: "kv = (k, v)" by (metis surj_pair)
  obtain n' where n: "n = Suc n'" using Cons.prems by (cases n) auto
  have "stuff k \<noteq> []" by (simp add: stuff_def)
  with Cons n show ?case by (simp add: kv unstuff_stuff)
qed

lemma length_stuffed: "length u \<le> length (concat (map (\<lambda>(k, v). stuff k @ stuff v) u))"
  by (induction u) (auto simp: stuff_def)

lemma demo_url_ok: "url_ok demo_url"
proof -
  have "url_parse demo_url (url_into_string demo_url u) = Some u" for u
    using length_stuffed [of u]
    by (simp add: demo_url_def unstuff_pairs_stuff le_SucI del: unstuff_pairs.simps)
  moreover have "url_parse demo_url ''penguinsync://pair'' = Some []"
    by (simp add: demo_url_def)
  ultimately show ?thesis
    unfolding url_ok_def by (simp add: demo_url_def [unfolded atomize_eq] del: unstuff_pairs.simps)
qed

definition sample_payload :: qr_payload where
  "sample_payload =
     \<lparr>qr_version = 0, qr_device_id = replicate 32 9, qr_name = ''desk-fedora'',
      qr_addrs = [SocketV4 192 168 1 42 5555, SocketV6 [0xfe80, 0, 0, 0, 0, 0, 0, 1] 5555 0 0],
      qr_token = replicate 16 0xab\<rparr>"

theorem qr_roundtrip_witness:
  "\<exists>uri. encode_qr_uri demo_url sample_payload = Some uri \<and> decode_qr_uri demo_url uri = Inr sample_payload"
  by (rule qr_roundtrip [OF demo_url_ok])
    (simp add: payload_ok_def sample_payload_def device_id_len_def token_len_def ascii_is_rust_string)

section \<open>What a URI means\<close>

text \<open>
  The pairs that are refused: a known key whose value has not the form of its field. Names and
  unknown keys take any value.
\<close>

definition malformed_pair :: "string \<times> string \<Rightarrow> bool" where
  "malformed_pair kv \<longleftrightarrow>
     fst kv = ''v'' \<and> parse_u16 (snd kv) = None \<or>
     fst kv = ''id'' \<and> from_hex (snd kv) = None \<or>
     fst kv = ''addr'' \<and> parse_socket (snd kv) = None \<or>
     fst kv = ''token'' \<and> hex_decode_token (snd kv) = None"

text \<open>A key may occur more than once: the last value counts, and of the addresses all of them.\<close>

definition query_value :: "(string \<times> string) list \<Rightarrow> string \<Rightarrow> string option" where
  "query_value kvs = map_of (rev kvs)"

definition query_addrs :: "(string \<times> string) list \<Rightarrow> socket_addr list" where
  "query_addrs kvs = map (\<lambda>kv. the (parse_socket (snd kv))) (filter (\<lambda>kv. fst kv = ''addr'') kvs)"

lemma given_simps:
  "query_value [] k = None"
  "query_value (kv # kvs) k = (case query_value kvs k of None \<Rightarrow> if fst kv = k then Some (snd kv) else None | Some v \<Rightarrow> Some v)"
  by (simp_all add: query_value_def map_add_def split: option.split)

lemma given_None: "query_value kvs k = None \<longleftrightarrow> k \<notin> fst ` set kvs"
  by (simp add: query_value_def map_of_eq_None_iff)

lemma given_member: "query_value kvs k = Some v \<Longrightarrow> (k, v) \<in> set kvs"
  using map_of_SomeD [of "rev kvs" k v] by (simp add: query_value_def)

lemma given_addrs_simps:
  "query_addrs [] = []"
  "query_addrs (kv # kvs) = (if fst kv = ''addr'' then [the (parse_socket (snd kv))] else []) @ query_addrs kvs"
  by (simp_all add: query_addrs_def)

text \<open>The locals after the loop.\<close>

definition read_locals :: "qr_locals \<Rightarrow> (string \<times> string) list \<Rightarrow> qr_locals" where
  "read_locals l kvs =
     \<lparr>l_version = (case query_value kvs ''v'' of None \<Rightarrow> l_version l | Some v \<Rightarrow> parse_u16 v),
      l_device_id = (case query_value kvs ''id'' of None \<Rightarrow> l_device_id l | Some v \<Rightarrow> from_hex v),
      l_name = (case query_value kvs ''name'' of None \<Rightarrow> l_name l | Some v \<Rightarrow> Some v),
      l_addrs = l_addrs l @ query_addrs kvs,
      l_token = (case query_value kvs ''token'' of None \<Rightarrow> l_token l | Some v \<Rightarrow> hex_decode_token v)\<rparr>"

lemma decode_pair_malformed: "malformed_pair kv \<Longrightarrow> decode_pair l kv = Inl (MalformedField (fst kv))"
  by (auto simp: malformed_pair_def decode_pair_def)

lemma decode_pair_read:
  assumes "\<not> malformed_pair kv"
  shows "decode_pair l kv = Inr (read_locals l [kv])"
proof -
  consider "fst kv = ''v''" | "fst kv = ''id''" | "fst kv = ''name''" | "fst kv = ''addr''" | "fst kv = ''token''"
    | "fst kv \<notin> {''v'', ''id'', ''name'', ''addr'', ''token''}"
    by blast
  then show ?thesis
    by cases (use assms in \<open>auto simp: malformed_pair_def decode_pair_def read_locals_def given_simps given_addrs_simps\<close>)
qed

lemma read_locals_Cons: "read_locals (read_locals l [kv]) kvs = read_locals l (kv # kvs)"
  by (simp add: read_locals_def given_simps given_addrs_simps split: option.split)

lemma decode_pairs_read:
  "decode_pairs l kvs =
     (case find malformed_pair kvs of Some kv \<Rightarrow> Inl (MalformedField (fst kv)) | None \<Rightarrow> Inr (read_locals l kvs))"
proof (induction kvs arbitrary: l)
  case Nil
  then show ?case by (simp add: read_locals_def given_simps given_addrs_simps)
next
  case (Cons kv kvs)
  then show ?case
    by (cases "malformed_pair kv")
      (simp_all add: decode_pair_malformed decode_pair_read read_locals_Cons split: option.split)
qed

lemma well_formed_given:
  assumes "find malformed_pair kvs = None"
  shows "query_value kvs ''v'' = Some v \<Longrightarrow> parse_u16 v \<noteq> None"
    and "query_value kvs ''id'' = Some v \<Longrightarrow> from_hex v \<noteq> None"
    and "query_value kvs ''token'' = Some v \<Longrightarrow> hex_decode_token v \<noteq> None"
  using assms by (auto simp: find_None_iff malformed_pair_def dest!: given_member)

lemma finish_read:
  assumes "find malformed_pair kvs = None"
  shows "finish_payload (read_locals no_locals kvs) =
    (case find (\<lambda>k. k \<notin> fst ` set kvs) [''v'', ''id'', ''name'', ''token''] of
       Some k \<Rightarrow> Inl (MissingField k)
     | None \<Rightarrow>
         Inr \<lparr>qr_version = the (parse_u16 (the (query_value kvs ''v''))), qr_device_id = the (from_hex (the (query_value kvs ''id''))),
              qr_name = the (query_value kvs ''name''), qr_addrs = query_addrs kvs,
              qr_token = the (hex_decode_token (the (query_value kvs ''token'')))\<rparr>)"
  unfolding given_None [symmetric] finish_payload_def read_locals_def no_locals_def
  using well_formed_given [OF assms] by (auto split: option.split)

text \<open>
  C32. Exactly what \<open>decode_qr_uri\<close> does with any text. A text that is no URL or has a foreign
  scheme is refused first. Then the first pair of the query whose value has not the form of its
  field (a version that is no 16-bit number, an identifier, address or token that cannot be
  read) is reported as malformed, wherever it stands. If there is none, the first of v, id, name
  and token that does not occur is reported as missing. Otherwise a payload comes out, with the
  last value of each key and all the addresses in their order; unknown keys are ignored.
\<close>

theorem decode_qr_outcomes:
  "decode_qr_uri api uri =
     (case url_parse api uri of
        None \<Rightarrow> Inl WrongScheme
      | Some u \<Rightarrow>
          if url_scheme api u \<noteq> ''penguinsync'' then Inl WrongScheme
          else case find malformed_pair (url_query_pairs api u) of
            Some kv \<Rightarrow> Inl (MalformedField (fst kv))
          | None \<Rightarrow>
              (case find (\<lambda>k. k \<notin> fst ` set (url_query_pairs api u)) [''v'', ''id'', ''name'', ''token''] of
                 Some k \<Rightarrow> Inl (MissingField k)
               | None \<Rightarrow>
                   Inr \<lparr>qr_version = the (parse_u16 (the (query_value (url_query_pairs api u) ''v''))),
                        qr_device_id = the (from_hex (the (query_value (url_query_pairs api u) ''id''))),
                        qr_name = the (query_value (url_query_pairs api u) ''name''),
                        qr_addrs = query_addrs (url_query_pairs api u),
                        qr_token = the (hex_decode_token (the (query_value (url_query_pairs api u) ''token'')))\<rparr>))"
  unfolding decode_qr_uri_def decode_pairs_read scheme_def
  by (simp add: finish_read split: option.split)

text \<open>Malformed comes before missing, and the first missing key is the one reported.\<close>

lemma decode_qr_examples:
  assumes "url_parse api uri = Some u" and "url_scheme api u = ''penguinsync''"
  shows "url_query_pairs api u = [(''v'', ''0''), (''id'', ''00'')] \<Longrightarrow> decode_qr_uri api uri = Inl (MalformedField ''id'')"
    and "url_query_pairs api u = [(''v'', ''0''), (''name'', ''x'')] \<Longrightarrow> decode_qr_uri api uri = Inl (MissingField ''id'')"
proof -
  have "show_nat (unat (0 :: u16)) = ''0''"
    by (simp add: show_nat.simps digit_char_def char_of_def bit_0)
  then have "parse_u16 ''0'' = Some 0"
    using parse_u16_show_nat [of 0] by simp
  moreover have "from_hex ''00'' = None"
    by (simp add: from_hex_def device_id_len_def)
  ultimately show "url_query_pairs api u = [(''v'', ''0''), (''id'', ''00'')] \<Longrightarrow> decode_qr_uri api uri = Inl (MalformedField ''id'')"
    and "url_query_pairs api u = [(''v'', ''0''), (''name'', ''x'')] \<Longrightarrow> decode_qr_uri api uri = Inl (MissingField ''id'')"
    using assms by (simp_all add: decode_qr_uri_def scheme_def decode_pair_def no_locals_def finish_payload_def)
qed

end
