(* ===== verification/Framing.thy ===== *)
theory Framing
  imports Message
begin

text \<open>
  \<open>crates/net/src/framing.rs\<close>: length-prefixed messages over a QUIC stream. The stream is
  \<open>quinn\<close>'s: its \<open>write_all\<close> and \<open>read_exact\<close> are the parameters \<open>write_all\<close> and
  \<open>read_exact\<close>, which take the stream's state and return the new one; \<open>'q\<close> is the type of their errors.
  \<open>None\<close> is a panic of one of the two \<open>expect\<close>s of \<open>write_message\<close>.
\<close>

definition max_frame_len :: nat where
  "max_frame_len = 1024 * 1024"

datatype ('q, 'e) framing_error =
    FrameTooLarge u32
  | Write 'q
  | Read 'q
  | DecodeFailed "'e codec_error"

text \<open>\<open>u32::to_le_bytes\<close> and \<open>u32::from_le_bytes\<close>.\<close>

definition to_le_bytes :: "nat \<Rightarrow> u8 list" where
  "to_le_bytes n = [of_nat n, of_nat (n div 256), of_nat (n div 65536), of_nat (n div 16777216)]"

definition from_le_bytes :: "u8 list \<Rightarrow> nat" where
  "from_le_bytes bs =
     (case bs of
        [a, b, c, d] \<Rightarrow> unat a + 256 * unat b + 65536 * unat c + 16777216 * unat d
      | _ \<Rightarrow> 0)"

lemma length_to_le_bytes [simp]: "length (to_le_bytes n) = 4"
  by (simp add: to_le_bytes_def)

lemma le_byte_chain:
  fixes n :: nat
  shows "n = n mod 256 + 256 * (n div 256 mod 256) + 65536 * (n div 65536 mod 256) + 16777216 * (n div 16777216)"
proof -
  have "n div 65536 = n div 256 div 256" and "n div 16777216 = n div 65536 div 256"
    by (simp_all add: div_mult2_eq [symmetric])
  then have "n = 256 * (n div 256) + n mod 256"
    and "n div 256 = 256 * (n div 65536) + n div 256 mod 256"
    and "n div 65536 = 256 * (n div 16777216) + n div 65536 mod 256"
    by (simp_all only: mult_div_mod_eq)
  then show ?thesis by linarith
qed

lemma from_to_le_bytes: "n < 2 ^ 32 \<Longrightarrow> from_le_bytes (to_le_bytes n) = n"
proof -
  assume "n < 2 ^ 32"
  then have "n div 16777216 < 256"
    by (intro less_mult_imp_div_less) simp
  then have top: "n div 16777216 mod 256 = n div 16777216"
    by (rule mod_less)
  have byte: "unat (of_nat k :: u8) = k mod 256" for k
    unfolding unat_of_nat by simp
  show ?thesis
    unfolding to_le_bytes_def from_le_bytes_def list.case byte top
    by (rule le_byte_chain [symmetric])
qed

lemma from_le_bytes_less: "from_le_bytes bs < 2 ^ 32"
proof -
  have "unat (a :: u8) + 256 * unat (b :: u8) + 65536 * unat (c :: u8) + 16777216 * unat (d :: u8) < 2 ^ 32" for a b c d
    using unat_u8_less [of a] unat_u8_less [of b] unat_u8_less [of c] unat_u8_less [of d] by simp
  then show ?thesis
    by (auto simp: from_le_bytes_def split: list.splits)
qed

section \<open>The two functions\<close>

definition write_message ::
  "('s \<Rightarrow> u8 list \<Rightarrow> ('q + unit) \<times> 's) \<Rightarrow> (message \<Rightarrow> 'e + u8 list) \<Rightarrow> 's \<Rightarrow> message
     \<Rightarrow> ((('q, 'e) framing_error + unit) \<times> 's) option" where
  "write_message write_all to_allocvec stream msg =
     (case encode to_allocvec msg of
        Inl _ \<Rightarrow> None
      | Inr bs \<Rightarrow>
          if 2 ^ 32 \<le> length bs then None
          else (case write_all stream (to_le_bytes (length bs)) of
             (Inl e, s1) \<Rightarrow> Some (Inl (Write e), s1)
           | (Inr _, s1) \<Rightarrow>
               (case write_all s1 bs of
                  (Inl e, s2) \<Rightarrow> Some (Inl (Write e), s2)
                | (Inr _, s2) \<Rightarrow> Some (Inr (), s2))))"

definition read_message ::
  "('s \<Rightarrow> nat \<Rightarrow> ('q + u8 list) \<times> 's) \<Rightarrow> (u8 list \<Rightarrow> 'e + message) \<Rightarrow> 's
     \<Rightarrow> (('q, 'e) framing_error + message) \<times> 's" where
  "read_message read_exact from_bytes stream =
     (case read_exact stream 4 of
        (Inl e, s1) \<Rightarrow> (Inl (Read e), s1)
      | (Inr len_buf, s1) \<Rightarrow>
          (let len = from_le_bytes len_buf in
           if len > max_frame_len then (Inl (FrameTooLarge (of_nat len)), s1)
           else (case read_exact s1 len of
              (Inl e, s2) \<Rightarrow> (Inl (Read e), s2)
            | (Inr buf, s2) \<Rightarrow>
                (case decode from_bytes buf of
                   Inl e \<Rightarrow> (Inl (DecodeFailed e), s2)
                 | Inr m \<Rightarrow> (Inr m, s2)))))"

section \<open>Reliable streams\<close>

text \<open>
  What QUIC promises of a stream: bytes written are appended to what is in flight, and a read
  of no more than that takes exactly the oldest bytes. \<open>view\<close> is the bytes in flight.
\<close>

definition appends :: "('s \<Rightarrow> u8 list \<Rightarrow> ('q + unit) \<times> 's) \<Rightarrow> ('s \<Rightarrow> u8 list) \<Rightarrow> bool" where
  "appends write_all view \<longleftrightarrow>
     (\<forall>s bs. fst (write_all s bs) = Inr () \<and> view (snd (write_all s bs)) = view s @ bs)"

definition takes_in_order :: "('s \<Rightarrow> nat \<Rightarrow> ('q + u8 list) \<times> 's) \<Rightarrow> ('s \<Rightarrow> u8 list) \<Rightarrow> bool" where
  "takes_in_order read_exact view \<longleftrightarrow>
     (\<forall>s n. n \<le> length (view s) \<longrightarrow>
        fst (read_exact s n) = Inr (take n (view s)) \<and> view (snd (read_exact s n)) = drop n (view s))"

lemma takes_in_orderD:
  assumes "takes_in_order rd view" and "view s = bs @ rest" and "n = length bs"
  obtains s' where "rd s n = (Inr bs, s')" and "view s' = rest"
proof -
  have "fst (rd s n) = Inr bs" and "view (snd (rd s n)) = rest"
    using assms by (simp_all add: takes_in_order_def)
  then show thesis by (intro that [of "snd (rd s n)"]) (simp_all add: prod_eq_iff)
qed

definition frame :: "u8 list \<Rightarrow> u8 list" where
  "frame bs = to_le_bytes (length bs) @ bs"

text \<open>A message that fits a frame the peer accepts.\<close>

definition fits :: "(message \<Rightarrow> 'e + u8 list) \<Rightarrow> (u8 list \<Rightarrow> 'e + message) \<Rightarrow> message \<Rightarrow> bool" where
  "fits to_allocvec from_bytes m \<longleftrightarrow>
     codec_ok to_allocvec from_bytes m \<and> (\<forall>bs. to_allocvec m = Inr bs \<longrightarrow> length bs \<le> max_frame_len)"

lemma fitsE:
  assumes "fits te fb m"
  obtains bs where "te m = Inr bs" "encode te m = Inr bs" "decode fb bs = Inr m" "length bs \<le> max_frame_len"
  using assms by (auto simp: fits_def codec_ok_def encode_def decode_def split: sum.splits)

lemma max_frame_len_u32: "n \<le> max_frame_len \<Longrightarrow> n < 2 ^ 32"
  by (simp add: max_frame_len_def)

lemma read_frame:
  assumes "takes_in_order rd view" and "view s = frame bs @ rest" and "length bs \<le> max_frame_len"
    and "decode fb bs = Inr m"
  obtains s' where "read_message rd fb s = (Inr m, s')" and "view s' = rest"
proof -
  obtain s1 where s1: "rd s 4 = (Inr (to_le_bytes (length bs)), s1)" "view s1 = bs @ rest"
    using takes_in_orderD [OF assms(1), of s "to_le_bytes (length bs)" "bs @ rest" 4] assms(2)
    by (auto simp: frame_def)
  obtain s2 where s2: "rd s1 (length bs) = (Inr bs, s2)" "view s2 = rest"
    using takes_in_orderD [OF assms(1) s1(2) refl] by blast
  have "from_le_bytes (to_le_bytes (length bs)) = length bs"
    using assms(3) by (intro from_to_le_bytes max_frame_len_u32)
  then have "read_message rd fb s = (Inr m, s2)"
    using s1(1) s2(1) assms(3,4) by (simp add: read_message_def)
  then show thesis using s2(2) by (rule that)
qed

lemma write_frame:
  assumes "appends wr view" and "encode te m = Inr bs" and "length bs < 2 ^ 32"
  obtains s' where "write_message wr te s m = Some (Inr (), s')" and "view s' = view s @ frame bs"
proof -
  obtain s1 where s1: "wr s (to_le_bytes (length bs)) = (Inr (), s1)" "view s1 = view s @ to_le_bytes (length bs)"
    using assms(1) by (metis appends_def prod.collapse)
  obtain s2 where s2: "wr s1 bs = (Inr (), s2)" "view s2 = view s1 @ bs"
    using assms(1) by (metis appends_def prod.collapse)
  have "write_message wr te s m = Some (Inr (), s2)"
    using assms(2,3) s1(1) s2(1) by (simp add: write_message_def)
  then show thesis using s1(2) s2(2) by (intro that [of s2]) (simp_all add: frame_def)
qed

section \<open>Streams of messages\<close>

fun write_all_messages where
  "write_all_messages wr te s [] = Some (Inr (), s)"
| "write_all_messages wr te s (m # ms) =
     (case write_message wr te s m of
        None \<Rightarrow> None
      | Some (Inl e, s') \<Rightarrow> Some (Inl e, s')
      | Some (Inr _, s') \<Rightarrow> write_all_messages wr te s' ms)"

fun read_messages where
  "read_messages rd fb 0 s = (Inr [], s)"
| "read_messages rd fb (Suc n) s =
     (case read_message rd fb s of
        (Inl e, s') \<Rightarrow> (Inl e, s')
      | (Inr m, s') \<Rightarrow>
          (case read_messages rd fb n s' of
             (Inl e, s'') \<Rightarrow> (Inl e, s'')
           | (Inr ms, s'') \<Rightarrow> (Inr (m # ms), s'')))"

definition frames :: "(message \<Rightarrow> 'e + u8 list) \<Rightarrow> message list \<Rightarrow> u8 list" where
  "frames te ms = concat (map (\<lambda>m. case te m of Inl _ \<Rightarrow> [] | Inr bs \<Rightarrow> frame bs) ms)"

lemma write_all_messages_frames:
  assumes "appends wr view"
  shows "\<forall>m \<in> set ms. fits te fb m \<Longrightarrow>
    \<exists>s'. write_all_messages wr te s ms = Some (Inr (), s') \<and> view s' = view s @ frames te ms"
proof (induction ms arbitrary: s)
  case Nil
  then show ?case by (simp add: frames_def)
next
  case (Cons m ms)
  then obtain bs where bs: "te m = Inr bs" "encode te m = Inr bs" "length bs \<le> max_frame_len"
    by (auto elim: fitsE)
  obtain s1 where s1: "write_message wr te s m = Some (Inr (), s1)" "view s1 = view s @ frame bs"
    using write_frame [OF assms bs(2) max_frame_len_u32 [OF bs(3)]] by blast
  obtain s2 where "write_all_messages wr te s1 ms = Some (Inr (), s2)" "view s2 = view s1 @ frames te ms"
    using Cons.IH [of s1] Cons.prems by auto
  with s1 bs(1) show ?case by (simp add: frames_def)
qed

lemma read_messages_frames:
  assumes "takes_in_order rd view"
  shows "\<forall>m \<in> set ms. fits te fb m \<Longrightarrow> view s = frames te ms @ rest \<Longrightarrow>
    \<exists>s'. read_messages rd fb (length ms) s = (Inr ms, s') \<and> view s' = rest"
proof (induction ms arbitrary: s)
  case Nil
  then show ?case by (simp add: frames_def)
next
  case (Cons m ms)
  then obtain bs where bs: "te m = Inr bs" "decode fb bs = Inr m" "length bs \<le> max_frame_len"
    by (auto elim: fitsE)
  then have "view s = frame bs @ frames te ms @ rest"
    using Cons.prems(2) by (simp add: frames_def)
  then obtain s1 where s1: "read_message rd fb s = (Inr m, s1)" "view s1 = frames te ms @ rest"
    using read_frame [OF assms _ bs(3,2)] by blast
  obtain s2 where "read_messages rd fb (length ms) s1 = (Inr ms, s2)" "view s2 = rest"
    using Cons.IH [of s1] Cons.prems(1) s1(2) by auto
  with s1 show ?case by simp
qed

text \<open>
  C33. Framing is transparent: on a reliable stream, any sequence of messages that \<open>postcard\<close>
  round-trips in at most a mebibyte each is written without an error and read back as the same
  sequence in the same order, with nothing of the stream left over and nothing lost.
\<close>

theorem framing_roundtrip:
  assumes "appends wr view" and "takes_in_order rd view"
    and "\<forall>m \<in> set ms. fits te fb m" and "view s = []"
  shows "\<exists>s1 s2. write_all_messages wr te s ms = Some (Inr (), s1) \<and>
    read_messages rd fb (length ms) s1 = (Inr ms, s2) \<and> view s2 = []"
proof -
  obtain s1 where s1: "write_all_messages wr te s ms = Some (Inr (), s1)" "view s1 = frames te ms @ []"
    using write_all_messages_frames [OF assms(1,3), of s] assms(4) by auto
  obtain s2 where "read_messages rd fb (length ms) s1 = (Inr ms, s2)" and "view s2 = []"
    using read_messages_frames [OF assms(2,3) s1(2)] by auto
  with s1(1) show ?thesis by auto
qed

text \<open>A stream as the list of the bytes in flight, and a codec for pings, as an instance.\<close>

definition pipe_write :: "u8 list \<Rightarrow> u8 list \<Rightarrow> (string + unit) \<times> u8 list" where
  "pipe_write s bs = (Inr (), s @ bs)"

definition pipe_read :: "u8 list \<Rightarrow> nat \<Rightarrow> (string + u8 list) \<times> u8 list" where
  "pipe_read s n = (if n \<le> length s then (Inr (take n s), drop n s) else (Inl ''finished early'', []))"

definition ping_enc :: "message \<Rightarrow> string + u8 list" where
  "ping_enc m = (case m of Ping n \<Rightarrow> Inr [1, ucast n] | Pong n \<Rightarrow> Inr [2, ucast n] | _ \<Rightarrow> Inl ''unsupported'')"

definition ping_dec :: "u8 list \<Rightarrow> string + message" where
  "ping_dec bs =
     (case bs of
        [t, n] \<Rightarrow> if t = 1 then Inr (Ping (ucast n)) else if t = 2 then Inr (Pong (ucast n)) else Inl ''bad tag''
      | _ \<Rightarrow> Inl ''bad length'')"

lemma pipe_appends: "appends pipe_write (\<lambda>s. s)"
  by (simp add: appends_def pipe_write_def)

lemma pipe_takes_in_order: "takes_in_order pipe_read (\<lambda>s. s)"
  by (simp add: takes_in_order_def pipe_read_def)

theorem framing_roundtrip_witness:
  "\<exists>s1 s2. write_all_messages pipe_write ping_enc [] [Ping 7, Pong 200] = Some (Inr (), s1) \<and>
     read_messages pipe_read ping_dec (length [Ping 7, Pong 200]) s1 = (Inr [Ping 7, Pong 200], s2) \<and> s2 = []"
  by (rule framing_roundtrip [OF pipe_appends pipe_takes_in_order, of "[Ping 7, Pong 200]" ping_enc ping_dec "[]"])
    (simp_all add: fits_def codec_ok_def ping_enc_def ping_dec_def max_frame_len_def)

section \<open>The allocation guard\<close>

text \<open>
  C34. The allocation guard: whatever the peer sends, \<open>read_message\<close> never asks the stream for
  more than a mebibyte at once, so what the stream would do for larger requests cannot be
  observed through it; and a header above the limit is refused with the claimed length, with
  only the four header bytes consumed.
\<close>

theorem read_message_bounded:
  assumes "\<forall>s n. n \<le> 1048576 \<longrightarrow> rd s n = rd' s n"
  shows "read_message rd fb s = read_message rd' fb s \<and>
    (\<forall>hdr s1. rd s 4 = (Inr hdr, s1) \<longrightarrow> 1048576 < from_le_bytes hdr \<longrightarrow>
       read_message rd fb s = (Inl (FrameTooLarge (of_nat (from_le_bytes hdr))), s1))"
proof -
  have "rd s 4 = rd' s 4"
    using assms by simp
  moreover have "\<not> max_frame_len < n \<Longrightarrow> rd s1 n = rd' s1 n" for s1 n
    using assms by (simp add: max_frame_len_def)
  ultimately have "read_message rd fb s = read_message rd' fb s"
    unfolding read_message_def Let_def by (auto split: prod.splits sum.splits)
  then show ?thesis
    by (simp add: read_message_def max_frame_len_def)
qed

theorem read_message_bounded_witness:
  "read_message pipe_read ping_dec [255, 255, 255, 255] = (Inl (FrameTooLarge 4294967295), [])"
proof -
  have "pipe_read [255, 255, 255, 255] 4 = (Inr [255, 255, 255, 255], [])"
    by (simp add: pipe_read_def)
  moreover have "from_le_bytes [255, 255, 255, 255] = 4294967295"
    by (simp add: from_le_bytes_def)
  moreover have "\<forall>s n. n \<le> 1048576 \<longrightarrow> pipe_read s n = pipe_read s n"
    by simp
  from read_message_bounded [OF this, of ping_dec "[255, 255, 255, 255]"]
  show ?thesis using calculation by simp
qed

end
