(* ===== verification/Session.thy ===== *)
theory Session
  imports Connection Framing
begin

text \<open>
  \<open>crates/net/src/session.rs\<close>: the task that drives one connection. It owns the control stream
  and the connection machine, and waits in a \<open>select!\<close> for the first of four things: a message
  read from the stream, a clock tick, a command from outside, the end of the connection. Which
  one comes next is the environment's choice, so a run is a list of inputs.

  The third-party functions (\<open>quinn\<close>'s streams, \<open>postcard\<close>, the texts of their errors) are the
  fields of \<open>io_api\<close>; \<open>'s\<close> and \<open>'r\<close> are the states of the sending and the receiving stream.
\<close>

datatype close_reason =
    CloseVersionMismatch u16 u16
  | CloseKeepaliveTimedOut
  | ConnectionLost string
  | CloseFramingError string

datatype session_event =
    EvPeerHandshake device_id string "capability list" "token_bytes option"
  | EvPonged duration
  | EvClipboardReceived clip
  | EvClosed close_reason

datatype session_command = CmdSendClipboard clip

record ('s, 'r, 'q, 'e) io_api =
  io_write_all :: "'s \<Rightarrow> u8 list \<Rightarrow> ('q + unit) \<times> 's"
  io_read_exact :: "'r \<Rightarrow> nat \<Rightarrow> ('q + u8 list) \<times> 'r"
  io_to_allocvec :: "message \<Rightarrow> 'e + u8 list"
  io_from_bytes :: "u8 list \<Rightarrow> 'e + message"
  io_show_read :: "'q \<Rightarrow> string"
  io_show_framing :: "('q, 'e) framing_error \<Rightarrow> string"

section \<open>\<open>run_actions\<close>\<close>

text \<open>
  The events sent on the channel, whether the session goes on, and the stream; \<open>None\<close> is a
  panic of \<open>write_message\<close>.
\<close>

fun run_actions ::
  "('s, 'r, 'q, 'e) io_api \<Rightarrow> action list \<Rightarrow> 's \<Rightarrow> (session_event list \<times> bool \<times> 's) option" where
  "run_actions io [] s = Some ([], True, s)"
| "run_actions io (Send msg # as) s =
     (case write_message (io_write_all io) (io_to_allocvec io) s msg of
        None \<Rightarrow> None
      | Some (Inl e, s') \<Rightarrow> Some ([EvClosed (CloseFramingError (io_show_framing io e))], False, s')
      | Some (Inr _, s') \<Rightarrow> run_actions io as s')"
| "run_actions io (PeerHandshake i nm caps tok # as) s =
     map_option (\<lambda>(evs, r). (EvPeerHandshake i nm caps tok # evs, r)) (run_actions io as s)"
| "run_actions io (Ponged rtt # as) s =
     map_option (\<lambda>(evs, r). (EvPonged rtt # evs, r)) (run_actions io as s)"
| "run_actions io (PeerClipboard clip # as) s =
     map_option (\<lambda>(evs, r). (EvClipboardReceived clip # evs, r)) (run_actions io as s)"
| "run_actions io (KeepaliveTimedOut # as) s = Some ([EvClosed CloseKeepaliveTimedOut], False, s)"
| "run_actions io (Reject (VersionMismatch ours theirs) # as) s =
     Some ([EvClosed (CloseVersionMismatch ours theirs)], False, s)"

section \<open>\<open>drive\<close>\<close>

record ('s, 'r) driver =
  dr_machine :: machine
  dr_send :: 's
  dr_recv :: 'r
  dr_commands_open :: bool
  dr_running :: bool
  dr_closed_by_us :: bool

text \<open>
  What wakes the \<open>select!\<close>. A branch that wins drops the read that was under way, and the
  bytes it had already taken from the stream with it: \<open>read_exact\<close> is documented not to be
  cancel safe. The inputs of the other branches carry that number of bytes.
\<close>

datatype wake =
    ReadCompletes
  | Ticks instant nat
  | CommandArrives "session_command option" nat
  | ConnectionCloses string

type_synonym wake_input = "wake \<times> u64 \<times> instant"

definition drop_read :: "('s, 'r, 'q, 'e) io_api \<Rightarrow> nat \<Rightarrow> 'r \<Rightarrow> 'r" where
  "drop_read io k r = (if k = 0 then r else snd (io_read_exact io r k))"

text \<open>Feed an event to the machine and carry out its actions; the task returns when told to.\<close>

definition feed ::
  "('s, 'r, 'q, 'e) io_api \<Rightarrow> ('s, 'r) driver \<Rightarrow> event \<Rightarrow> u64 \<Rightarrow> instant
     \<Rightarrow> (session_event list \<times> ('s, 'r) driver) option" where
  "feed io d ev nonce clock =
     (case handle (dr_machine d) ev nonce clock of
        None \<Rightarrow> None
      | Some (as, m') \<Rightarrow>
          (case run_actions io as (dr_send d) of
             None \<Rightarrow> None
           | Some (evs, goes_on, s') \<Rightarrow>
               Some (evs, d\<lparr>dr_machine := m', dr_send := s', dr_running := goes_on\<rparr>)))"

definition close_with :: "('s, 'r) driver \<Rightarrow> close_reason \<Rightarrow> (session_event list \<times> ('s, 'r) driver) option" where
  "close_with d reason = Some ([EvClosed reason], d\<lparr>dr_running := False\<rparr>)"

definition drive_step ::
  "('s, 'r, 'q, 'e) io_api \<Rightarrow> ('s, 'r) driver \<Rightarrow> wake_input \<Rightarrow> (session_event list \<times> ('s, 'r) driver) option" where
  "drive_step io d w =
     (if \<not> dr_running d then Some ([], d)
      else case w of
        (ReadCompletes, nonce, clock) \<Rightarrow>
          (case read_message (io_read_exact io) (io_from_bytes io) (dr_recv d) of
             (Inr msg, r') \<Rightarrow> feed io (d\<lparr>dr_recv := r'\<rparr>) (Received msg) nonce clock
           | (Inl (Read e), r') \<Rightarrow> close_with (d\<lparr>dr_recv := r'\<rparr>) (ConnectionLost (io_show_read io e))
           | (Inl e, r') \<Rightarrow>
               close_with (d\<lparr>dr_recv := r', dr_closed_by_us := True\<rparr>) (CloseFramingError (io_show_framing io e)))
      | (Ticks now k, nonce, clock) \<Rightarrow> feed io (d\<lparr>dr_recv := drop_read io k (dr_recv d)\<rparr>) (Tick now) nonce clock
      | (CommandArrives c k, nonce, clock) \<Rightarrow>
          if \<not> dr_commands_open d then Some ([], d)
          else (case c of
             Some (CmdSendClipboard clip) \<Rightarrow>
               feed io (d\<lparr>dr_recv := drop_read io k (dr_recv d)\<rparr>) (SendClipboard clip) nonce clock
           | None \<Rightarrow> Some ([], d\<lparr>dr_recv := drop_read io k (dr_recv d), dr_commands_open := False\<rparr>))
      | (ConnectionCloses reason, _) \<Rightarrow> close_with d (ConnectionLost reason))"

text \<open>\<open>Session::spawn\<close> and the first lines of \<open>drive\<close>: our handshake goes out first.\<close>

definition new_driver :: "local_identity \<Rightarrow> duration \<Rightarrow> token_bytes option \<Rightarrow> 's \<Rightarrow> 'r \<Rightarrow> ('s, 'r) driver" where
  "new_driver loc interval tok s r =
     \<lparr>dr_machine = new_machine loc interval tok, dr_send = s, dr_recv = r, dr_commands_open = True,
      dr_running = True, dr_closed_by_us = False\<rparr>"

definition drive ::
  "('s, 'r, 'q, 'e) io_api \<Rightarrow> ('s, 'r) driver \<Rightarrow> u64 \<times> instant \<Rightarrow> wake_input list
     \<Rightarrow> (session_event list \<times> ('s, 'r) driver) option" where
  "drive io d start ws =
     (case feed io d Started (fst start) (snd start) of
        None \<Rightarrow> None
      | Some (evs, d1) \<Rightarrow>
          (case run_steps (drive_step io) d1 ws of
             None \<Rightarrow> None
           | Some (evs', d2) \<Rightarrow> Some (evs @ evs', d2)))"

text \<open>\<open>Session::drain\<close>: the events handed to the callback and the reason of the first close.\<close>

fun drain :: "session_event list \<Rightarrow> session_event list \<times> close_reason option" where
  "drain [] = ([], None)"
| "drain (EvClosed r # evs) = ([EvClosed r], Some r)"
| "drain (ev # evs) = (case drain evs of (out, reason) \<Rightarrow> (ev # out, reason))"

section \<open>What a session promises\<close>

text \<open>
  The abstract session: the peer is introduced, then there is traffic, and one close ends it.
\<close>

datatype session_view = Handshaking | Established | Over

fun session_spec :: "session_view \<Rightarrow> session_event \<Rightarrow> session_view option" where
  "session_spec Handshaking (EvPeerHandshake i nm caps tok) = Some Established"
| "session_spec Established (EvPonged rtt) = Some Established"
| "session_spec Established (EvClipboardReceived clip) = Some Established"
| "session_spec Handshaking (EvClosed r) = Some Over"
| "session_spec Established (EvClosed r) = Some Over"
| "session_spec v ev = None"

definition session_abs :: "('s, 'r) driver \<Rightarrow> session_view" where
  "session_abs d =
     (if \<not> dr_running d then Over
      else case phase (dr_machine d) of AwaitingPeerHandshake \<Rightarrow> Handshaking | Ready \<Rightarrow> Established)"

text \<open>An event of the machine gives at most one action, and only in the phase for it.\<close>

lemma handle_actions:
  assumes "handle m ev nonce clock = Some (as, m')"
  shows "(as = [] \<and> phase m' = phase m) \<or> (\<exists>msg. as = [Send msg] \<and> phase m' = phase m) \<or>
    (\<exists>i nm caps tok. as = [PeerHandshake i nm caps tok] \<and> phase m = AwaitingPeerHandshake \<and> phase m' = Ready) \<or>
    (phase m = Ready \<and> phase m' = Ready \<and>
       ((\<exists>rtt. as = [Ponged rtt]) \<or> (\<exists>clip. as = [PeerClipboard clip]) \<or> as = [KeepaliveTimedOut])) \<or>
    (\<exists>r. as = [Reject r])"
proof (cases ev)
  case Started
  with assms show ?thesis by auto
next
  case (Received msg)
  then have "on_received m msg clock = (as, m')"
    using assms by simp
  then show ?thesis
    unfolding on_received.simps by (auto split: handler_splits)
next
  case (Tick now)
  then have "on_tick m now nonce = Some (as, m')"
    using assms by simp
  then show ?thesis
    unfolding on_tick_def by (auto split: handler_splits)
next
  case (SendClipboard clip)
  with assms show ?thesis by (auto split: if_splits)
qed

lemma run_actions_send:
  assumes "run_actions io [Send msg] s = Some (evs, goes_on, s')"
  shows "(evs = [] \<and> goes_on) \<or> (\<exists>r. evs = [EvClosed r] \<and> \<not> goes_on)"
  using assms by (auto split: option.splits prod.splits sum.splits)

lemma feed_refines:
  assumes "feed io d ev nonce clock = Some (evs, d')" and "dr_running d"
  shows "spec_run session_spec (session_abs d) evs = Some (session_abs d')"
proof -
  obtain as m' goes_on s' where h: "handle (dr_machine d) ev nonce clock = Some (as, m')"
    and ra: "run_actions io as (dr_send d) = Some (evs, goes_on, s')"
    and d': "d' = d\<lparr>dr_machine := m', dr_send := s', dr_running := goes_on\<rparr>"
    using assms(1) by (auto simp: feed_def split: option.splits)
  consider (none) "as = []" "phase m' = phase (dr_machine d)"
    | (send) msg where "as = [Send msg]" "phase m' = phase (dr_machine d)"
    | (peer) i nm caps tok where "as = [PeerHandshake i nm caps tok]"
        "phase (dr_machine d) = AwaitingPeerHandshake" "phase m' = Ready"
    | (traffic) "phase (dr_machine d) = Ready" "phase m' = Ready"
        "(\<exists>rtt. as = [Ponged rtt]) \<or> (\<exists>clip. as = [PeerClipboard clip]) \<or> as = [KeepaliveTimedOut]"
    | (reject) r where "as = [Reject r]"
    using handle_actions [OF h] by blast
  then show ?thesis
  proof cases
    case send
    then show ?thesis
      using run_actions_send [of io msg "dr_send d" evs goes_on s'] ra d' assms(2)
      by (auto simp: session_abs_def split: phase.splits)
  next
    case (reject r)
    then show ?thesis
      using ra d' assms(2) by (cases r) (auto simp: session_abs_def split: phase.splits)
  qed (use ra d' assms(2) in \<open>auto simp: session_abs_def\<close>)
qed

lemma session_abs_recv [simp]:
  "session_abs (d\<lparr>dr_recv := r\<rparr>) = session_abs d"
  "session_abs (d\<lparr>dr_recv := r, dr_closed_by_us := b\<rparr>) = session_abs d"
  "session_abs (d\<lparr>dr_recv := r, dr_commands_open := b\<rparr>) = session_abs d"
  by (simp_all add: session_abs_def)

lemma close_refines:
  "close_with d r = Some (evs, d') \<Longrightarrow> dr_running d \<Longrightarrow>
     spec_run session_spec (session_abs d) evs = Some (session_abs d')"
  by (auto simp: close_with_def session_abs_def split: phase.splits)

text \<open>What a turn of the loop did: nothing that shows, an event fed to the machine, or the end.\<close>

lemma drive_stepE:
  assumes "drive_step io d w = Some (evs, d')"
  obtains (quiet) "evs = []" "session_abs d' = session_abs d"
    | (fed) e ev nonce clock where "feed io e ev nonce clock = Some (evs, d')" "dr_running e" "session_abs e = session_abs d"
    | (closed) e reason where "close_with e reason = Some (evs, d')" "dr_running e" "session_abs e = session_abs d"
proof (cases "dr_running d")
  case False
  with assms show thesis by (intro quiet) (simp_all add: drive_step_def)
next
  case True
  obtain k nonce clock where "w = (k, nonce, clock)"
    by (cases w)
  with True assms show thesis
    by (cases k)
      (auto simp: drive_step_def split: if_splits prod.splits sum.splits framing_error.splits option.splits session_command.splits
        intro: quiet fed closed)
qed

lemma drive_step_refines:
  assumes "drive_step io d w = Some (evs, d')"
  shows "spec_run session_spec (session_abs d) evs = Some (session_abs d')"
  using assms
proof (cases rule: drive_stepE)
  case (fed e ev nonce clock)
  then show ?thesis
    using feed_refines by metis
next
  case (closed e reason)
  then show ?thesis
    using close_refines by metis
qed simp

interpretation session: refining_machine "drive_step io" "\<lambda>_. True" session_abs session_spec
  by unfold_locales (simp_all add: drive_step_refines)

lemma drive_refines:
  assumes "drive io d start ws = Some (evs, d')" and "dr_running d"
  shows "spec_run session_spec (session_abs d) evs = Some (session_abs d')"
proof -
  obtain evs1 d1 evs2 where f: "feed io d Started (fst start) (snd start) = Some (evs1, d1)"
    and r: "run_steps (drive_step io) d1 ws = Some (evs2, d')" and evs: "evs = evs1 @ evs2"
    using assms(1) by (auto simp: drive_def split: option.splits)
  show ?thesis
    using feed_refines [OF f assms(2)] session.run_refines [OF TrueI r] by (simp add: evs spec_run_append)
qed

section \<open>One close, and it is the last event\<close>

definition is_close :: "session_event \<Rightarrow> bool" where
  "is_close ev = (case ev of EvClosed _ \<Rightarrow> True | _ \<Rightarrow> False)"

definition is_peer :: "session_event \<Rightarrow> bool" where
  "is_peer ev = (case ev of EvPeerHandshake _ _ _ _ \<Rightarrow> True | _ \<Rightarrow> False)"

lemmas event_kinds = is_close_def is_peer_def

lemma session_spec_over: "spec_run session_spec Over evs = Some v \<Longrightarrow> evs = [] \<and> v = Over"
  by (cases evs) auto

lemma session_spec_established:
  "spec_run session_spec Established evs = Some v \<Longrightarrow>
     filter is_peer evs = [] \<and>
     ((v = Established \<and> filter is_close evs = [] \<and> drain evs = (evs, None)) \<or>
      (v = Over \<and> (\<exists>pre r. evs = pre @ [EvClosed r] \<and> filter is_close pre = [] \<and> drain evs = (evs, Some r))))"
proof (induction evs)
  case Nil
  then show ?case by simp
next
  case (Cons ev evs)
  show ?case
  proof (cases ev)
    case (EvClosed r)
    then show ?thesis
      using Cons.prems session_spec_over [of evs v] by (auto simp: event_kinds)
  next
    case (EvPeerHandshake i nm caps tok)
    then show ?thesis using Cons.prems by simp
  next
    case (EvPonged rtt)
    then have "spec_run session_spec Established evs = Some v"
      using Cons.prems by simp
    from Cons.IH [OF this] EvPonged show ?thesis
      by (auto simp: event_kinds intro!: exI [of _ "EvPonged rtt # _"])
  next
    case (EvClipboardReceived clip)
    then have "spec_run session_spec Established evs = Some v"
      using Cons.prems by simp
    from Cons.IH [OF this] EvClipboardReceived show ?thesis
      by (auto simp: event_kinds intro!: exI [of _ "EvClipboardReceived clip # _"])
  qed
qed

lemma session_spec_handshaking:
  assumes "spec_run session_spec Handshaking evs = Some v"
  obtains "v = Handshaking" "evs = []"
    | r where "v = Over" "evs = [EvClosed r]"
    | i nm caps tok evs' where "evs = EvPeerHandshake i nm caps tok # evs'"
        "spec_run session_spec Established evs' = Some v"
proof (cases evs)
  case Nil
  with assms show thesis by (intro that(1)) simp_all
next
  case (Cons ev evs')
  show thesis
  proof (cases ev)
    case (EvClosed r)
    then show thesis
      using assms Cons session_spec_over [of evs' v] by (intro that(2) [of r]) auto
  next
    case (EvPeerHandshake i nm caps tok)
    then show thesis
      using assms Cons by (intro that(3) [of i nm caps tok evs']) auto
  qed (use assms Cons in simp_all)
qed

text \<open>
  C13. The life of a session. Whatever the peer sends, however the clock ticks, whatever is
  commanded and however writes fail: as long as the driving task runs no close has been
  reported, and when it has returned exactly one close was, as the very last event, so that
  draining the session delivers every event and returns that reason. The peer is introduced
  at most once, and before any other news of it.
\<close>

theorem session_lifecycle:
  assumes "drive io (new_driver loc interval tok s r) start ws = Some (evs, d')"
  shows "(dr_running d' \<longrightarrow> filter is_close evs = [] \<and> drain evs = (evs, None)) \<and>
    (\<not> dr_running d' \<longrightarrow>
       (\<exists>pre reason. evs = pre @ [EvClosed reason] \<and> filter is_close pre = [] \<and> drain evs = (evs, Some reason))) \<and>
    (evs = [] \<or> (\<exists>reason. evs = [EvClosed reason]) \<or>
       (\<exists>i nm caps t evs'. evs = EvPeerHandshake i nm caps t # evs' \<and> filter is_peer evs' = []))"
proof -
  have "spec_run session_spec Handshaking evs = Some (session_abs d')"
    using drive_refines [OF assms] by (simp add: session_abs_def new_driver_def new_machine_def)
  then show ?thesis
  proof (cases rule: session_spec_handshaking)
    case 1
    then have "dr_running d'"
      by (auto simp: session_abs_def split: if_splits)
    with 1 show ?thesis by simp
  next
    case (2 reason)
    then have "\<not> dr_running d'"
      by (auto simp: session_abs_def split: if_splits phase.splits)
    with 2 show ?thesis by (auto intro!: exI [of _ "[]"])
  next
    case (3 i nm caps t evs')
    have running: "dr_running d' \<longleftrightarrow> session_abs d' \<noteq> Over"
      by (auto simp: session_abs_def split: phase.splits)
    note est = session_spec_established [OF 3(2)]
    then have peer: "filter is_peer evs' = []" by simp
    from est show ?thesis
    proof (elim conjE disjE exE)
      assume "session_abs d' = Established" "filter is_close evs' = []" "drain evs' = (evs', None)"
      with 3(1) running peer show ?thesis by (simp add: event_kinds)
    next
      fix pre reason
      assume "session_abs d' = Over" "evs' = pre @ [EvClosed reason]" "filter is_close pre = []"
        "drain evs' = (evs', Some reason)"
      with 3(1) running peer show ?thesis
        by (auto simp: event_kinds intro!: exI [of _ "EvPeerHandshake i nm caps t # pre"])
    qed
  qed
qed

text \<open>In-memory pipes and a small codec, as an instance of the third-party functions.\<close>

definition demo_clip :: "u8 list \<Rightarrow> clip" where
  "demo_clip bs = \<lparr>mime = mime_text_plain, content = bs, hash = bs\<rparr>"

definition pipe_io :: "(u8 list, u8 list, string, string) io_api" where
  "pipe_io =
     \<lparr>io_write_all = pipe_write, io_read_exact = pipe_read,
      io_to_allocvec =
        (\<lambda>m. case m of Handshake _ \<Rightarrow> Inr [0] | Clipboard c \<Rightarrow> Inr (3 # clip.content c) | _ \<Rightarrow> ping_enc m),
      io_from_bytes =
        (\<lambda>bs. if bs = [0] then Inr (Handshake demo_handshake)
              else if take 1 bs = [3] then Inr (Clipboard (demo_clip (drop 1 bs)))
              else ping_dec bs),
      io_show_read = (\<lambda>e. e), io_show_framing = (\<lambda>_. ''framing'')\<rparr>"

theorem session_lifecycle_witness:
  "drain [EvPeerHandshake (replicate 32 2) ''pixel'' [] None, EvClosed (ConnectionLost ''bye'')]
    = ([EvPeerHandshake (replicate 32 2) ''pixel'' [] None, EvClosed (ConnectionLost ''bye'')],
       Some (ConnectionLost ''bye''))"
proof -
  have "read_message pipe_read (io_from_bytes pipe_io) [1, 0, 0, 0, 0] = (Inr (Handshake demo_handshake), [])"
    by (simp add: read_message_def pipe_read_def from_le_bytes_def max_frame_len_def pipe_io_def decode_def)
  then have "\<exists>d'. drive pipe_io (new_driver demo_identity 20 None [] [1, 0, 0, 0, 0]) (0, 0)
      [(ReadCompletes, 0, 0), (ConnectionCloses ''bye'', 0, 0), (Ticks 5 0, 0, 0)]
    = Some ([EvPeerHandshake (replicate 32 2) ''pixel'' [] None, EvClosed (ConnectionLost ''bye'')], d')
    \<and> \<not> dr_running d'"
    by (simp add: drive_def feed_def new_driver_def new_machine_def drive_step_def close_with_def
        write_message_def encode_def pipe_io_def pipe_write_def demo_handshake_def protocol_version_def)
  then obtain d' where "drive pipe_io (new_driver demo_identity 20 None [] [1, 0, 0, 0, 0]) (0, 0)
      [(ReadCompletes, 0, 0), (ConnectionCloses ''bye'', 0, 0), (Ticks 5 0, 0, 0)]
    = Some ([EvPeerHandshake (replicate 32 2) ''pixel'' [] None, EvClosed (ConnectionLost ''bye'')], d')"
    and "\<not> dr_running d'" by blast
  from session_lifecycle [OF this(1)] this(2) show ?thesis by auto
qed

section \<open>Clipboard updates end to end\<close>

definition ready :: "('s, 'r) driver \<Rightarrow> bool" where
  "ready d \<longleftrightarrow> dr_running d \<and> dr_commands_open d \<and> phase (dr_machine d) = Ready"

definition send_inputs :: "(clip \<times> u64 \<times> instant) list \<Rightarrow> wake_input list" where
  "send_inputs sends = map (\<lambda>(clip, stamp). (CommandArrives (Some (CmdSendClipboard clip)) 0, stamp)) sends"

lemma send_step:
  assumes "ready d" and "appends (io_write_all io) vs"
    and "fits (io_to_allocvec io) (io_from_bytes io) (Clipboard clip)"
  obtains d' where "drive_step io d (CommandArrives (Some (CmdSendClipboard clip)) 0, stamp) = Some ([], d')"
    and "ready d'" and "vs (dr_send d') = vs (dr_send d) @ frames (io_to_allocvec io) [Clipboard clip]"
proof -
  obtain bs where bs: "io_to_allocvec io (Clipboard clip) = Inr bs"
      "encode (io_to_allocvec io) (Clipboard clip) = Inr bs" "length bs \<le> max_frame_len"
    using assms(3) by (auto elim: fitsE)
  obtain s' where s': "write_message (io_write_all io) (io_to_allocvec io) (dr_send d) (Clipboard clip) = Some (Inr (), s')"
      "vs s' = vs (dr_send d) @ frame bs"
    using write_frame [OF assms(2) bs(2) max_frame_len_u32 [OF bs(3)]] by blast
  obtain n c where "stamp = (n, c)"
    by (cases stamp)
  then have "drive_step io d (CommandArrives (Some (CmdSendClipboard clip)) 0, stamp)
      = Some ([], d\<lparr>dr_send := s'\<rparr>)"
    using assms(1) s'(1) by (simp add: drive_step_def ready_def feed_def drop_read_def)
  then show thesis
    using assms(1) s'(2) bs(1) by (intro that [of "d\<lparr>dr_send := s'\<rparr>"]) (simp_all add: ready_def frames_def)
qed

lemma frames_Cons: "frames te (m # ms) = frames te [m] @ frames te ms"
  by (simp add: frames_def)

lemma send_run:
  assumes "appends (io_write_all io) vs"
  shows "ready d \<Longrightarrow> \<forall>clip \<in> fst ` set sends. fits (io_to_allocvec io) (io_from_bytes io) (Clipboard clip) \<Longrightarrow>
    \<exists>d'. run_steps (drive_step io) d (send_inputs sends) = Some ([], d') \<and>
      vs (dr_send d') = vs (dr_send d) @ frames (io_to_allocvec io) (map (\<lambda>x. Clipboard (fst x)) sends)"
proof (induction sends arbitrary: d)
  case Nil
  then show ?case by (simp add: send_inputs_def frames_def)
next
  case (Cons x sends)
  obtain clip stamp where x: "x = (clip, stamp)"
    by (cases x)
  obtain d1 where d1: "drive_step io d (CommandArrives (Some (CmdSendClipboard clip)) 0, stamp) = Some ([], d1)"
      "ready d1" "vs (dr_send d1) = vs (dr_send d) @ frames (io_to_allocvec io) [Clipboard clip]"
    using Cons.prems x by (auto elim: send_step [OF _ assms])
  obtain d2 where "run_steps (drive_step io) d1 (send_inputs sends) = Some ([], d2)"
      "vs (dr_send d2) = vs (dr_send d1) @ frames (io_to_allocvec io) (map (\<lambda>x. Clipboard (fst x)) sends)"
    using Cons.IH [OF d1(2)] Cons.prems(2) by auto
  with d1 show ?case
    by (simp add: send_inputs_def x frames_Cons [of _ _ "map (\<lambda>x. Clipboard (fst x)) sends"])
qed

lemma receive_run:
  assumes "takes_in_order (io_read_exact io) vr"
  shows "ready d \<Longrightarrow> \<forall>clip \<in> set clips. fits (io_to_allocvec io) (io_from_bytes io) (Clipboard clip) \<Longrightarrow>
    vr (dr_recv d) = frames (io_to_allocvec io) (map Clipboard clips) @ rest \<Longrightarrow> length stamps = length clips \<Longrightarrow>
    \<exists>d'. run_steps (drive_step io) d (map (Pair ReadCompletes) stamps) = Some (map EvClipboardReceived clips, d') \<and>
      ready d' \<and> vr (dr_recv d') = rest"
proof (induction clips arbitrary: d stamps)
  case Nil
  then show ?case by (simp add: frames_def)
next
  case (Cons clip clips)
  obtain n c stamps' where stamps: "stamps = (n, c) # stamps'" "length stamps' = length clips"
    using Cons.prems(4) by (cases stamps) auto
  obtain bs where bs: "io_to_allocvec io (Clipboard clip) = Inr bs"
      "decode (io_from_bytes io) bs = Inr (Clipboard clip)" "length bs \<le> max_frame_len"
    using Cons.prems(2) by (auto elim: fitsE)
  then have "vr (dr_recv d) = frame bs @ frames (io_to_allocvec io) (map Clipboard clips) @ rest"
    using Cons.prems(3) by (simp add: frames_def)
  then obtain r1 where r1: "read_message (io_read_exact io) (io_from_bytes io) (dr_recv d)
        = (Inr (Clipboard clip), r1)"
      "vr r1 = frames (io_to_allocvec io) (map Clipboard clips) @ rest"
    using read_frame [OF assms _ bs(3,2)] by blast
  define d1 where "d1 = d\<lparr>dr_recv := r1\<rparr>"
  have step: "drive_step io d (ReadCompletes, n, c) = Some ([EvClipboardReceived clip], d1)"
    using Cons.prems(1) r1(1) by (simp add: drive_step_def ready_def feed_def d1_def)
  have "ready d1" "vr (dr_recv d1) = frames (io_to_allocvec io) (map Clipboard clips) @ rest"
    using Cons.prems(1) r1(2) by (simp_all add: ready_def d1_def)
  then obtain d2 where "run_steps (drive_step io) d1 (map (Pair ReadCompletes) stamps') = Some (map EvClipboardReceived clips, d2)"
      "ready d2" "vr (dr_recv d2) = rest"
    using Cons.IH [of d1 stamps'] Cons.prems(2) stamps(2) by auto
  with step show ?case by (simp add: stamps)
qed

text \<open>
  Clipboard updates arrive. Clips queued on one established session are written, read by the
  other side's session and reported there: all of them, unchanged, in the order in which
  they were queued, with the session still open and nothing left in the stream.
\<close>

theorem clips_delivered:
  assumes "ready sender"
    and "appends (io_write_all io) vs" and "takes_in_order (io_read_exact io) vr"
    and "\<forall>clip \<in> fst ` set sends. fits (io_to_allocvec io) (io_from_bytes io) (Clipboard clip)"
    and "vs (dr_send sender) = []"
  shows "\<exists>sender'. run_steps (drive_step io) sender (send_inputs sends) = Some ([], sender') \<and>
    (\<forall>receiver stamps. ready receiver \<and> vr (dr_recv receiver) = vs (dr_send sender') \<and>
       length stamps = length sends \<longrightarrow>
       (\<exists>receiver'. run_steps (drive_step io) receiver (map (Pair ReadCompletes) stamps)
           = Some (map EvClipboardReceived (map fst sends), receiver') \<and>
          dr_running receiver' \<and> vr (dr_recv receiver') = []))"
proof -
  obtain sender' where s: "run_steps (drive_step io) sender (send_inputs sends) = Some ([], sender')"
      "vs (dr_send sender') = frames (io_to_allocvec io) (map Clipboard (map fst sends)) @ []"
    using send_run [OF assms(2,1,4)] assms(5) by (auto simp: comp_def)
  have fit: "\<forall>clip \<in> set (map fst sends). fits (io_to_allocvec io) (io_from_bytes io) (Clipboard clip)"
    using assms(4) by simp
  have "\<exists>receiver'. run_steps (drive_step io) receiver (map (Pair ReadCompletes) stamps)
      = Some (map EvClipboardReceived (map fst sends), receiver') \<and> dr_running receiver' \<and> vr (dr_recv receiver') = []"
    if "ready receiver" "vr (dr_recv receiver) = vs (dr_send sender')" "length stamps = length sends" for receiver stamps
    using receive_run [OF assms(3) that(1) fit, of "[]" stamps] that(2,3) s(2) by (auto simp: ready_def)
  with s(1) show ?thesis by blast
qed

lemma pipe_io_simps [simp]:
  "io_write_all pipe_io = pipe_write" "io_read_exact pipe_io = pipe_read"
  by (simp_all add: pipe_io_def)

lemma demo_clip_fits: "length bs < 1000 \<Longrightarrow> fits (io_to_allocvec pipe_io) (io_from_bytes pipe_io) (Clipboard (demo_clip bs))"
  by (simp add: fits_def codec_ok_def pipe_io_def demo_clip_def max_frame_len_def)

definition demo_driver :: "u8 list \<Rightarrow> (u8 list, u8 list) driver" where
  "demo_driver r = (new_driver demo_identity 20 None [] r)\<lparr>dr_machine := demo_ready\<rparr>"

lemma demo_driver_ready: "ready (demo_driver r)"
  by (simp add: ready_def demo_driver_def new_driver_def demo_ready_def)

theorem clips_delivered_witness:
  "\<exists>sender'. run_steps (drive_step pipe_io) (demo_driver []) (send_inputs [(demo_clip [104, 105], 0, 0), (demo_clip [], 0, 0)])
     = Some ([], sender') \<and>
   (\<exists>receiver'. run_steps (drive_step pipe_io) (demo_driver (dr_send sender')) [(ReadCompletes, 0, 0), (ReadCompletes, 0, 0)]
     = Some ([EvClipboardReceived (demo_clip [104, 105]), EvClipboardReceived (demo_clip [])], receiver'))"
proof -
  let ?sends = "[(demo_clip [104, 105], 0, 0), (demo_clip [], 0, 0)] :: (clip \<times> u64 \<times> instant) list"
  have "\<forall>clip \<in> fst ` set ?sends. fits (io_to_allocvec pipe_io) (io_from_bytes pipe_io) (Clipboard clip)"
    by (simp add: demo_clip_fits)
  moreover have "dr_send (demo_driver []) = []"
    by (simp add: demo_driver_def new_driver_def)
  ultimately obtain sender' where s: "run_steps (drive_step pipe_io) (demo_driver []) (send_inputs ?sends) = Some ([], sender')"
    and r: "\<forall>receiver stamps. ready receiver \<and> dr_recv receiver = dr_send sender' \<and> length stamps = length ?sends \<longrightarrow>
       (\<exists>receiver'. run_steps (drive_step pipe_io) receiver (map (Pair ReadCompletes) stamps)
           = Some (map EvClipboardReceived (map fst ?sends), receiver') \<and> dr_running receiver' \<and> dr_recv receiver' = [])"
    using clips_delivered [of "demo_driver []" pipe_io "\<lambda>s. s" "\<lambda>s. s" ?sends, OF demo_driver_ready]
      pipe_appends pipe_takes_in_order by auto
  have "dr_recv (demo_driver (dr_send sender')) = dr_send sender'"
    by (simp add: demo_driver_def new_driver_def)
  with s r [rule_format, of "demo_driver (dr_send sender')" "[(0, 0), (0, 0)]"] show ?thesis
    by (auto simp: demo_driver_ready)
qed

section \<open>The abandoned read\<close>

text \<open>
  A read that loses the race is not resumed. If the four header bytes of a frame have been
  read when a tick wins the \<open>select!\<close>, they are gone: the next read takes the first four bytes of
  the message for a header. When these name a length above the limit, the session is closed
  with a framing error although the peer sent a well-formed frame; had the tick not
  intervened, the same stream would have given the message.
\<close>

theorem abandoned_read_desynchronizes:
  assumes "takes_in_order (io_read_exact io) vr" and "dr_running d" and "vr (dr_recv d) = frame bs @ later"
    and "4 \<le> length bs" and "length bs \<le> max_frame_len" and "decode (io_from_bytes io) bs = Inr msg"
    and "max_frame_len < from_le_bytes (take 4 bs)"
    and "drive_step io d (Ticks now 4, n1, c1) = Some (evs1, d1)" and "dr_running d1"
  shows "(\<exists>d2. drive_step io d1 (ReadCompletes, n2, c2) =
      Some ([EvClosed (CloseFramingError (io_show_framing io (FrameTooLarge (of_nat (from_le_bytes (take 4 bs))))))], d2)
      \<and> \<not> dr_running d2 \<and> dr_closed_by_us d2) \<and>
    (\<exists>r'. read_message (io_read_exact io) (io_from_bytes io) (dr_recv d) =
      ((Inr msg :: ('q, 'e) framing_error + message), r') \<and> vr r' = later)"
proof
  have split: "vr (dr_recv d) = to_le_bytes (length bs) @ bs @ later"
    using assms(3) by (simp add: frame_def)
  obtain r1 where r1: "io_read_exact io (dr_recv d) 4 = (Inr (to_le_bytes (length bs)), r1)" "vr r1 = bs @ later"
    using takes_in_orderD [OF assms(1) split, of 4] by auto
  have "dr_recv d1 = r1"
    using assms(2,8) r1(1) by (auto simp: drive_step_def feed_def drop_read_def split: option.splits)
  moreover have "vr r1 = take 4 bs @ drop 4 bs @ later"
    using r1(2) by (metis append_assoc append_take_drop_id)
  then obtain r2 where "io_read_exact io r1 4 = (Inr (take 4 bs), r2)"
    using takes_in_orderD [OF assms(1), of r1 "take 4 bs" _ 4] assms(4) by auto
  ultimately have "read_message (io_read_exact io) (io_from_bytes io) (dr_recv d1)
      = (Inl (FrameTooLarge (of_nat (from_le_bytes (take 4 bs)))), r2)"
    using assms(7) by (simp add: read_message_def Let_def)
  then show "\<exists>d2. drive_step io d1 (ReadCompletes, n2, c2) =
      Some ([EvClosed (CloseFramingError (io_show_framing io (FrameTooLarge (of_nat (from_le_bytes (take 4 bs))))))], d2)
      \<and> \<not> dr_running d2 \<and> dr_closed_by_us d2"
    using assms(9) by (simp add: drive_step_def close_with_def)
  show "\<exists>r'. read_message (io_read_exact io) (io_from_bytes io) (dr_recv d) = (Inr msg, r') \<and> vr r' = later"
    using read_frame [OF assms(1,3,5,6)] by metis
qed

theorem abandoned_read_desynchronizes_witness:
  "\<exists>d1 d2. drive_step pipe_io (demo_driver (frame [3, 255, 255, 255])) (Ticks 1 4, 0, 0) = Some ([], d1) \<and>
     drive_step pipe_io d1 (ReadCompletes, 0, 0) = Some ([EvClosed (CloseFramingError ''framing'')], d2)"
proof -
  let ?bs = "[3, 255, 255, 255] :: u8 list"
  let ?d = "demo_driver (frame ?bs)"
  obtain d1 where d1: "drive_step pipe_io ?d (Ticks 1 4, 0, 0) = Some ([], d1)" "dr_running d1"
    by (simp add: drive_step_def demo_driver_def new_driver_def demo_ready_def new_machine_def feed_def on_tick_def)
  have dec: "decode (io_from_bytes pipe_io) ?bs = Inr (Clipboard (demo_clip [255, 255, 255]))"
    by (simp add: decode_def pipe_io_def)
  have stream: "dr_recv ?d = frame ?bs @ []" and run: "dr_running ?d"
    by (simp_all add: demo_driver_def new_driver_def)
  have big: "max_frame_len < from_le_bytes (take 4 ?bs)"
    by (simp add: from_le_bytes_def max_frame_len_def)
  have "\<exists>d2. drive_step pipe_io d1 (ReadCompletes, 0, 0) =
      Some ([EvClosed (CloseFramingError (io_show_framing pipe_io (FrameTooLarge (of_nat (from_le_bytes (take 4 ?bs))))))], d2)"
    using abandoned_read_desynchronizes [where io = pipe_io and vr = "\<lambda>s. s" and d = ?d, OF _ run stream _ _ dec big d1]
      pipe_takes_in_order by (auto simp: max_frame_len_def)
  with d1(1) show ?thesis by (auto simp: pipe_io_def)
qed

end
