(* ===== verification/Session_Handle.thy ===== *)
theory Session_Handle
  imports Session
begin

text \<open>
  \<open>crates/net/src/session.rs\<close>, seen by its users: \<open>Session\<close> and \<open>SessionHandle\<close>. The driving task
  (\<open>Session\<close>) is spawned with two channels, one for commands to it and one for its events; users
  push commands, close the connection and wait for events while the task takes its turns. What
  \<open>quinn\<close> makes of a connection (opening a stream, the text of a close) is an argument.
\<close>

datatype session_error = Open string | WriteFailed string

record ('s, 'r) session =
  ss_driver :: "('s, 'r) driver"
  ss_started :: bool
  ss_commands :: "session_command list"
  ss_senders :: nat
  ss_events :: "session_event list"
  ss_closed :: "string option"

definition spawn ::
  "local_identity \<Rightarrow> duration \<Rightarrow> token_bytes option \<Rightarrow> 's \<Rightarrow> 'r \<Rightarrow> ('s, 'r) session" where
  "spawn loc interval tok s r =
     \<lparr>ss_driver = new_driver loc interval tok s r, ss_started = False, ss_commands = [], ss_senders = 1,
      ss_events = [], ss_closed = None\<rparr>"

definition session_open ::
  "string + 's \<times> 'r \<Rightarrow> local_identity \<Rightarrow> duration \<Rightarrow> token_bytes option \<Rightarrow> session_error + ('s, 'r) session" where
  "session_open open_bi loc interval tok =
     (case open_bi of Inl e \<Rightarrow> Inl (Open e) | Inr (s, r) \<Rightarrow> Inr (spawn loc interval tok s r))"

definition session_accept ::
  "string + 's \<times> 'r \<Rightarrow> local_identity \<Rightarrow> duration \<Rightarrow> session_error + ('s, 'r) session" where
  "session_accept accept_bi loc interval =
     (case accept_bi of Inl e \<Rightarrow> Inl (Open e) | Inr (s, r) \<Rightarrow> Inr (spawn loc interval None s r))"

text \<open>The users' operations. The task's end drops its receiver: what is sent then goes nowhere.\<close>

definition send_clip :: "clip \<Rightarrow> ('s, 'r) session \<Rightarrow> ('s, 'r) session" where
  "send_clip clip ss =
     (if dr_running (ss_driver ss) then ss\<lparr>ss_commands := ss_commands ss @ [CmdSendClipboard clip]\<rparr> else ss)"

definition clone_handle :: "('s, 'r) session \<Rightarrow> ('s, 'r) session" where
  "clone_handle ss = ss\<lparr>ss_senders := ss_senders ss + 1\<rparr>"

definition drop_handle :: "('s, 'r) session \<Rightarrow> ('s, 'r) session" where
  "drop_handle ss = ss\<lparr>ss_senders := ss_senders ss - 1\<rparr>"

definition close_connection :: "string \<Rightarrow> ('s, 'r) session \<Rightarrow> ('s, 'r) session" where
  "close_connection reason ss = (if ss_closed ss = None then ss\<lparr>ss_closed := Some reason\<rparr> else ss)"

text \<open>\<open>next_event\<close>: an event, the end of the channel, or nothing yet.\<close>

datatype received = Delivered session_event | Ended

definition next_event :: "('s, 'r) session \<Rightarrow> received list \<times> ('s, 'r) session" where
  "next_event ss =
     (case ss_events ss of
        ev # evs \<Rightarrow> ([Delivered ev], ss\<lparr>ss_events := evs\<rparr>)
      | [] \<Rightarrow> (if dr_running (ss_driver ss) then ([], ss) else ([Ended], ss)))"

section \<open>The task\<close>

text \<open>A branch of the \<open>select!\<close> can win only if what it waits for is there.\<close>

definition can_win :: "('s, 'r) session \<Rightarrow> wake \<Rightarrow> bool" where
  "can_win ss k =
     (case k of
        ReadCompletes \<Rightarrow> True
      | Ticks _ _ \<Rightarrow> True
      | CommandArrives (Some c) _ \<Rightarrow> ss_commands ss \<noteq> [] \<and> hd (ss_commands ss) = c
      | CommandArrives None _ \<Rightarrow> ss_commands ss = [] \<and> ss_senders ss = 0
      | ConnectionCloses reason \<Rightarrow> ss_closed ss = Some reason)"

definition after_turn :: "('s, 'r) session \<Rightarrow> wake \<Rightarrow> session_event list \<Rightarrow> ('s, 'r) driver \<Rightarrow> ('s, 'r) session" where
  "after_turn ss k evs d =
     ss\<lparr>ss_driver := d, ss_events := ss_events ss @ evs, ss_started := True,
        ss_commands := (if \<not> dr_running d then [] else case k of CommandArrives (Some _) _ \<Rightarrow> tl (ss_commands ss) | _ \<Rightarrow> ss_commands ss)\<rparr>"

datatype session_input =
    TaskStarts u64 instant
  | TaskTurn wake u64 instant
  | SendsClip clip
  | ClonesHandle
  | DropsHandle
  | ClosesConnection string
  | AsksNextEvent

definition session_step ::
  "('s, 'r, 'q, 'e) io_api \<Rightarrow> ('s, 'r) session \<Rightarrow> session_input \<Rightarrow> (received list \<times> ('s, 'r) session) option" where
  "session_step io ss i =
     (case i of
        TaskStarts nonce clock \<Rightarrow>
          (if ss_started ss then Some ([], ss)
           else (case feed io (ss_driver ss) Started nonce clock of
             None \<Rightarrow> None
           | Some (evs, d) \<Rightarrow> Some ([], after_turn ss ReadCompletes evs d)))
      | TaskTurn k nonce clock \<Rightarrow>
          (if \<not> ss_started ss \<or> \<not> can_win ss k then Some ([], ss)
           else (case drive_step io (ss_driver ss) (k, nonce, clock) of
             None \<Rightarrow> None
           | Some (evs, d) \<Rightarrow> Some ([], after_turn ss k evs d)))
      | SendsClip clip \<Rightarrow> Some ([], send_clip clip ss)
      | ClonesHandle \<Rightarrow> Some ([], clone_handle ss)
      | DropsHandle \<Rightarrow> Some ([], drop_handle ss)
      | ClosesConnection reason \<Rightarrow> Some ([], close_connection reason ss)
      | AsksNextEvent \<Rightarrow> Some (next_event ss))"

abbreviation run_session ::
  "('s, 'r, 'q, 'e) io_api \<Rightarrow> ('s, 'r) session \<Rightarrow> session_input list \<Rightarrow> (received list \<times> ('s, 'r) session) option" where
  "run_session io \<equiv> run_steps (session_step io)"

section \<open>What the receiver of the events sees\<close>

fun receiver_spec :: "session_view \<Rightarrow> received \<Rightarrow> session_view option" where
  "receiver_spec v (Delivered ev) = session_spec v ev"
| "receiver_spec v Ended = (if v = Over then Some Over else None)"

text \<open>The events still in the channel take the receiver's view to the task's.\<close>

definition in_view :: "session_view \<Rightarrow> ('s, 'r) session \<Rightarrow> bool" where
  "in_view v ss \<longleftrightarrow> spec_run session_spec v (ss_events ss) = Some (session_abs (ss_driver ss)) \<and>
     (\<not> ss_started ss \<longrightarrow> dr_running (ss_driver ss))"

lemma in_view_turn:
  assumes "in_view v ss" and "spec_run session_spec (session_abs (ss_driver ss)) evs = Some (session_abs d)"
  shows "in_view v (after_turn ss k evs d)"
  using assms by (simp add: in_view_def after_turn_def spec_run_append)

lemma session_step_view:
  assumes "session_step io ss i = Some (out, ss')" and "in_view v ss"
  shows "\<exists>v'. spec_run receiver_spec v out = Some v' \<and> in_view v' ss'"
proof (cases i)
  case (TaskStarts nonce clock)
  show ?thesis
  proof (cases "ss_started ss")
    case True
    with assms TaskStarts show ?thesis by (simp add: session_step_def)
  next
    case False
    then obtain evs d where f: "feed io (ss_driver ss) Started nonce clock = Some (evs, d)" "out = []"
      "ss' = after_turn ss ReadCompletes evs d"
      using assms(1) TaskStarts by (auto simp: session_step_def split: option.splits)
    have "dr_running (ss_driver ss)"
      using assms(2) False by (simp add: in_view_def)
    from in_view_turn [OF assms(2) feed_refines [OF f(1) this]] f(2,3) show ?thesis by simp
  qed
next
  case (TaskTurn k nonce clock)
  show ?thesis
  proof (cases "ss_started ss \<and> can_win ss k")
    case False
    with assms TaskTurn show ?thesis by (auto simp: session_step_def)
  next
    case True
    then obtain evs d where f: "drive_step io (ss_driver ss) (k, nonce, clock) = Some (evs, d)" "out = []"
      "ss' = after_turn ss k evs d"
      using assms(1) TaskTurn by (auto simp: session_step_def split: option.splits)
    from in_view_turn [OF assms(2) drive_step_refines [OF f(1)]] f(2,3) show ?thesis by simp
  qed
next
  case AsksNextEvent
  then have n: "next_event ss = (out, ss')"
    using assms(1) by (simp add: session_step_def)
  show ?thesis
  proof (cases "ss_events ss")
    case Nil
    then have "v = session_abs (ss_driver ss)"
      using assms(2) by (simp add: in_view_def)
    with n Nil assms(2) show ?thesis
      by (auto simp: next_event_def session_abs_def split: if_splits)
  next
    case (Cons ev evs)
    then obtain v' where "session_spec v ev = Some v'" "spec_run session_spec v' evs = Some (session_abs (ss_driver ss))"
      using assms(2) by (auto simp: in_view_def split: option.splits)
    with n Cons assms(2) show ?thesis
      by (auto simp: next_event_def in_view_def)
  qed
qed (use assms in \<open>auto simp: session_step_def in_view_def send_clip_def clone_handle_def drop_handle_def close_connection_def
    split: if_splits\<close>)

lemma run_session_view:
  "run_session io ss is = Some (out, ss') \<Longrightarrow> in_view v ss \<Longrightarrow> \<exists>v'. spec_run receiver_spec v out = Some v' \<and> in_view v' ss'"
proof (induction "is" arbitrary: ss out v)
  case Nil
  then show ?case by simp
next
  case (Cons i "is")
  from Cons.prems(1) obtain out1 ss1 out2 where s: "session_step io ss i = Some (out1, ss1)"
    "run_session io ss1 is = Some (out2, ss')" "out = out1 @ out2"
    by (rule run_steps_ConsE)
  obtain v1 where v1: "spec_run receiver_spec v out1 = Some v1" "in_view v1 ss1"
    using session_step_view [OF s(1) Cons.prems(2)] by blast
  from Cons.IH [OF s(2) v1(2)] v1(1) s(3) show ?case
    by (auto simp: spec_run_append)
qed

text \<open>Up to the end of the channel, what is received is a run of the abstract session.\<close>

lemma received_split:
  "spec_run receiver_spec v out = Some v' \<Longrightarrow>
     \<exists>evs n. out = map Delivered evs @ replicate n Ended \<and> spec_run session_spec v evs = Some v' \<and> (n > 0 \<longrightarrow> v' = Over)"
proof (induction out arbitrary: v)
  case Nil
  then show ?case by (auto intro!: exI [of _ "[]"] exI [of _ 0])
next
  case (Cons x out)
  show ?case
  proof (cases x)
    case (Delivered ev)
    with Cons.prems obtain v1 where "session_spec v ev = Some v1" "spec_run receiver_spec v1 out = Some v'"
      by (auto split: option.splits)
    with Cons.IH [OF this(2)] obtain evs n where "out = map Delivered evs @ replicate n Ended"
      "spec_run session_spec v (ev # evs) = Some v'" "n > 0 \<longrightarrow> v' = Over"
      by auto
    with Delivered show ?thesis
      by (intro exI [of _ "ev # evs"] exI [of _ n]) simp
  next
    case Ended
    with Cons.prems have over: "v = Over" "spec_run receiver_spec Over out = Some v'"
      by (auto split: if_splits)
    from Cons.IH [of Over] over(2) obtain evs n where evs: "spec_run session_spec Over evs = Some v'"
      "out = map Delivered evs @ replicate n Ended" by blast
    from session_spec_over [OF this(1)] evs(2) over(1) Ended show ?thesis
      by (intro exI [of _ "[]"] exI [of _ "Suc n"]) simp
  qed
qed

text \<open>A run of the abstract session that is over has one close, as its last event.\<close>

lemma spec_over_closed:
  assumes "spec_run session_spec Handshaking evs = Some Over"
  shows "\<exists>pre reason. evs = pre @ [EvClosed reason] \<and> filter is_close pre = []"
  using assms
proof (cases rule: session_spec_handshaking)
  case (2 reason)
  then show ?thesis by (intro exI [of _ "[]"]) simp
next
  case (3 i nm caps tk evs')
  with session_spec_established [OF 3(2)] obtain pre reason where "evs' = pre @ [EvClosed reason]" "filter is_close pre = []"
    by auto
  with 3(1) show ?thesis
    by (intro exI [of _ "EvPeerHandshake i nm caps tk # pre"]) (simp add: is_close_def)
qed simp

lemma ask_all:
  "\<not> dr_running (ss_driver ss) \<Longrightarrow>
     run_session io ss (replicate (Suc (length (ss_events ss))) AsksNextEvent)
       = Some (map Delivered (ss_events ss) @ [Ended], ss\<lparr>ss_events := []\<rparr>)"
proof (induction "ss_events ss" arbitrary: ss)
  case Nil
  then show ?case
    by (cases ss) (simp add: session_step_def next_event_def)
next
  case (Cons ev evs)
  have step: "session_step io ss AsksNextEvent = Some ([Delivered ev], ss\<lparr>ss_events := evs\<rparr>)"
    using Cons.hyps(2) by (simp add: session_step_def next_event_def flip: Cons.hyps(2))
  have "run_session io (ss\<lparr>ss_events := evs\<rparr>) (replicate (Suc (length evs)) AsksNextEvent)
      = Some (map Delivered evs @ [Ended], ss\<lparr>ss_events := []\<rparr>)"
    using Cons.hyps(1) [of "ss\<lparr>ss_events := evs\<rparr>"] Cons.prems by simp
  with step show ?case
    unfolding Cons.hyps(2) [symmetric] by simp
qed

text \<open>
  C24. The channel of a session's events ends with its close. Whatever the task meets and whatever
  the users of the session do (send clips, clone and drop handles, close the connection, ask for
  events), in any order: the end of the channel is seen only after a close, as the comment on
  \<open>next_event\<close> promises, and never anything after it; no event but the last is a close. Once the
  task has returned, asking on delivers every event that is left, the close among them, and
  then the end.
\<close>

theorem events_end_with_close:
  assumes "run_session io (spawn loc interval tok s r) ins = Some (out, ss)"
  shows "\<exists>evs n. out = map Delivered evs @ replicate n Ended \<and>
    (n > 0 \<longrightarrow> (\<exists>pre reason. evs = pre @ [EvClosed reason] \<and> filter is_close pre = [])) \<and>
    filter is_close (butlast evs) = [] \<and>
    (\<not> dr_running (ss_driver ss) \<longrightarrow>
       run_session io ss (replicate (length (ss_events ss) + 1) AsksNextEvent)
         = Some (map Delivered (ss_events ss) @ [Ended], ss\<lparr>ss_events := []\<rparr>) \<and>
       (\<exists>pre reason. evs @ ss_events ss = pre @ [EvClosed reason] \<and> filter is_close pre = []))"
proof -
  have "in_view Handshaking (spawn loc interval tok s r)"
    by (simp add: in_view_def spawn_def new_driver_def new_machine_def session_abs_def)
  from run_session_view [OF assms this] obtain v where v: "spec_run receiver_spec Handshaking out = Some v" "in_view v ss"
    by blast
  from received_split [OF v(1)] obtain evs n where out: "out = map Delivered evs @ replicate n Ended"
    and evs: "spec_run session_spec Handshaking evs = Some v" and over: "n > 0 \<longrightarrow> v = Over"
    by blast
  have one: "filter is_close (butlast evs) = []"
    using evs
  proof (cases rule: session_spec_handshaking)
    case (3 i nm caps tk evs')
    with session_spec_established [OF 3(2)] show ?thesis
      by (auto simp: is_close_def butlast_append filter_empty_conv dest: in_set_butlastD)
  qed simp_all
  have "spec_run session_spec Handshaking (evs @ ss_events ss) = Some (session_abs (ss_driver ss))"
    using evs v(2) by (simp add: spec_run_append in_view_def)
  then have "\<exists>pre reason. evs @ ss_events ss = pre @ [EvClosed reason] \<and> filter is_close pre = []" if "\<not> dr_running (ss_driver ss)"
    using that spec_over_closed by (simp add: session_abs_def)
  moreover have "\<exists>pre reason. evs = pre @ [EvClosed reason] \<and> filter is_close pre = []" if "n > 0"
    using that over evs spec_over_closed by simp
  ultimately show ?thesis
    using out one ask_all [of ss io] by (intro exI [of _ evs] exI [of _ n]) simp
qed

theorem events_end_with_close_witness:
  "\<exists>out ss. run_session pipe_io (spawn demo_identity 20 None [] []) [TaskStarts 0 0, AsksNextEvent, ClosesConnection ''bye'',
      TaskTurn (ConnectionCloses ''bye'') 0 0, SendsClip (demo_clip []), AsksNextEvent, AsksNextEvent] = Some (out, ss) \<and>
    out = [Delivered (EvClosed (ConnectionLost ''bye'')), Ended]"
proof -
  let ?ins = "[TaskStarts 0 0, AsksNextEvent, ClosesConnection ''bye'', TaskTurn (ConnectionCloses ''bye'') 0 0,
      SendsClip (demo_clip []), AsksNextEvent, AsksNextEvent]"
  have "\<exists>out ss. run_session pipe_io (spawn demo_identity 20 None [] []) ?ins = Some (out, ss) \<and>
      length out = 2 \<and> last out = Ended \<and> hd out = Delivered (EvClosed (ConnectionLost ''bye''))"
    by (simp add: session_step_def spawn_def new_driver_def new_machine_def feed_def write_message_def encode_def pipe_io_def
        pipe_write_def after_turn_def next_event_def close_connection_def can_win_def drive_step_def close_with_def send_clip_def)
  then obtain out ss where run: "run_session pipe_io (spawn demo_identity 20 None [] []) ?ins = Some (out, ss)"
    and out: "length out = 2" "last out = Ended" "hd out = Delivered (EvClosed (ConnectionLost ''bye''))"
    by blast
  from events_end_with_close [OF run] obtain evs n where "out = map Delivered evs @ replicate n Ended"
    by blast
  moreover have "out = [hd out, last out]"
    using out(1) by (cases out; cases "tl out") auto
  ultimately show ?thesis
    using run out(2,3) by (intro exI [of _ out] exI [of _ ss]) simp
qed

end
