(* ===== verification/Session_Link.thy ===== *)
theory Session_Link
  imports Session "HOL-Library.Sublist"
begin

text \<open>
  Two sessions and the QUIC connection between them: what \<open>crates/net/src/session.rs\<close> does when
  it runs on both sides. Each side's driving task takes its turns in its own time; the bytes
  it writes travel to the other side in order, in portions of any size and after any delay.

  A turn in which the read loses the race drops what the read had taken (\<open>drop_read\<close>, and property
  \<open>abandoned_read_desynchronizes\<close> for what can come of it). Here the link is studied as long as
  this does not happen in the middle of a frame. A write may fail (\<open>honest_writes\<close>); a read that
  fails because the connection is lost ends the session the way \<open>ConnectionCloses\<close> does, by
  \<open>ConnectionLost\<close>, and is not a step of its own.
\<close>

section \<open>State and steps\<close>

datatype side = Dialer | Acceptor

fun other_side :: "side \<Rightarrow> side" where
  "other_side Dialer = Acceptor"
| "other_side Acceptor = Dialer"

lemma other_side_simps [simp]:
  "other_side (other_side x) = x" "other_side x \<noteq> x" "x \<noteq> other_side x"
  by (cases x; simp)+

lemma other_side_cases: "y = x \<or> y = other_side x"
  by (cases x; cases y) simp_all

text \<open>The drivers, and as history what each has reported and which clips it took to send.\<close>

record ('s, 'r) link =
  ln_driver :: "side \<Rightarrow> ('s, 'r) driver"
  ln_reported :: "side \<Rightarrow> session_event list"
  ln_asked :: "side \<Rightarrow> clip list"

text \<open>
  \<open>read_exact\<close> waits for its bytes, so \<open>read_message\<close> completes when a whole frame has arrived,
  or a header that is refused.
\<close>

definition readable :: "u8 list \<Rightarrow> bool" where
  "readable v \<longleftrightarrow> 4 \<le> length v \<and>
     (from_le_bytes (take 4 v) \<le> max_frame_len \<longrightarrow> 4 + from_le_bytes (take 4 v) \<le> length v)"

definition undisturbed :: "('r \<Rightarrow> u8 list) \<Rightarrow> ('s, 'r) driver \<Rightarrow> wake \<Rightarrow> bool" where
  "undisturbed vr d k =
     (case k of
        ReadCompletes \<Rightarrow> readable (vr (dr_recv d))
      | Ticks _ lost \<Rightarrow> lost = 0
      | CommandArrives _ lost \<Rightarrow> lost = 0
      | ConnectionCloses _ \<Rightarrow> True)"

text \<open>Before the peer's handshake a clip is not taken: \<open>handle\<close> ignores it.\<close>

definition taken :: "('s, 'r) driver \<Rightarrow> wake \<Rightarrow> clip list" where
  "taken d k =
     (case k of
        CommandArrives (Some (CmdSendClipboard clip)) _ \<Rightarrow> if ready d then [clip] else []
      | _ \<Rightarrow> [])"

inductive link_step ::
  "('s, 'r, 'q, 'e) io_api \<Rightarrow> ('s \<Rightarrow> u8 list) \<Rightarrow> ('r \<Rightarrow> u8 list) \<Rightarrow> ('s, 'r) link \<Rightarrow> ('s, 'r) link \<Rightarrow> bool"
  for io vs vr where
  turn: "drive_step io (ln_driver l x) (k, nonce, clock) = Some (evs, d') \<Longrightarrow> undisturbed vr (ln_driver l x) k \<Longrightarrow>
    link_step io vs vr l
      \<lparr>ln_driver = (ln_driver l)(x := d'),
       ln_reported = (ln_reported l)(x := ln_reported l x @ evs),
       ln_asked = (ln_asked l)(x := ln_asked l x @ taken (ln_driver l x) k)\<rparr>"
| arrive: "vs (dr_send (ln_driver l x)) = bs @ vs s' \<Longrightarrow> vr r' = vr (dr_recv (ln_driver l (other_side x))) @ bs \<Longrightarrow>
    link_step io vs vr l
      (l\<lparr>ln_driver := (ln_driver l)(x := (ln_driver l x)\<lparr>dr_send := s'\<rparr>,
           other_side x := (ln_driver l (other_side x))\<lparr>dr_recv := r'\<rparr>)\<rparr>)"

text \<open>Both sides have been spawned and have written their handshakes.\<close>

definition link_start ::
  "('s, 'r, 'q, 'e) io_api \<Rightarrow> ('s \<Rightarrow> u8 list) \<Rightarrow> ('r \<Rightarrow> u8 list) \<Rightarrow> (side \<Rightarrow> local_identity)
     \<Rightarrow> (side \<Rightarrow> token_bytes option) \<Rightarrow> ('s, 'r) link \<Rightarrow> bool" where
  "link_start io vs vr loc tok l \<longleftrightarrow>
     (\<forall>x. \<exists>interval s r nonce clock.
        feed io (new_driver (loc x) interval (tok x) s r) Started nonce clock = Some ([], ln_driver l x) \<and>
        vs s = [] \<and> vr r = [] \<and> ln_reported l x = [] \<and> ln_asked l x = [])"

definition link_reachable ::
  "('s, 'r, 'q, 'e) io_api \<Rightarrow> ('s \<Rightarrow> u8 list) \<Rightarrow> ('r \<Rightarrow> u8 list) \<Rightarrow> (side \<Rightarrow> local_identity)
     \<Rightarrow> (side \<Rightarrow> token_bytes option) \<Rightarrow> ('s, 'r) link \<Rightarrow> bool" where
  "link_reachable io vs vr loc tok l \<longleftrightarrow> (\<exists>start. link_start io vs vr loc tok start \<and> (link_step io vs vr)\<^sup>*\<^sup>* start l)"

section \<open>Hypotheses on the third-party code\<close>

definition greeting :: "(side \<Rightarrow> local_identity) \<Rightarrow> (side \<Rightarrow> token_bytes option) \<Rightarrow> side \<Rightarrow> handshake" where
  "greeting loc tok x =
     \<lparr>hs_version = protocol_version, hs_device_id = li_device_id (loc x), hs_name = li_name (loc x),
      hs_capabilities = li_capabilities (loc x), hs_pairing_token = tok x\<rparr>"

text \<open>
  A write either succeeds, and then all of its bytes are on their way, or fails, as quinn's
  \<open>write_all\<close> does once the connection is lost or the stream was stopped; then some first part
  of its bytes may have gone out.
\<close>

definition honest_writes :: "('s \<Rightarrow> u8 list \<Rightarrow> ('q + unit) \<times> 's) \<Rightarrow> ('s \<Rightarrow> u8 list) \<Rightarrow> bool" where
  "honest_writes write_all view \<longleftrightarrow>
     (\<forall>s bs. case write_all s bs of
        (Inr _, s') \<Rightarrow> view s' = view s @ bs
      | (Inl _, s') \<Rightarrow> \<exists>part. prefix part bs \<and> view s' = view s @ part)"

text \<open>
  What \<open>postcard\<close> and the streams are documented to do: the two handshakes and every ping and
  pong round-trip in a frame the peer accepts, and the bytes that arrive are read in order.
\<close>

definition link_honest ::
  "('s, 'r, 'q, 'e) io_api \<Rightarrow> ('s \<Rightarrow> u8 list) \<Rightarrow> ('r \<Rightarrow> u8 list) \<Rightarrow> (side \<Rightarrow> handshake) \<Rightarrow> bool" where
  "link_honest io vs vr h \<longleftrightarrow>
     honest_writes (io_write_all io) vs \<and> takes_in_order (io_read_exact io) vr \<and>
     (\<forall>x. fits (io_to_allocvec io) (io_from_bytes io) (Handshake (h x))) \<and>
     (\<forall>n. fits (io_to_allocvec io) (io_from_bytes io) (Ping n) \<and> fits (io_to_allocvec io) (io_from_bytes io) (Pong n))"

text \<open>
  The same for a connection that holds: every write succeeds, and whatever is written can arrive.
  The code does not ensure this; it is the assumption of the statements about what a link can
  still do.
\<close>

definition link_ok ::
  "('s, 'r, 'q, 'e) io_api \<Rightarrow> ('s \<Rightarrow> u8 list) \<Rightarrow> ('r \<Rightarrow> u8 list) \<Rightarrow> (side \<Rightarrow> handshake) \<Rightarrow> bool" where
  "link_ok io vs vr h \<longleftrightarrow>
     appends (io_write_all io) vs \<and> takes_in_order (io_read_exact io) vr \<and>
     (\<forall>s r. \<exists>s' r'. vs s' = [] \<and> vr r' = vr r @ vs s) \<and>
     (\<forall>x. fits (io_to_allocvec io) (io_from_bytes io) (Handshake (h x))) \<and>
     (\<forall>n. fits (io_to_allocvec io) (io_from_bytes io) (Ping n) \<and> fits (io_to_allocvec io) (io_from_bytes io) (Pong n))"

lemma appends_honest: "appends wr view \<Longrightarrow> honest_writes wr view"
  unfolding appends_def honest_writes_def by (auto split: prod.split sum.split) (metis fst_conv snd_conv old.sum.distinct(2))+

lemma link_ok_honest: "link_ok io vs vr h \<Longrightarrow> link_honest io vs vr h"
  by (simp add: link_ok_def link_honest_def appends_honest)

definition clips_fit :: "('s, 'r, 'q, 'e) io_api \<Rightarrow> ('s, 'r) link \<Rightarrow> bool" where
  "clips_fit io l \<longleftrightarrow> (\<forall>x. \<forall>clip \<in> set (ln_asked l x). fits (io_to_allocvec io) (io_from_bytes io) (Clipboard clip))"

section \<open>Partial frames\<close>

lemma frames_append: "frames te (xs @ ys) = frames te xs @ frames te ys"
  by (simp add: frames_def)

lemma frames_Nil [simp]: "frames te [] = []"
  by (simp add: frames_def)

lemma frames_fit: "fits te fb m \<Longrightarrow> te m = Inr bs \<Longrightarrow> frames te (m # ms) = frame bs @ frames te ms"
  by (simp add: frames_def)

text \<open>A frame that has arrived whole can be cut off what has arrived.\<close>

lemma readable_frame:
  assumes "readable v" and "v @ later = frame bs @ rest" and "length bs \<le> max_frame_len"
  obtains v' where "v = frame bs @ v'" "v' @ later = rest"
proof -
  have "4 \<le> length v"
    using assms(1) by (simp add: readable_def)
  then have "take 4 v = take 4 (v @ later)" by simp
  also have "\<dots> = to_le_bytes (length bs)"
    using assms(2) by (simp add: frame_def)
  finally have hdr: "take 4 v = to_le_bytes (length bs)" .
  have "from_le_bytes (take 4 v) = length bs"
    unfolding hdr using assms(3) by (intro from_to_le_bytes max_frame_len_u32)
  then have "length (frame bs) \<le> length v"
    using assms(1,3) by (simp add: readable_def frame_def)
  then have "take (length (frame bs)) v = frame bs"
    using assms(2) by (metis append_eq_append_conv_if append_take_drop_id append_eq_conv_conj take_append)
  then have v: "v = frame bs @ drop (length (frame bs)) v"
    by (metis append_take_drop_id)
  moreover have "drop (length (frame bs)) v @ later = rest"
    using assms(2) v by (metis append.assoc same_append_eq)
  ultimately show thesis by (rule that)
qed

text \<open>A frame cut off by a write that failed: no message can be read from it.\<close>

definition cut_frame :: "u8 list \<Rightarrow> bool" where
  "cut_frame tail \<longleftrightarrow> (\<exists>bs. length bs \<le> max_frame_len \<and> strict_prefix tail (frame bs))"

lemma cut_frame_Nil [simp]: "cut_frame []"
  by (auto simp: cut_frame_def frame_def to_le_bytes_def intro!: exI [of _ "[]"])

lemma cut_frame_unreadable:
  assumes "cut_frame (v @ later)"
  shows "\<not> readable v"
proof
  assume whole: "readable v"
  from assms obtain bs rest where bs: "length bs \<le> max_frame_len" and v: "v @ later @ rest = frame bs" and more: "rest \<noteq> []"
    by (auto simp: cut_frame_def strict_prefix_def prefix_def)
  have "v @ (later @ rest) = frame bs @ []"
    using v by simp
  from readable_frame [OF whole this bs] obtain v' where "v' @ later @ rest = []" by blast
  with more show False by simp
qed

section \<open>A turn, message by message\<close>

text \<open>The reason a session is closed for when one of its own writes fails.\<close>

definition failed_write :: "('s, 'r, 'q, 'e) io_api \<Rightarrow> close_reason \<Rightarrow> bool" where
  "failed_write io r \<longleftrightarrow>
     (\<exists>s bs e. fst (io_write_all io s bs) = Inl e \<and> r = CloseFramingError (io_show_framing io (Write e)))"

lemma appends_no_failed_write: "appends (io_write_all io) vs \<Longrightarrow> \<not> failed_write io r"
  by (auto simp: failed_write_def appends_def)

text \<open>
  A message handed to the stream. Either it went out, or the write failed and the session is
  over; \<open>sent\<close> is what went out whole.
\<close>

definition wrote ::
  "('s, 'r, 'q, 'e) io_api \<Rightarrow> ('s \<Rightarrow> u8 list) \<Rightarrow> ('s, 'r) driver \<Rightarrow> ('s, 'r) driver \<Rightarrow> session_event list
     \<Rightarrow> message \<Rightarrow> message list \<Rightarrow> bool" where
  "wrote io vs d d' evs msg sent \<longleftrightarrow>
     (evs = [] \<and> dr_running d' \<and> sent = [msg] \<and> vs (dr_send d') = vs (dr_send d) @ frames (io_to_allocvec io) [msg]) \<or>
     (\<exists>r tail. evs = [EvClosed r] \<and> failed_write io r \<and> \<not> dr_running d' \<and> (sent = [] \<or> sent = [msg]) \<and> cut_frame tail \<and>
        vs (dr_send d') = vs (dr_send d) @ frames (io_to_allocvec io) sent @ tail)"

lemma write_message_honest:
  fixes s :: 's and wr :: "'s \<Rightarrow> u8 list \<Rightarrow> ('q + unit) \<times> 's"
  assumes "honest_writes wr view" and "encode te m = Inr bs" and "length bs < 2 ^ 32"
  obtains (sent) s' where "write_message wr te s m = Some (Inr (), s')" "view s' = view s @ frame bs"
    | (failed) e s' part s1 bs1 where "write_message wr te s m = Some (Inl (Write e), s')" "prefix part (frame bs)"
        "view s' = view s @ part" "fst (wr s1 bs1) = Inl e"
proof -
  have wr: "case wr s bs of (Inr _, s') \<Rightarrow> view s' = view s @ bs | (Inl _, s') \<Rightarrow> \<exists>part. prefix part bs \<and> view s' = view s @ part" for s bs
    using assms(1) by (simp add: honest_writes_def)
  obtain r1 s1 where w1: "wr s (to_le_bytes (length bs)) = (r1, s1)" by fastforce
  show thesis
  proof (cases r1)
    case (Inl e)
    with w1 wr [where s = s and bs = "to_le_bytes (length bs)"] obtain part where "prefix part (to_le_bytes (length bs))" "view s1 = view s @ part"
      by auto
    with Inl w1 assms(2,3) show thesis
      by (intro failed [of e s1 part s "to_le_bytes (length bs)"]) (simp_all add: write_message_def frame_def)
  next
    case (Inr u)
    with w1 wr [where s = s and bs = "to_le_bytes (length bs)"] have v1: "view s1 = view s @ to_le_bytes (length bs)" by simp
    obtain r2 s2 where w2: "wr s1 bs = (r2, s2)" by fastforce
    show thesis
    proof (cases r2)
      case (Inl e)
      with w2 wr [where s = s1 and bs = bs] obtain part where "prefix part bs" "view s2 = view s1 @ part"
        by auto
      with Inl Inr w1 w2 v1 assms(2,3) show thesis
        by (intro failed [of e s2 "to_le_bytes (length bs) @ part" s1 bs]) (simp_all add: write_message_def frame_def)
    next
      case Inr2: (Inr u2)
      with w2 wr [where s = s1 and bs = bs] have "view s2 = view s1 @ bs" by simp
      with Inr2 Inr w1 w2 v1 assms(2,3) show thesis
        by (intro sent [of s2]) (simp_all add: write_message_def frame_def)
    qed
  qed
qed

text \<open>
  What a turn of a running driver did, given that the messages \<open>pend\<close> are on their way to it:
  nothing, a ping or a clip written, the first of those messages read, or the end.
\<close>

lemma feed_send:
  assumes "honest_writes (io_write_all io) vs" and "fits (io_to_allocvec io) (io_from_bytes io) msg"
    and "handle (dr_machine d) ev nonce clock = Some ([Send msg], m')" and "feed io d ev nonce clock = Some (evs, d')"
  obtains sent where "wrote io vs d d' evs msg sent" "dr_machine d' = m'" "dr_recv d' = dr_recv d"
proof -
  obtain bs where bs: "io_to_allocvec io msg = Inr bs" "encode (io_to_allocvec io) msg = Inr bs" "length bs \<le> max_frame_len"
    using assms(2) by (auto elim: fitsE)
  have whole: "frames (io_to_allocvec io) [msg] = frame bs"
    using bs(1) by (simp add: frames_def)
  from assms(1) bs(2) max_frame_len_u32 [OF bs(3)] show thesis
  proof (cases rule: write_message_honest [where s = "dr_send d"])
    case (sent s')
    then have "(evs, d') = ([], d\<lparr>dr_machine := m', dr_send := s', dr_running := True\<rparr>)"
      using assms(3,4) by (simp add: feed_def)
    then show thesis
      using sent(2) whole by (intro that [of "[msg]"]) (simp_all add: wrote_def)
  next
    case (failed e s' part s1 bs1)
    let ?r = "CloseFramingError (io_show_framing io (Write e))"
    have d': "(evs, d') = ([EvClosed ?r], d\<lparr>dr_machine := m', dr_send := s', dr_running := False\<rparr>)"
      using failed(1) assms(3,4) by (simp add: feed_def)
    have r: "failed_write io ?r"
      using failed(4) unfolding failed_write_def by blast
    show thesis
    proof (cases "part = frame bs")
      case True
      then show thesis
        using d' r failed(3) whole
        by (intro that [of "[msg]"]) (auto simp: wrote_def intro!: exI [of _ "[]"])
    next
      case False
      then have "cut_frame part"
        using failed(2) bs(3) by (auto simp: cut_frame_def strict_prefix_def)
      then show thesis
        using d' r failed(3) by (intro that [of "[]"]) (auto simp: wrote_def)
    qed
  qed
qed

lemma tick_turn:
  assumes "feed io d (Tick now) nonce clock = Some (evs, d')"
    and "honest_writes (io_write_all io) vs" and "\<forall>n. fits (io_to_allocvec io) (io_from_bytes io) (Ping n)"
  obtains (quiet) "evs = []" "dr_running d'" "dr_recv d' = dr_recv d" "dr_send d' = dr_send d"
        "phase (dr_machine d') = phase (dr_machine d)" "pending_ping (dr_machine d') = pending_ping (dr_machine d)"
    | (ping) n at sent where "wrote io vs d d' evs (Ping n) sent" "dr_recv d' = dr_recv d"
        "phase (dr_machine d') = phase (dr_machine d)" "pending_ping (dr_machine d') = Some (n, at)"
    | (timeout) "evs = [EvClosed CloseKeepaliveTimedOut]" "\<not> dr_running d'" "dr_recv d' = dr_recv d" "dr_send d' = dr_send d"
        "phase (dr_machine d') = phase (dr_machine d)" "pending_ping (dr_machine d') = None" "pending_ping (dr_machine d) \<noteq> None"
proof -
  obtain as m' where h: "on_tick (dr_machine d) now nonce = Some (as, m')"
    using assms(1) by (auto simp: feed_def split: option.splits)
  then consider "as = []" "phase m' = phase (dr_machine d)" "pending_ping m' = pending_ping (dr_machine d)"
    | n at where "as = [Send (Ping n)]" "phase m' = phase (dr_machine d)" "pending_ping m' = Some (n, at)"
    | "as = [KeepaliveTimedOut]" "phase m' = phase (dr_machine d)" "pending_ping m' = None" "pending_ping (dr_machine d) \<noteq> None"
    by (auto simp: on_tick_def split: if_splits option.splits prod.splits)
  then show thesis
  proof cases
    case 1
    with h assms(1) show thesis by (intro quiet) (auto simp: feed_def)
  next
    case (2 n at)
    have "handle (dr_machine d) (Tick now) nonce clock = Some ([Send (Ping n)], m')"
      using h 2 by simp
    from feed_send [OF assms(2) assms(3) [rule_format] this assms(1)]
    obtain sent where "wrote io vs d d' evs (Ping n) sent" "dr_machine d' = m'" "dr_recv d' = dr_recv d" .
    with 2 show thesis
      by (intro ping [of n sent at]) simp_all
  next
    case 3
    with h assms(1) show thesis by (intro timeout) (auto simp: feed_def)
  qed
qed

lemma read_turn:
  assumes "feed io d (Received msg) nonce clock = Some (evs, d')"
    and "honest_writes (io_write_all io) vs" and "\<forall>n. fits (io_to_allocvec io) (io_from_bytes io) (Pong n)"
    and "\<forall>h. msg = Handshake h \<longrightarrow> hs_version h = protocol_version"
  obtains (introduced) h where "msg = Handshake h" "phase (dr_machine d) = AwaitingPeerHandshake"
        "evs = [EvPeerHandshake (hs_device_id h) (hs_name h) (hs_capabilities h) (hs_pairing_token h)]" "dr_running d'"
        "dr_recv d' = dr_recv d" "dr_send d' = dr_send d"
        "phase (dr_machine d') = Ready" "pending_ping (dr_machine d') = pending_ping (dr_machine d)"
    | (answered) n sent where "msg = Ping n" "phase (dr_machine d) = Ready" "wrote io vs d d' evs (Pong n) sent"
        "dr_recv d' = dr_recv d" "dr_machine d' = dr_machine d"
    | (ponged) n at rtt where "msg = Pong n" "phase (dr_machine d) = Ready" "evs = [EvPonged rtt]" "dr_running d'"
        "dr_recv d' = dr_recv d" "dr_send d' = dr_send d" "phase (dr_machine d') = Ready"
        "pending_ping (dr_machine d) = Some (n, at)" "pending_ping (dr_machine d') = None"
    | (stray) n where "msg = Pong n" "phase (dr_machine d) = Ready" "evs = []" "dr_running d'"
        "dr_recv d' = dr_recv d" "dr_send d' = dr_send d" "dr_machine d' = dr_machine d"
        "\<forall>at. pending_ping (dr_machine d) \<noteq> Some (n, at)"
    | (clip) c where "msg = Clipboard c" "phase (dr_machine d) = Ready" "evs = [EvClipboardReceived c]" "dr_running d'"
        "dr_recv d' = dr_recv d" "dr_send d' = dr_send d" "dr_machine d' = dr_machine d"
    | (ignored) "phase (dr_machine d) = AwaitingPeerHandshake \<longleftrightarrow> (\<forall>h. msg \<noteq> Handshake h)"
proof (cases "phase (dr_machine d)")
  case AwaitingPeerHandshake
  show thesis
  proof (cases msg)
    case (Handshake h)
    with AwaitingPeerHandshake assms(1,4) show thesis
      by (intro introduced [of h]) (auto simp: feed_def)
  qed (use AwaitingPeerHandshake ignored in simp_all)
next
  case Ready
  show thesis
  proof (cases msg)
    case (Handshake h)
    with Ready show thesis by (intro ignored) simp
  next
    case (Ping n)
    then have "handle (dr_machine d) (Received msg) nonce clock = Some ([Send (Pong n)], dr_machine d)"
      using Ready by simp
    from feed_send [OF assms(2) assms(3) [rule_format] this assms(1)]
    obtain sent where "wrote io vs d d' evs (Pong n) sent" "dr_machine d' = dr_machine d" "dr_recv d' = dr_recv d" .
    with Ready Ping show thesis
      by (intro answered [of n sent]) simp_all
  next
    case (Pong n)
    show thesis
    proof (cases "\<exists>at. pending_ping (dr_machine d) = Some (n, at)")
      case True
      then obtain at where at: "pending_ping (dr_machine d) = Some (n, at)" by blast
      with Pong Ready assms(1) show thesis
        by (intro ponged [of n "duration_since clock at" at]) (auto simp: feed_def)
    next
      case False
      with Pong Ready assms(1) show thesis
        by (intro stray [of n]) (auto simp: feed_def split: option.splits prod.splits)
    qed
  next
    case (Clipboard c)
    with Ready assms(1) show thesis
      by (intro clip [of c]) (auto simp: feed_def)
  qed
qed

text \<open>The turn itself: which of its branches ran.\<close>

lemma turn_branches:
  assumes "drive_step io d (k, nonce, clock) = Some (evs, d')" and "undisturbed vr d k" and "dr_running d"
    and "honest_writes (io_write_all io) vs" and "takes_in_order (io_read_exact io) vr"
    and "vr (dr_recv d) @ later = frames (io_to_allocvec io) pend @ tail" and "cut_frame tail"
    and "\<forall>m \<in> set pend. fits (io_to_allocvec io) (io_from_bytes io) m"
    and "\<forall>clip \<in> set (taken d k). fits (io_to_allocvec io) (io_from_bytes io) (Clipboard clip)"
  obtains (tick) now where "k \<noteq> ReadCompletes" "taken d k = []" "feed io d (Tick now) nonce clock = Some (evs, d')"
    | (idle) "k \<noteq> ReadCompletes" "taken d k = []" "evs = []" "dr_running d'" "dr_machine d' = dr_machine d" "dr_send d' = dr_send d" "dr_recv d' = dr_recv d"
    | (sending) clip sent where "k \<noteq> ReadCompletes" "taken d k = [clip]" "wrote io vs d d' evs (Clipboard clip) sent"
        "dr_machine d' = dr_machine d" "dr_recv d' = dr_recv d" "ready d"
    | (reading) msg pend' r where "taken d k = []" "pend = msg # pend'" "vr r @ later = frames (io_to_allocvec io) pend' @ tail"
        "feed io (d\<lparr>dr_recv := r\<rparr>) (Received msg) nonce clock = Some (evs, d')"
    | (lost) reason where "k \<noteq> ReadCompletes" "taken d k = []" "evs = [EvClosed (ConnectionLost reason)]" "\<not> dr_running d'" "dr_machine d' = dr_machine d"
        "dr_send d' = dr_send d" "dr_recv d' = dr_recv d"
proof (cases k)
  case (Ticks now n)
  with assms(1-3) show thesis
    by (intro tick [of now]) (simp_all add: drive_step_def undisturbed_def drop_read_def taken_def)
next
  case (ConnectionCloses reason)
  with assms(1,3) show thesis
    by (intro lost [of reason]) (auto simp: drive_step_def close_with_def taken_def)
next
  case (CommandArrives c n)
  then have n: "n = 0"
    using assms(2) by (simp add: undisturbed_def)
  show thesis
  proof (cases "\<exists>clip. c = Some (CmdSendClipboard clip) \<and> ready d")
    case True
    then obtain clip where c: "c = Some (CmdSendClipboard clip)" "ready d" by blast
    then have took: "taken d k = [clip]"
      by (simp add: taken_def CommandArrives)
    have "feed io d (SendClipboard clip) nonce clock = Some (evs, d')"
      using assms(1,3) c n CommandArrives by (simp add: drive_step_def drop_read_def ready_def)
    moreover have "handle (dr_machine d) (SendClipboard clip) nonce clock = Some ([Send (Clipboard clip)], dr_machine d)"
      using c(2) by (simp add: ready_def)
    moreover have "fits (io_to_allocvec io) (io_from_bytes io) (Clipboard clip)"
      using assms(9) took by simp
    ultimately obtain sent where "wrote io vs d d' evs (Clipboard clip) sent" "dr_machine d' = dr_machine d" "dr_recv d' = dr_recv d"
      using feed_send [OF assms(4)] by blast
    moreover have "k \<noteq> ReadCompletes"
      using CommandArrives by simp
    ultimately show thesis
      using took c(2) by (intro sending [of clip sent])
  next
    case False
    then have "taken d k = []"
      by (auto simp: taken_def CommandArrives split: option.split session_command.split)
    moreover have "evs = []" "dr_running d'" "dr_machine d' = dr_machine d" "dr_send d' = dr_send d" "dr_recv d' = dr_recv d"
      using assms(1,3) False n CommandArrives
      by (cases c, auto simp: drive_step_def drop_read_def ready_def feed_def split: if_splits session_command.splits)+
    ultimately show thesis
      using CommandArrives by (intro idle) simp_all
  qed
next
  case ReadCompletes
  then have whole: "readable (vr (dr_recv d))"
    using assms(2) by (simp add: undisturbed_def)
  then obtain msg pend' where pend: "pend = msg # pend'"
    using assms(6,7) cut_frame_unreadable [of "vr (dr_recv d)" later] by (cases pend) auto
  then obtain bs where bs: "io_to_allocvec io msg = Inr bs" "decode (io_from_bytes io) bs = Inr msg" "length bs \<le> max_frame_len"
    using assms(8) by (auto elim: fitsE)
  then obtain v where v: "vr (dr_recv d) = frame bs @ v" "v @ later = frames (io_to_allocvec io) pend' @ tail"
    using readable_frame [OF whole _ bs(3), of later "frames (io_to_allocvec io) pend' @ tail"] assms(6) pend
    by (auto simp: frames_def)
  obtain r where r: "read_message (io_read_exact io) (io_from_bytes io) (dr_recv d) = (Inr msg, r)" "vr r = v"
    using read_frame [OF assms(5) v(1) bs(3,2)] by blast
  have "feed io (d\<lparr>dr_recv := r\<rparr>) (Received msg) nonce clock = Some (evs, d')"
    using assms(1,3) r(1) ReadCompletes by (simp add: drive_step_def)
  then show thesis
    using pend v(2) r(2) ReadCompletes by (intro reading [of msg pend' r]) (simp_all add: taken_def)
qed

section \<open>One direction of the link\<close>

definition plain :: "message \<Rightarrow> bool" where
  "plain m = (case m of Handshake _ \<Rightarrow> False | _ \<Rightarrow> True)"

definition clips_of :: "message list \<Rightarrow> clip list" where
  "clips_of ms = List.map_filter (\<lambda>m. case m of Clipboard clip \<Rightarrow> Some clip | _ \<Rightarrow> None) ms"

definition clips_reported :: "session_event list \<Rightarrow> clip list" where
  "clips_reported evs = List.map_filter (\<lambda>ev. case ev of EvClipboardReceived clip \<Rightarrow> Some clip | _ \<Rightarrow> None) evs"

definition introduction :: "handshake \<Rightarrow> session_event" where
  "introduction h = EvPeerHandshake (hs_device_id h) (hs_name h) (hs_capabilities h) (hs_pairing_token h)"

definition benign :: "('s, 'r, 'q, 'e) io_api \<Rightarrow> close_reason \<Rightarrow> bool" where
  "benign io r \<longleftrightarrow> r = CloseKeepaliveTimedOut \<or> (\<exists>text. r = ConnectionLost text) \<or> failed_write io r"

lemma clips_of_simps [simp]:
  "clips_of [] = []" "clips_of (Handshake h # ms) = clips_of ms" "clips_of (Ping n # ms) = clips_of ms"
  "clips_of (Pong n # ms) = clips_of ms" "clips_of (Clipboard c # ms) = c # clips_of ms"
  "clips_of (ms @ ms') = clips_of ms @ clips_of ms'"
  by (simp_all add: clips_of_def List.map_filter_def)

lemma clips_reported_simps [simp]:
  "clips_reported [] = []" "clips_reported (EvClipboardReceived c # evs) = c # clips_reported evs"
  "clips_reported (EvPonged t # evs) = clips_reported evs" "clips_reported (EvClosed r # evs) = clips_reported evs"
  "clips_reported (EvPeerHandshake i nm caps tk # evs) = clips_reported evs"
  "clips_reported (evs @ evs') = clips_reported evs @ clips_reported evs'"
  by (simp_all add: clips_reported_def List.map_filter_def)

lemma plain_simps [simp]: "\<not> plain (Handshake h)" "plain (Ping n)" "plain (Pong n)" "plain (Clipboard c)"
  by (simp_all add: plain_def)

text \<open>
  \<open>rd\<close> is what the receiver has read and \<open>pd\<close> what is on its way, whose bytes are \<open>bytes\<close>. The
  rest is what the sender took to send and the receiver has reported. Once the sender is gone
  (\<open>up\<close> is false) its last frame may be cut off and the clip in it lost.
\<close>

definition flow ::
  "(message \<Rightarrow> 'e + u8 list) \<Rightarrow> handshake \<Rightarrow> bool \<Rightarrow> u8 list \<Rightarrow> phase \<Rightarrow> clip list \<Rightarrow> session_event list
     \<Rightarrow> message list \<Rightarrow> message list \<Rightarrow> bool" where
  "flow te h up bytes ph asked reported rd pd \<longleftrightarrow>
     (\<exists>tail. bytes = frames te pd @ tail \<and> cut_frame tail \<and> (up \<longrightarrow> tail = [])) \<and>
     (\<exists>rest. rd @ pd = Handshake h # rest \<and> (\<forall>m \<in> set rest. plain m) \<and> prefix (clips_of rest) asked \<and>
        (up \<longrightarrow> clips_of rest = asked)) \<and>
     (ph = AwaitingPeerHandshake \<longleftrightarrow> rd = []) \<and>
     clips_reported reported = clips_of rd \<and>
     filter is_peer reported = (if rd = [] then [] else [introduction h])"

lemma flow_send:
  assumes "flow te h True bytes ph asked reported rd pd" and "\<forall>m \<in> set ms. plain m"
    and "cut_frame tail" and "prefix (clips_of ms) took" and "up \<longrightarrow> tail = [] \<and> took = clips_of ms"
  shows "flow te h up (bytes @ frames te ms @ tail) ph (asked @ took) reported rd (pd @ ms)"
proof -
  obtain rest where "rd @ pd = Handshake h # rest" "\<forall>m \<in> set rest. plain m" "clips_of rest = asked"
    using assms(1) by (auto simp: flow_def)
  then have "\<exists>rest'. rd @ pd @ ms = Handshake h # rest' \<and> (\<forall>m \<in> set rest'. plain m) \<and> prefix (clips_of rest') (asked @ took) \<and>
      (up \<longrightarrow> clips_of rest' = asked @ took)"
    using assms(2,4,5) by (intro exI [of _ "rest @ ms"]) (auto simp flip: append_assoc)
  moreover have "\<exists>tail'. bytes @ frames te ms @ tail = frames te (pd @ ms) @ tail' \<and> cut_frame tail' \<and> (up \<longrightarrow> tail' = [])"
    using assms(1,3,5) by (intro exI [of _ tail]) (auto simp: flow_def frames_append)
  ultimately show ?thesis
    using assms(1) by (simp add: flow_def)
qed

lemma flow_next:
  assumes "flow te h up bytes ph asked reported rd (m # pd)"
  shows "m = Handshake h \<longleftrightarrow> ph = AwaitingPeerHandshake" and "plain m \<longleftrightarrow> ph = Ready"
  using assms by (cases rd; cases ph; auto simp: flow_def plain_def split: message.splits)+

lemma flow_read:
  assumes "flow te h up bytes ph asked reported rd (m # pd)"
    and "bytes' = frames te pd @ tail" and "cut_frame tail" and "up \<longrightarrow> tail = []"
    and "clips_reported evs = clips_of [m]" and "filter is_peer evs = (if rd = [] then [introduction h] else [])"
  shows "flow te h up bytes' Ready asked (reported @ evs) (rd @ [m]) pd"
  using assms by (auto simp: flow_def)

lemma flow_quiet:
  assumes "flow te h up bytes ph asked reported rd pd" and "clips_reported evs = []" and "filter is_peer evs = []"
  shows "flow te h up bytes ph asked (reported @ evs) rd pd"
  using assms by (simp add: flow_def)

lemma flow_fits:
  assumes "flow te h up bytes ph asked reported rd pd" and "fits te fb (Handshake h)"
    and "\<forall>n. fits te fb (Ping n) \<and> fits te fb (Pong n)" and "\<forall>clip \<in> set asked. fits te fb (Clipboard clip)"
  shows "\<forall>m \<in> set pd. fits te fb m"
proof
  fix m assume "m \<in> set pd"
  obtain rest where rest: "rd @ pd = Handshake h # rest" "\<forall>m \<in> set rest. plain m" "prefix (clips_of rest) asked"
    using assms(1) unfolding flow_def by blast
  have "m \<in> set (rd @ pd)"
    using \<open>m \<in> set pd\<close> by simp
  then have m: "m = Handshake h \<or> m \<in> set rest"
    unfolding rest(1) by simp
  have "Clipboard c \<in> set rest \<Longrightarrow> c \<in> set (clips_of rest)" for c
    by (force simp: clips_of_def in_set_map_filter)
  then have "Clipboard c \<in> set rest \<Longrightarrow> c \<in> set asked" for c
    using set_mono_prefix [OF rest(3)] by blast
  then show "fits te fb m"
    using m rest(2) assms(2-4) by (cases m) auto
qed

section \<open>What a turn does to the two directions\<close>

definition link_codec :: "('s, 'r, 'q, 'e) io_api \<Rightarrow> ('s \<Rightarrow> u8 list) \<Rightarrow> ('r \<Rightarrow> u8 list) \<Rightarrow> bool" where
  "link_codec io vs vr \<longleftrightarrow>
     honest_writes (io_write_all io) vs \<and> takes_in_order (io_read_exact io) vr \<and>
     (\<forall>n. fits (io_to_allocvec io) (io_from_bytes io) (Ping n) \<and> fits (io_to_allocvec io) (io_from_bytes io) (Pong n))"

definition turn_effect ::
  "('s, 'r, 'q, 'e) io_api \<Rightarrow> ('s \<Rightarrow> u8 list) \<Rightarrow> ('s, 'r) driver \<Rightarrow> ('s, 'r) driver \<Rightarrow> clip list \<Rightarrow> session_event list
     \<Rightarrow> message list \<Rightarrow> message list \<Rightarrow> bool" where
  "turn_effect io vs d d' took evs sent got \<longleftrightarrow>
     (\<exists>tail. vs (dr_send d') = vs (dr_send d) @ frames (io_to_allocvec io) sent @ tail \<and> cut_frame tail \<and>
        (dr_running d' \<longrightarrow> tail = [])) \<and>
     prefix (clips_of sent) took \<and> (dr_running d' \<longrightarrow> took = clips_of sent) \<and> (\<forall>m \<in> set sent. plain m) \<and>
     (\<forall>r. EvClosed r \<in> set evs \<longrightarrow> benign io r) \<and>
     (\<forall>n. Ping n \<in> set got \<longrightarrow> Pong n \<in> set sent \<or> \<not> dr_running d') \<and>
     (got = [] \<or> ((dr_running d' \<or> (\<exists>r. failed_write io r)) \<and>
        (\<exists>m. got = [m] \<and> (sent = [] \<or> (\<exists>n. m = Ping n \<and> sent = [Pong n]))))) \<and>
     (\<forall>n at. pending_ping (dr_machine d') = Some (n, at) \<longrightarrow> \<not> dr_running d' \<or>
        Ping n \<in> set sent \<or> (pending_ping (dr_machine d) = Some (n, at) \<and> Pong n \<notin> set got))"

lemma turn_effectI:
  assumes "vs (dr_send d') = vs (dr_send d)" and "\<forall>r. EvClosed r \<in> set evs \<longrightarrow> benign io r" and "\<forall>n. Ping n \<notin> set got"
    and "got = [] \<or> dr_running d' \<and> (\<exists>m. got = [m])"
    and "\<forall>n at. pending_ping (dr_machine d') = Some (n, at) \<longrightarrow>
        \<not> dr_running d' \<or> pending_ping (dr_machine d) = Some (n, at) \<and> Pong n \<notin> set got"
  shows "turn_effect io vs d d' [] evs [] got"
  using assms unfolding turn_effect_def by (auto intro!: exI [of _ "[]"])

lemma turn_effect_wrote:
  assumes "wrote io vs d d' evs msg sent" and "plain msg" and "took = clips_of [msg]"
    and "got = [] \<or> (\<exists>n. got = [Ping n] \<and> msg = Pong n)"
    and "\<forall>n at. pending_ping (dr_machine d') = Some (n, at) \<longrightarrow> msg = Ping n \<or> pending_ping (dr_machine d) = Some (n, at)"
  shows "turn_effect io vs d d' took evs sent got"
proof -
  from assms(1) consider
      (went) "evs = []" "dr_running d'" "sent = [msg]" "vs (dr_send d') = vs (dr_send d) @ frames (io_to_allocvec io) [msg]"
    | (failed) r tail where "evs = [EvClosed r]" "failed_write io r" "\<not> dr_running d'" "sent = [] \<or> sent = [msg]" "cut_frame tail"
        "vs (dr_send d') = vs (dr_send d) @ frames (io_to_allocvec io) sent @ tail"
    unfolding wrote_def by blast
  then show ?thesis
  proof cases
    case went
    then show ?thesis
      using assms(2-5) unfolding turn_effect_def by (auto intro!: exI [of _ "[]"])
  next
    case (failed r tail)
    have "prefix (clips_of sent) took" and "\<forall>m \<in> set sent. plain m"
      using failed(4) assms(2,3) by auto
    moreover have "\<forall>r. EvClosed r \<in> set evs \<longrightarrow> benign io r"
      using failed(1,2) by (simp add: benign_def)
    moreover have "got = [] \<or> (\<exists>m. got = [m] \<and> (sent = [] \<or> (\<exists>n. m = Ping n \<and> sent = [Pong n])))"
      using failed(4) assms(4) by auto
    ultimately show ?thesis
      using failed(2,3,5,6) unfolding turn_effect_def by blast
  qed
qed

lemma wrote_quiet: "wrote io vs d d' evs msg sent \<Longrightarrow> clips_reported evs = [] \<and> filter is_peer evs = []"
  by (auto simp: wrote_def is_peer_def)

lemma turn_effects:
  assumes "drive_step io d (k, nonce, clock) = Some (evs, d')" and "undisturbed vr d k" and "dr_running d"
    and "link_codec io vs vr" and "fits (io_to_allocvec io) (io_from_bytes io) (Handshake h)" and "hs_version h = protocol_version"
    and "flow (io_to_allocvec io) h up (vr (dr_recv d) @ later) (phase (dr_machine d)) asked reported rd pd"
    and "\<forall>clip \<in> set asked \<union> set (taken d k). fits (io_to_allocvec io) (io_from_bytes io) (Clipboard clip)"
  obtains sent got pd' where "turn_effect io vs d d' (taken d k) evs sent got" "pd = got @ pd'"
    "k = ReadCompletes \<longrightarrow> got \<noteq> []"
    "flow (io_to_allocvec io) h up (vr (dr_recv d') @ later) (phase (dr_machine d')) asked (reported @ evs) (rd @ got) pd'"
proof -
  have io: "honest_writes (io_write_all io) vs" "takes_in_order (io_read_exact io) vr"
    "\<forall>n. fits (io_to_allocvec io) (io_from_bytes io) (Ping n)" "\<forall>n. fits (io_to_allocvec io) (io_from_bytes io) (Pong n)"
    using assms(4) by (simp_all add: link_codec_def)
  obtain tail where bytes: "vr (dr_recv d) @ later = frames (io_to_allocvec io) pd @ tail" "cut_frame tail" "up \<longrightarrow> tail = []"
    using assms(7) by (auto simp: flow_def)
  have fit: "\<forall>m \<in> set pd. fits (io_to_allocvec io) (io_from_bytes io) m"
    using flow_fits [OF assms(7,5)] io(3,4) assms(8) by blast
  have took: "\<forall>clip \<in> set (taken d k). fits (io_to_allocvec io) (io_from_bytes io) (Clipboard clip)"
    using assms(8) by blast
  have quiet: "turn_effect io vs d d' (taken d k) evs ms [] \<Longrightarrow> k \<noteq> ReadCompletes \<Longrightarrow> dr_recv d' = dr_recv d \<Longrightarrow>
      phase (dr_machine d') = phase (dr_machine d) \<Longrightarrow> clips_reported evs = [] \<and> filter is_peer evs = [] \<Longrightarrow> thesis" for ms
    using that [of ms "[]" pd] flow_quiet [OF assms(7), of evs] by simp
  from assms(1-3) io(1,2) bytes(1,2) fit took show thesis
  proof (cases rule: turn_branches)
    case (tick now)
    from tick(3) io(1,3) show thesis
    proof (cases rule: tick_turn)
      case (ping n at sent)
      then show thesis
        using tick(1,2) turn_effect_wrote [OF ping(1)] wrote_quiet [OF ping(1)] by (intro quiet [of sent]) simp_all
    qed (use tick(1,2) in \<open>intro quiet [of "[]"]; auto simp: benign_def is_peer_def intro!: turn_effectI\<close>)+
  next
    case idle
    then show thesis
      by (intro quiet [of "[]"]) (simp_all add: turn_effectI)
  next
    case (lost reason)
    then show thesis
      by (intro quiet [of "[]"]) (auto simp: benign_def is_peer_def intro!: turn_effectI)
  next
    case (sending clip sent)
    then show thesis
      using turn_effect_wrote [OF sending(3)] wrote_quiet [OF sending(3)] by (intro quiet [of sent]) simp_all
  next
    case (reading msg pd' r)
    note flow = assms(7) [unfolded reading(2)]
    have version: "\<forall>h'. msg = Handshake h' \<longrightarrow> hs_version h' = protocol_version"
      using flow_next [OF flow] assms(6) by (cases "phase (dr_machine d)") auto
    have fresh: "rd = [] \<longleftrightarrow> phase (dr_machine d) = AwaitingPeerHandshake"
      using flow by (auto simp: flow_def)
    have got: "turn_effect io vs d d' [] evs ms [msg] \<Longrightarrow> vr (dr_recv d') = vr r \<Longrightarrow> phase (dr_machine d') = Ready \<Longrightarrow>
        clips_reported evs = clips_of [msg] \<Longrightarrow> filter is_peer evs = (if rd = [] then [introduction h] else []) \<Longrightarrow> thesis" for ms
      using that [of ms "[msg]" pd'] flow_read [OF flow reading(3) bytes(2,3), of evs] reading(1,2) by simp
    from reading(4) io(1,4) version show thesis
    proof (cases rule: read_turn)
      case (introduced h')
      then have "h' = h"
        using flow_next(1) [OF flow] by simp
      with introduced show thesis
        using fresh by (intro got [of "[]"]) (auto simp: introduction_def is_peer_def intro!: turn_effectI)
    next
      case (answered n sent)
      have "turn_effect io vs (d\<lparr>dr_recv := r\<rparr>) d' [] evs sent [msg]"
        using answered by (intro turn_effect_wrote [OF answered(3)]) simp_all
      then show thesis
        using fresh answered wrote_quiet [OF answered(3)] by (intro got [of sent]) (simp_all add: turn_effect_def)
    next
      case ignored
      then show thesis
        using flow_next [OF flow] by (cases "phase (dr_machine d)") (auto simp: plain_def split: message.splits)
    qed (use fresh in \<open>intro got [of "[]"]; auto simp: is_peer_def intro!: turn_effectI\<close>)+
  qed
qed

end
