(* ===== verification/Link_Delivery.thy ===== *)
theory Link_Delivery
  imports Session_Link
begin

text \<open>
  What holds of every reachable link of two sessions: its invariant, and from it that a link is
  faithful, that a link at rest is not closed by its keepalive, and that everything under way can
  still be delivered. At the end an instance of the third-party functions that satisfies the
  hypotheses.
\<close>

section \<open>The invariant of the link\<close>

text \<open>
  Both directions flow, a ping without an answer is on its way or its answer is, or the other
  side is gone, and sessions end for one of three reasons only.
\<close>

definition link_inv ::
  "('s, 'r, 'q, 'e) io_api \<Rightarrow> ('s \<Rightarrow> u8 list) \<Rightarrow> ('r \<Rightarrow> u8 list) \<Rightarrow> (side \<Rightarrow> handshake) \<Rightarrow> ('s, 'r) link
     \<Rightarrow> (side \<Rightarrow> message list) \<Rightarrow> (side \<Rightarrow> message list) \<Rightarrow> bool" where
  "link_inv io vs vr h l rd pd \<longleftrightarrow>
     (\<forall>x. flow (io_to_allocvec io) (h x) (dr_running (ln_driver l x)) (vr (dr_recv (ln_driver l (other_side x))) @ vs (dr_send (ln_driver l x)))
        (phase (dr_machine (ln_driver l (other_side x)))) (ln_asked l x) (ln_reported l (other_side x)) (rd x) (pd x)) \<and>
     (\<forall>x n at. pending_ping (dr_machine (ln_driver l x)) = Some (n, at) \<longrightarrow>
        Ping n \<in> set (pd x) \<or> Pong n \<in> set (pd (other_side x)) \<or> \<not> dr_running (ln_driver l (other_side x)) \<or>
        \<not> dr_running (ln_driver l x)) \<and>
     (\<forall>x r. EvClosed r \<in> set (ln_reported l x) \<longrightarrow> benign io r)"

lemma link_invD:
  assumes "link_inv io vs vr h l rd pd"
  shows "flow (io_to_allocvec io) (h x) (dr_running (ln_driver l x)) (vr (dr_recv (ln_driver l (other_side x))) @ vs (dr_send (ln_driver l x)))
      (phase (dr_machine (ln_driver l (other_side x)))) (ln_asked l x) (ln_reported l (other_side x)) (rd x) (pd x)"
    and "flow (io_to_allocvec io) (h (other_side x)) (dr_running (ln_driver l (other_side x))) (vr (dr_recv (ln_driver l x)) @ vs (dr_send (ln_driver l (other_side x))))
      (phase (dr_machine (ln_driver l x))) (ln_asked l (other_side x)) (ln_reported l x) (rd (other_side x)) (pd (other_side x))"
    and "pending_ping (dr_machine (ln_driver l x)) = Some (n, at) \<Longrightarrow>
        Ping n \<in> set (pd x) \<or> Pong n \<in> set (pd (other_side x)) \<or> \<not> dr_running (ln_driver l (other_side x)) \<or>
        \<not> dr_running (ln_driver l x)"
    and "EvClosed r \<in> set (ln_reported l x) \<Longrightarrow> benign io r"
proof -
  show in_flow: "flow (io_to_allocvec io) (h x) (dr_running (ln_driver l x)) (vr (dr_recv (ln_driver l (other_side x))) @ vs (dr_send (ln_driver l x)))
      (phase (dr_machine (ln_driver l (other_side x)))) (ln_asked l x) (ln_reported l (other_side x)) (rd x) (pd x)" for x
    using assms by (simp add: link_inv_def)
  from in_flow [of "other_side x"]
  show "flow (io_to_allocvec io) (h (other_side x)) (dr_running (ln_driver l (other_side x))) (vr (dr_recv (ln_driver l x)) @ vs (dr_send (ln_driver l (other_side x))))
      (phase (dr_machine (ln_driver l x))) (ln_asked l (other_side x)) (ln_reported l x) (rd (other_side x)) (pd (other_side x))"
    by simp
qed (use assms in \<open>auto simp: link_inv_def\<close>)

lemma link_inv_start:
  assumes "link_start io vs vr loc tok l" and "link_honest io vs vr (greeting loc tok)"
  shows "link_inv io vs vr (greeting loc tok) l (\<lambda>_. []) (\<lambda>x. [Handshake (greeting loc tok x)])"
proof -
  have side: "dr_running (ln_driver l x) \<and> phase (dr_machine (ln_driver l x)) = AwaitingPeerHandshake \<and>
      pending_ping (dr_machine (ln_driver l x)) = None \<and> vr (dr_recv (ln_driver l x)) = [] \<and>
      vs (dr_send (ln_driver l x)) = frames (io_to_allocvec io) [Handshake (greeting loc tok x)] \<and>
      ln_reported l x = [] \<and> ln_asked l x = []" for x
  proof -
    from assms(1) obtain interval s r nonce clock where
      f: "feed io (new_driver (loc x) interval (tok x) s r) Started nonce clock = Some ([], ln_driver l x)"
      and rest: "vs s = []" "vr r = []" "ln_reported l x = []" "ln_asked l x = []"
      unfolding link_start_def by blast
    have io: "honest_writes (io_write_all io) vs" "fits (io_to_allocvec io) (io_from_bytes io) (Handshake (greeting loc tok x))"
      using assms(2) by (simp_all add: link_honest_def)
    have "handle (dr_machine (new_driver (loc x) interval (tok x) s r)) Started nonce clock
        = Some ([Send (Handshake (greeting loc tok x))], new_machine (loc x) interval (tok x))"
      by (simp add: new_driver_def new_machine_def own_handshake_def greeting_def)
    from feed_send [OF io this f] obtain sent where
      "wrote io vs (new_driver (loc x) interval (tok x) s r) (ln_driver l x) [] (Handshake (greeting loc tok x)) sent"
      "dr_machine (ln_driver l x) = new_machine (loc x) interval (tok x)"
      "dr_recv (ln_driver l x) = dr_recv (new_driver (loc x) interval (tok x) s r)" .
    with rest show ?thesis
      by (simp add: new_driver_def new_machine_def wrote_def)
  qed
  then show ?thesis
    by (simp add: link_inv_def flow_def)
qed

lemma link_inv_arrive:
  assumes "link_inv io vs vr h l rd pd" and "vs (dr_send (ln_driver l x)) = bs @ vs s'"
    and "vr r' = vr (dr_recv (ln_driver l (other_side x))) @ bs"
  shows "link_inv io vs vr h
      (l\<lparr>ln_driver := (ln_driver l)(x := (ln_driver l x)\<lparr>dr_send := s'\<rparr>,
           other_side x := (ln_driver l (other_side x))\<lparr>dr_recv := r'\<rparr>)\<rparr>) rd pd"
    (is "link_inv io vs vr h ?l rd pd")
proof -
  have same: "dr_machine (ln_driver ?l z) = dr_machine (ln_driver l z)" "dr_running (ln_driver ?l z) = dr_running (ln_driver l z)" for z
    using other_side_cases [of z x] by auto
  have bytes: "vr (dr_recv (ln_driver ?l (other_side z))) @ vs (dr_send (ln_driver ?l z))
      = vr (dr_recv (ln_driver l (other_side z))) @ vs (dr_send (ln_driver l z))" for z
    using other_side_cases [of z x] assms(2,3) by auto
  have history: "ln_reported ?l = ln_reported l" "ln_asked ?l = ln_asked l"
    by simp_all
  show ?thesis
    using assms(1) unfolding link_inv_def same bytes history .
qed

lemma link_inv_running_turn:
  assumes "link_inv io vs vr (h :: side \<Rightarrow> handshake) l rd pd"
    and "drive_step io (ln_driver l x) (k, nonce, clock) = Some (evs, d')" and "undisturbed vr (ln_driver l x) k"
    and "link_honest io vs vr h" and "\<forall>x. hs_version (h x) = protocol_version"
    and "l' = \<lparr>ln_driver = (ln_driver l)(x := d'), ln_reported = (ln_reported l)(x := ln_reported l x @ evs),
       ln_asked = (ln_asked l)(x := ln_asked l x @ taken (ln_driver l x) k)\<rparr>" and "clips_fit io l'"
    and "dr_running (ln_driver l x)"
  obtains sent got pd' rd' where "turn_effect io vs (ln_driver l x) d' (taken (ln_driver l x) k) evs sent got"
    "pd (other_side x) = got @ pd'" "k = ReadCompletes \<longrightarrow> got \<noteq> []"
    "link_inv io vs vr h l' rd' (pd(x := pd x @ sent, other_side x := pd'))"
proof -
  define y where "y = other_side x"
  have xy: "other_side x = y" "other_side y = x" "x \<noteq> y"
    by (simp_all add: y_def)
  note inv = link_invD [OF assms(1)]
  have codec: "link_codec io vs vr" and greeting: "fits (io_to_allocvec io) (io_from_bytes io) (Handshake (h y))"
    using assms(4) by (simp_all add: link_codec_def link_honest_def)
  have "ln_asked l' y = ln_asked l y" "ln_asked l' x = ln_asked l x @ taken (ln_driver l x) k"
    using xy by (simp_all add: assms(6))
  then have fit: "\<forall>clip \<in> set (ln_asked l y) \<union> set (taken (ln_driver l x) k). fits (io_to_allocvec io) (io_from_bytes io) (Clipboard clip)"
    using assms(7) unfolding clips_fit_def by (metis UnE UnI2 set_append)
  obtain sent got pdy where e: "turn_effect io vs (ln_driver l x) d' (taken (ln_driver l x) k) evs sent got" "pd y = got @ pdy"
    "k = ReadCompletes \<longrightarrow> got \<noteq> []"
    "flow (io_to_allocvec io) (h y) (dr_running (ln_driver l y)) (vr (dr_recv d') @ vs (dr_send (ln_driver l y))) (phase (dr_machine d'))
       (ln_asked l y) (ln_reported l x @ evs) (rd y @ got) pdy"
    using turn_effects [OF assms(2,3,8) codec greeting assms(5) [rule_format] inv(2) [of x, unfolded xy] fit] .
  let ?rd = "rd(y := rd y @ got)" and ?pd = "pd(x := pd x @ sent, y := pdy)"
  obtain tail where tail: "vs (dr_send d') = vs (dr_send (ln_driver l x)) @ frames (io_to_allocvec io) sent @ tail"
      "cut_frame tail" "dr_running d' \<longrightarrow> tail = []"
    using e(1) by (auto simp: turn_effect_def)
  have out: "flow (io_to_allocvec io) (h x) (dr_running d') (vr (dr_recv (ln_driver l y)) @ vs (dr_send d'))
      (phase (dr_machine (ln_driver l y))) (ln_asked l x @ taken (ln_driver l x) k) (ln_reported l y) (rd x) (pd x @ sent)"
    using flow_send [OF inv(1) [of x, unfolded xy, simplified assms(8)], of sent tail _ "dr_running d'"] e(1) tail
    by (simp add: turn_effect_def)
  have pings: "Ping n \<in> set (?pd z) \<or> Pong n \<in> set (?pd (other_side z)) \<or> \<not> dr_running (ln_driver l' (other_side z)) \<or>
      \<not> dr_running (ln_driver l' z)"
    if "pending_ping (dr_machine (ln_driver l' z)) = Some (n, at)" for z n at
  proof (cases "z = x")
    case True
    with that have "\<not> dr_running d' \<or> Ping n \<in> set sent \<or> (pending_ping (dr_machine (ln_driver l x)) = Some (n, at) \<and> Pong n \<notin> set got)"
      using e(1) by (simp add: turn_effect_def assms(6))
    then show ?thesis
      using inv(3) [of x n at] e(2) True xy assms(8) by (auto simp: assms(6))
  next
    case False
    then have z: "z = y"
      using other_side_cases [of z x] xy by simp
    with that have "pending_ping (dr_machine (ln_driver l y)) = Some (n, at)"
      using xy by (simp add: assms(6))
    moreover have "Ping n \<in> set got \<Longrightarrow> Pong n \<in> set sent \<or> \<not> dr_running d'"
      using e(1) by (simp add: turn_effect_def)
    ultimately show ?thesis
      using inv(3) [of y n at] e(2) z xy assms(8) by (auto simp: assms(6))
  qed
  have "link_inv io vs vr h l' ?rd ?pd"
    unfolding link_inv_def
  proof (intro conjI allI impI)
    fix z
    consider "z = x" "other_side z = y" | "z = y" "other_side z = x"
      using other_side_cases [of z x] xy by auto
    then show "flow (io_to_allocvec io) (h z) (dr_running (ln_driver l' z)) (vr (dr_recv (ln_driver l' (other_side z))) @ vs (dr_send (ln_driver l' z)))
        (phase (dr_machine (ln_driver l' (other_side z)))) (ln_asked l' z) (ln_reported l' (other_side z)) (?rd z) (?pd z)"
      by cases (use xy out e(4) in \<open>simp_all add: assms(6)\<close>)
  next
    fix z r assume "EvClosed r \<in> set (ln_reported l' z)"
    then show "benign io r"
      using e(1) inv(4) by (auto simp: assms(6) turn_effect_def split: if_splits)
  qed (use pings in blast)
  with e(1-3) show thesis
    unfolding y_def by (intro that)
qed

lemma link_inv_turn:
  assumes "link_inv io vs vr (h :: side \<Rightarrow> handshake) l rd pd"
    and "drive_step io (ln_driver l x) (k, nonce, clock) = Some (evs, d')" and "undisturbed vr (ln_driver l x) k"
    and "link_honest io vs vr h" and "\<forall>x. hs_version (h x) = protocol_version"
    and "l' = \<lparr>ln_driver = (ln_driver l)(x := d'), ln_reported = (ln_reported l)(x := ln_reported l x @ evs),
       ln_asked = (ln_asked l)(x := ln_asked l x @ taken (ln_driver l x) k)\<rparr>" and "clips_fit io l'"
  shows "\<exists>rd' pd'. link_inv io vs vr h l' rd' pd'"
proof (cases "dr_running (ln_driver l x)")
  case False
  then have "evs = []" "d' = ln_driver l x" "taken (ln_driver l x) k = []"
    using assms(2) by (auto simp: drive_step_def taken_def ready_def split: wake.splits option.splits session_command.splits)
  then have "l' = l"
    using assms(6) by simp
  with assms(1) show ?thesis by blast
next
  case True
  from link_inv_running_turn [OF assms this] show ?thesis by metis
qed

section \<open>Reachable links\<close>

lemma clips_fit_before: "link_step io vs vr l l' \<Longrightarrow> clips_fit io l' \<Longrightarrow> clips_fit io l"
proof (induction rule: link_step.induct)
  case (turn l x k nonce clock evs d')
  show ?case
    unfolding clips_fit_def
  proof (intro allI ballI)
    fix z clip assume "clip \<in> set (ln_asked l z)"
    then have "clip \<in> set (((ln_asked l)(x := ln_asked l x @ taken (ln_driver l x) k)) z)"
      by auto
    with turn(3) show "fits (io_to_allocvec io) (io_from_bytes io) (Clipboard clip)"
      unfolding clips_fit_def link.simps by blast
  qed
qed (simp add: clips_fit_def)

lemma greeting_version: "\<forall>x. hs_version (greeting loc tok x) = protocol_version"
  by (simp add: greeting_def)

lemma link_inv_step:
  assumes "link_step io vs vr l l'" and "link_inv io vs vr (greeting loc tok) l rd pd"
    and "link_honest io vs vr (greeting loc tok)" and "clips_fit io l'"
  shows "\<exists>rd' pd'. link_inv io vs vr (greeting loc tok) l' rd' pd'"
  using assms
proof (cases rule: link_step.cases)
  case (turn x k nonce clock evs d')
  from link_inv_turn [OF assms(2) turn(2,3) assms(3) greeting_version turn(1) assms(4)] show ?thesis .
next
  case (arrive x bs s' r')
  then show ?thesis
    using link_inv_arrive [OF assms(2)] by blast
qed

lemma link_reachable_inv:
  assumes "link_reachable io vs vr loc tok l" and "link_honest io vs vr (greeting loc tok)" and "clips_fit io l"
  obtains rd pd where "link_inv io vs vr (greeting loc tok) l rd pd"
proof -
  obtain start where s: "link_start io vs vr loc tok start" and run: "(link_step io vs vr)\<^sup>*\<^sup>* start l"
    using assms(1) by (auto simp: link_reachable_def)
  from run assms(3) have "\<exists>rd pd. link_inv io vs vr (greeting loc tok) l rd pd"
  proof (induction rule: rtranclp_induct)
    case base
    then show ?case using link_inv_start [OF s assms(2)] by blast
  next
    case (step l1 l2)
    then show ?case
      using clips_fit_before link_inv_step [OF step(2) _ assms(2)] by metis
  qed
  with that show thesis by blast
qed

text \<open>What a side has reported is a run of the abstract session.\<close>

lemma link_reported_spec:
  assumes "link_reachable io vs vr loc tok l"
  shows "spec_run session_spec Handshaking (ln_reported l x) = Some (session_abs (ln_driver l x))"
proof -
  obtain start where s: "link_start io vs vr loc tok start" and run: "(link_step io vs vr)\<^sup>*\<^sup>* start l"
    using assms by (auto simp: link_reachable_def)
  from run show ?thesis
  proof (induction rule: rtranclp_induct)
    case base
    obtain interval s0 r0 nonce clock where f: "feed io (new_driver (loc x) interval (tok x) s0 r0) Started nonce clock
        = Some ([], ln_driver start x)" and r: "ln_reported start x = []"
      using s unfolding link_start_def by blast
    have "dr_running (new_driver (loc x) interval (tok x) s0 r0)"
      and "session_abs (new_driver (loc x) interval (tok x) s0 r0) = Handshaking"
      by (simp_all add: new_driver_def session_abs_def new_machine_def)
    with feed_refines [OF f] r show ?case by simp
  next
    case (step l1 l2)
    from step(2) show ?case
    proof (cases rule: link_step.cases)
      case (turn z k nonce clock evs d')
      then show ?thesis
        using step(3) drive_step_refines [OF turn(2)] by (auto simp: spec_run_append)
    next
      case (arrive z bs s' r')
      have "session_abs (ln_driver l2 x) = session_abs (ln_driver l1 x)"
        using arrive other_side_cases [of x z] by (auto simp: session_abs_def)
      with arrive(1) step(3) show ?thesis by simp
    qed
  qed
qed

section \<open>Nothing is lost, reordered or made up\<close>

lemma flow_reported_prefix:
  "flow te h up bytes ph asked reported rd pd \<Longrightarrow> prefix (clips_reported reported) asked"
proof -
  assume f: "flow te h up bytes ph asked reported rd pd"
  then obtain rest where rest: "rd @ pd = Handshake h # rest" "prefix (clips_of rest) asked" "clips_reported reported = clips_of rd"
    by (auto simp: flow_def)
  have "prefix (clips_of (rd @ pd)) asked"
    unfolding rest(1) using rest(2) by simp
  then show ?thesis
    unfolding rest(3) by (auto simp: prefix_def)
qed

text \<open>
  C6. A link between two sessions is faithful, also when it breaks. However the turns of the two
  sides and the arrival of their bytes are interleaved, however the clocks tick, whenever clips
  are handed over, the connection is lost or a write fails after any part of its bytes, as long
  as no read is abandoned inside a frame: each side is introduced to the other as what it is,
  first and once; the clips it reports are the first ones of those the other side took to send,
  unchanged and in order; and a session ends only because the connection was lost, a ping stayed
  unanswered or one of its own writes failed. It never ends by a version mismatch or by a framing
  error of what it has read, whatever the other side's failed write left in the stream.
\<close>

theorem link_faithful:
  assumes "link_honest io vs vr (greeting loc tok)" and "link_reachable io vs vr loc tok l" and "clips_fit io l"
  shows "(ln_reported l x = [] \<or> (\<exists>r. ln_reported l x = [EvClosed r]) \<or>
      (\<exists>evs. ln_reported l x = EvPeerHandshake (li_device_id (loc (other_side x))) (li_name (loc (other_side x)))
           (li_capabilities (loc (other_side x))) (tok (other_side x)) # evs \<and> filter is_peer evs = [])) \<and>
    prefix (clips_reported (ln_reported l x)) (ln_asked l (other_side x)) \<and>
    (\<forall>r. EvClosed r \<in> set (ln_reported l x) \<longrightarrow> r = CloseKeepaliveTimedOut \<or> (\<exists>text. r = ConnectionLost text) \<or>
       (\<exists>s bs e. fst (io_write_all io s bs) = Inl e \<and> r = CloseFramingError (io_show_framing io (Write e))))"
proof -
  obtain rd pd where inv: "link_inv io vs vr (greeting loc tok) l rd pd"
    using link_reachable_inv [OF assms(2,1,3)] .
  note flow = link_invD(2) [OF inv, of x]
  have peers: "set (filter is_peer (ln_reported l x)) \<subseteq> {introduction (greeting loc tok (other_side x))}"
    using flow by (auto simp: flow_def split: if_splits)
  have "ln_reported l x = [] \<or> (\<exists>r. ln_reported l x = [EvClosed r]) \<or>
      (\<exists>evs. ln_reported l x = introduction (greeting loc tok (other_side x)) # evs \<and> filter is_peer evs = [])"
    using link_reported_spec [OF assms(2), of x]
  proof (cases rule: session_spec_handshaking)
    case (3 i nm caps t evs)
    then have "introduction (greeting loc tok (other_side x)) = EvPeerHandshake i nm caps t"
      using peers by (simp add: is_peer_def)
    then show ?thesis
      using 3 session_spec_established [OF 3(2)] by simp
  qed auto
  moreover have "prefix (clips_reported (ln_reported l x)) (ln_asked l (other_side x))"
    using flow by (rule flow_reported_prefix)
  ultimately show ?thesis
    using link_invD(4) [OF inv] by (simp add: introduction_def greeting_def benign_def failed_write_def)
qed

section \<open>A quiet link stays up\<close>

lemma frames_empty: "\<forall>m \<in> set ms. fits te fb m \<Longrightarrow> frames te ms = [] \<Longrightarrow> ms = []"
  by (cases ms) (auto simp: frames_def frame_def to_le_bytes_def elim!: fitsE)

lemma nothing_pending:
  assumes "link_inv io vs vr h l rd pd" and "link_ok io vs vr h" and "clips_fit io l"
    and "vr (dr_recv (ln_driver l (other_side x))) = []" and "vs (dr_send (ln_driver l x)) = []"
  shows "pd x = []"
proof -
  note flow = link_invD(1) [OF assms(1), of x]
  have "\<forall>m \<in> set (pd x). fits (io_to_allocvec io) (io_from_bytes io) m"
    using flow_fits [OF flow] assms(2,3) by (simp add: link_ok_def clips_fit_def)
  then show ?thesis
    using flow assms(4,5) by (intro frames_empty) (auto simp: flow_def)
qed

text \<open>
  C14. The keepalive closes no link that works. When everything written on a reachable link has
  arrived and been read and both sides run, no tick of the clock, at whatever time, closes
  either of them: a timeout shows that a ping or its answer is still under way.
\<close>

theorem quiet_link_stays_up:
  assumes "link_ok io vs vr (greeting loc tok)" and "link_reachable io vs vr loc tok l" and "clips_fit io l"
    and "\<forall>y. dr_running (ln_driver l y) \<and> vs (dr_send (ln_driver l y)) = [] \<and> vr (dr_recv (ln_driver l y)) = []"
    and "drive_step io (ln_driver l x) (Ticks now 0, nonce, clock) = Some (evs, d')"
  shows "evs = [] \<and> dr_running d'"
proof -
  obtain rd pd where inv: "link_inv io vs vr (greeting loc tok) l rd pd"
    using link_reachable_inv [OF assms(2) link_ok_honest [OF assms(1)] assms(3)] .
  have "pd y = []" for y
    using nothing_pending [OF inv assms(1,3)] assms(4) by blast
  then have unanswered: "pending_ping (dr_machine (ln_driver l x)) = None"
    using link_invD(3) [OF inv, of x] assms(4) by (cases "pending_ping (dr_machine (ln_driver l x))") auto
  have tick: "feed io (ln_driver l x) (Tick now) nonce clock = Some (evs, d')"
    using assms(4,5) by (simp add: drive_step_def drop_read_def)
  have io: "appends (io_write_all io) vs" "\<forall>n. fits (io_to_allocvec io) (io_from_bytes io) (Ping n)"
    using assms(1) by (simp_all add: link_ok_def)
  from tick appends_honest [OF io(1)] io(2) show ?thesis
    using appends_no_failed_write [OF io(1)] by (cases rule: tick_turn) (simp_all add: unanswered wrote_def)
qed

section \<open>Everything sent can still arrive\<close>

definition cost :: "message \<Rightarrow> nat" where
  "cost m = (case m of Ping _ \<Rightarrow> 2 | _ \<Rightarrow> 1)"

definition backlog :: "(side \<Rightarrow> message list) \<Rightarrow> nat" where
  "backlog pd = sum_list (map cost (pd Dialer)) + sum_list (map cost (pd Acceptor))"

lemma backlog_split: "backlog pd = sum_list (map cost (pd x)) + sum_list (map cost (pd (other_side x)))"
  by (cases x) (simp_all add: backlog_def)

definition both_running :: "('s, 'r) link \<Rightarrow> bool" where
  "both_running l \<longleftrightarrow> (\<forall>x. dr_running (ln_driver l x))"

lemma all_arrives:
  assumes "link_inv io vs vr h l rd pd" and "link_ok io vs vr h" and "both_running l"
  obtains l' where "link_step io vs vr l l'" "link_inv io vs vr h l' rd pd" "both_running l'"
    "ln_asked l' = ln_asked l" "vr (dr_recv (ln_driver l' (other_side x))) = frames (io_to_allocvec io) (pd x)"
proof -
  have "\<exists>s' r'. vs s' = [] \<and> vr r' = vr (dr_recv (ln_driver l (other_side x))) @ vs (dr_send (ln_driver l x))"
    using assms(2) unfolding link_ok_def by blast
  then obtain s' r' where sr: "vs (dr_send (ln_driver l x)) = vs (dr_send (ln_driver l x)) @ vs s'"
    "vr r' = vr (dr_recv (ln_driver l (other_side x))) @ vs (dr_send (ln_driver l x))"
    by auto
  let ?l = "l\<lparr>ln_driver := (ln_driver l)(x := (ln_driver l x)\<lparr>dr_send := s'\<rparr>,
           other_side x := (ln_driver l (other_side x))\<lparr>dr_recv := r'\<rparr>)\<rparr>"
  have "both_running ?l"
    using assms(3) by (simp add: both_running_def)
  moreover have "vr r' = frames (io_to_allocvec io) (pd x)"
    using link_invD(1) [OF assms(1), of x] sr(2) assms(3) by (auto simp: flow_def both_running_def)
  ultimately show thesis
    using that [of ?l] link_step.arrive [where io = io, OF sr] link_inv_arrive [OF assms(1) sr] by simp
qed

lemma read_enabled:
  assumes "takes_in_order (io_read_exact io) vr" and "appends (io_write_all io) vs"
    and "\<forall>n. fits (io_to_allocvec io) (io_from_bytes io) (Pong n)" and "fits (io_to_allocvec io) (io_from_bytes io) m"
    and "vr (dr_recv d) = frames (io_to_allocvec io) (m # ms)" and "dr_running d"
  shows "undisturbed vr d ReadCompletes" and "\<exists>evs d'. drive_step io d (ReadCompletes, nonce, clock) = Some (evs, d')"
proof -
  obtain bs where bs: "io_to_allocvec io m = Inr bs" "decode (io_from_bytes io) bs = Inr m" "length bs \<le> max_frame_len"
    using assms(4) by (auto elim: fitsE)
  then have v: "vr (dr_recv d) = frame bs @ frames (io_to_allocvec io) ms"
    using assms(5) by (simp add: frames_def)
  moreover have "from_le_bytes (to_le_bytes (length bs)) = length bs"
    using bs(3) by (intro from_to_le_bytes max_frame_len_u32)
  ultimately show "undisturbed vr d ReadCompletes"
    by (simp add: undisturbed_def readable_def frame_def)
  obtain r where r: "read_message (io_read_exact io) (io_from_bytes io) (dr_recv d) = (Inr m, r)"
    using read_frame [OF assms(1) v bs(3,2)] by metis
  obtain as m' where h: "on_received (dr_machine d) m clock = (as, m')"
    by (metis surj_pair)
  then consider "as = []" | n where "as = [Send (Pong n)]" | rtt where "as = [Ponged rtt]" | c where "as = [PeerClipboard c]"
    | i nm caps tk where "as = [PeerHandshake i nm caps tk]" | ours theirs where "as = [Reject (VersionMismatch ours theirs)]"
    by (auto split: handler_splits)
  then have "run_actions io as s \<noteq> None" for s
  proof cases
    case (2 n)
    obtain ps where ps: "encode (io_to_allocvec io) (Pong n) = Inr ps" "length ps \<le> max_frame_len"
      using assms(3) by (metis fitsE)
    obtain s' where "write_message (io_write_all io) (io_to_allocvec io) s (Pong n) = Some (Inr (), s')"
      using write_frame [OF assms(2) ps(1) max_frame_len_u32 [OF ps(2)]] by metis
    with 2 show ?thesis by simp
  qed simp_all
  then have "feed io (d\<lparr>dr_recv := r\<rparr>) (Received m) nonce clock \<noteq> None"
    using h by (simp add: feed_def split: option.split del: on_received.simps)
  then show "\<exists>evs d'. drive_step io d (ReadCompletes, nonce, clock) = Some (evs, d')"
    using assms(6) r by (auto simp: drive_step_def)
qed

lemma drain_step:
  assumes "link_inv io vs vr (greeting loc tok) l rd pd" and "link_ok io vs vr (greeting loc tok)" and "clips_fit io l"
    and "both_running l" and "pd x \<noteq> []"
  obtains l' rd' pd' where "(link_step io vs vr)\<^sup>*\<^sup>* l l'" "link_inv io vs vr (greeting loc tok) l' rd' pd'" "both_running l'"
    "ln_asked l' = ln_asked l" "backlog pd' < backlog pd"
proof -
  obtain l1 where l1: "link_step io vs vr l l1" "link_inv io vs vr (greeting loc tok) l1 rd pd" "both_running l1"
    "ln_asked l1 = ln_asked l" "vr (dr_recv (ln_driver l1 (other_side x))) = frames (io_to_allocvec io) (pd x)"
    using all_arrives [OF assms(1,2,4)] .
  obtain m ms where m: "pd x = m # ms"
    using assms(5) by (cases "pd x") auto
  let ?y = "other_side x"
  have io: "takes_in_order (io_read_exact io) vr" "appends (io_write_all io) vs"
    "\<forall>n. fits (io_to_allocvec io) (io_from_bytes io) (Pong n)"
    using assms(2) by (simp_all add: link_ok_def)
  have fit1: "clips_fit io l1"
    using assms(3) l1(4) by (simp add: clips_fit_def)
  have "fits (io_to_allocvec io) (io_from_bytes io) m"
    using flow_fits [OF link_invD(1) [OF assms(1), of x]] assms(2,3) m by (simp add: link_ok_def clips_fit_def)
  moreover have run: "dr_running (ln_driver l1 ?y)"
    using l1(3) by (simp add: both_running_def)
  ultimately have ready: "undisturbed vr (ln_driver l1 ?y) ReadCompletes"
    and "\<exists>evs d'. drive_step io (ln_driver l1 ?y) (ReadCompletes, 0, 0) = Some (evs, d')"
    using read_enabled [OF io _ l1(5) [unfolded m]] by blast+
  then obtain evs d' where step: "drive_step io (ln_driver l1 ?y) (ReadCompletes, 0, 0) = Some (evs, d')"
    by blast
  define l2 where "l2 = \<lparr>ln_driver = (ln_driver l1)(?y := d'), ln_reported = (ln_reported l1)(?y := ln_reported l1 ?y @ evs),
       ln_asked = (ln_asked l1)(?y := ln_asked l1 ?y @ taken (ln_driver l1 ?y) ReadCompletes)\<rparr>"
  have asked: "ln_asked l2 = ln_asked l1"
    by (simp add: l2_def taken_def)
  then have fit2: "clips_fit io l2"
    using fit1 by (simp add: clips_fit_def)
  obtain sent got pdx rd' where e: "turn_effect io vs (ln_driver l1 ?y) d' (taken (ln_driver l1 ?y) ReadCompletes) evs sent got"
    "pd x = got @ pdx" "ReadCompletes = ReadCompletes \<longrightarrow> got \<noteq> []" "link_inv io vs vr (greeting loc tok) l2 rd' (pd(?y := pd ?y @ sent, x := pdx))"
    using link_inv_running_turn [OF l1(2) step ready link_ok_honest [OF assms(2)] greeting_version l2_def fit2 run, unfolded other_side_simps] .
  then obtain m' where got: "got = [m']" "dr_running d'" "sent = [] \<or> (\<exists>n. m' = Ping n \<and> sent = [Pong n])"
    using appends_no_failed_write [OF io(2)] by (auto simp: turn_effect_def)
  have "sum_list (map cost sent) < cost m'"
    using got(3) by (auto simp: cost_def split: message.split)
  then have "backlog (pd(?y := pd ?y @ sent, x := pdx)) < backlog pd"
    using e(2) got(1) by (simp add: backlog_split [of _ x])
  moreover have "both_running l2"
    using l1(3) got(2) by (simp add: l2_def both_running_def)
  moreover have "(link_step io vs vr)\<^sup>*\<^sup>* l l2"
    using l1(1) link_step.turn [OF step ready] by (metis l2_def converse_rtranclp_into_rtranclp r_into_rtranclp)
  ultimately show thesis
    using that [of l2] e(4) asked l1(4) by metis
qed

lemma drain_all:
  assumes "link_inv io vs vr (greeting loc tok) l rd pd" and "link_ok io vs vr (greeting loc tok)" and "clips_fit io l"
    and "both_running l"
  obtains l' rd' pd' where "(link_step io vs vr)\<^sup>*\<^sup>* l l'" "link_inv io vs vr (greeting loc tok) l' rd' pd'" "both_running l'"
    "ln_asked l' = ln_asked l" "\<forall>x. pd' x = []"
  using assms(1,3,4)
proof (induction "backlog pd" arbitrary: l rd pd thesis rule: less_induct)
  case less
  show thesis
  proof (cases "\<forall>x. pd x = []")
    case True
    show thesis
      using less.prems(1) [OF rtranclp.rtrancl_refl less.prems(2,4) refl True] .
  next
    case False
    then obtain x where "pd x \<noteq> []" by blast
    then obtain l1 rd1 pd1 where l1: "(link_step io vs vr)\<^sup>*\<^sup>* l l1" "link_inv io vs vr (greeting loc tok) l1 rd1 pd1"
      "both_running l1" "ln_asked l1 = ln_asked l" "backlog pd1 < backlog pd"
      using drain_step [OF less.prems(2) assms(2) less.prems(3,4)] by blast
    have fit: "clips_fit io l1"
      using less.prems(3) l1(4) by (simp add: clips_fit_def)
    show thesis
    proof (rule less.hyps [OF l1(5) _ l1(2) fit l1(3)])
      fix l' rd' pd' assume "(link_step io vs vr)\<^sup>*\<^sup>* l1 l'" "link_inv io vs vr (greeting loc tok) l' rd' pd'" "both_running l'"
        "ln_asked l' = ln_asked l1" "\<forall>x. pd' x = []"
      then show thesis
        using less.prems(1) [of l' rd' pd'] l1(1,4) by (simp add: rtranclp_trans [of _ l l1 l'])
    qed
  qed
qed

text \<open>
  C7. A link that is up can deliver everything. From every reachable state in which both sides
  run, whatever is under way, the two sides can go on, by nothing but bytes arriving and
  messages being read (pings being answered on the way), to a state in which both still run, each
  side has met the other and reported exactly the clips the other took to send, and nothing is
  under way any more. No such state is a dead end.
\<close>

theorem link_delivers:
  assumes "link_ok io vs vr (greeting loc tok)" and "link_reachable io vs vr loc tok l" and "clips_fit io l"
    and "dr_running (ln_driver l Dialer)" and "dr_running (ln_driver l Acceptor)"
  shows "\<exists>l'. (link_step io vs vr)\<^sup>*\<^sup>* l l' \<and>
    (\<forall>x. dr_running (ln_driver l' x) \<and> phase (dr_machine (ln_driver l' x)) = Ready \<and>
       vr (dr_recv (ln_driver l' x)) = [] \<and> vs (dr_send (ln_driver l' x)) = [] \<and>
       ln_asked l' x = ln_asked l x \<and> clips_reported (ln_reported l' x) = ln_asked l (other_side x))"
proof -
  obtain rd pd where inv: "link_inv io vs vr (greeting loc tok) l rd pd"
    using link_reachable_inv [OF assms(2) link_ok_honest [OF assms(1)] assms(3)] .
  have run: "both_running l"
    unfolding both_running_def using assms(4,5) by (metis side.exhaust)
  obtain l' rd' pd' where l': "(link_step io vs vr)\<^sup>*\<^sup>* l l'"
    "link_inv io vs vr (greeting loc tok) l' rd' pd'" "both_running l'" "ln_asked l' = ln_asked l" "\<forall>x. pd' x = []"
    using drain_all [OF inv assms(1,3) run] .
  have "phase (dr_machine (ln_driver l' x)) = Ready \<and> vr (dr_recv (ln_driver l' x)) = [] \<and> vs (dr_send (ln_driver l' x)) = [] \<and>
      clips_reported (ln_reported l' x) = ln_asked l' (other_side x)" for x
    using link_invD(1,2) [OF l'(2), of x] l'(3,5)
    by (cases "phase (dr_machine (ln_driver l' x))") (auto simp: flow_def both_running_def)
  with l'(1,3,4) show ?thesis
    by (intro exI [of _ l']) (simp add: both_running_def)
qed

text \<open>A clip handed to one side of a link can be brought to the other.\<close>

lemma link_hands_over:
  assumes "link_ok io vs vr (greeting loc tok)" and "link_reachable io vs vr loc tok l" and "clips_fit io l"
    and "both_running l" and "ready (ln_driver l x)" and "fits (io_to_allocvec io) (io_from_bytes io) (Clipboard clip)"
  obtains l' where "(link_step io vs vr)\<^sup>*\<^sup>* l l'" "both_running l'" "ln_asked l' x = ln_asked l x @ [clip]"
    "clips_reported (ln_reported l' (other_side x)) = ln_asked l x @ [clip]"
proof -
  have io: "appends (io_write_all io) vs"
    using assms(1) by (simp add: link_ok_def)
  let ?k = "CommandArrives (Some (CmdSendClipboard clip)) 0"
  obtain d' where d': "drive_step io (ln_driver l x) (?k, 0, 0) = Some ([], d')" "ready d'"
    using send_step [OF assms(5) io assms(6)] by blast
  define l1 where "l1 = \<lparr>ln_driver = (ln_driver l)(x := d'), ln_reported = (ln_reported l)(x := ln_reported l x @ []),
       ln_asked = (ln_asked l)(x := ln_asked l x @ taken (ln_driver l x) ?k)\<rparr>"
  have step: "link_step io vs vr l l1"
    unfolding l1_def using d'(1) by (rule link_step.turn) (simp add: undisturbed_def)
  have asked: "ln_asked l1 = (ln_asked l)(x := ln_asked l x @ [clip])"
    using assms(5) by (simp add: l1_def taken_def)
  have run: "both_running l1"
    using assms(4) d'(2) by (simp add: both_running_def l1_def ready_def)
  have fit: "clips_fit io l1"
    using assms(3,6) by (auto simp: clips_fit_def asked)
  have "link_reachable io vs vr loc tok l1"
    using assms(2) step by (meson link_reachable_def rtranclp.rtrancl_into_rtrancl)
  then obtain rd pd where "link_inv io vs vr (greeting loc tok) l1 rd pd"
    using link_reachable_inv [OF _ link_ok_honest [OF assms(1)] fit] by blast
  then obtain l' rd' pd' where l': "(link_step io vs vr)\<^sup>*\<^sup>* l1 l'" "link_inv io vs vr (greeting loc tok) l' rd' pd'"
    "both_running l'" "ln_asked l' = ln_asked l1" "\<forall>x. pd' x = []"
    using drain_all [OF _ assms(1) fit run] by blast
  have "clips_reported (ln_reported l' (other_side x)) = ln_asked l' x"
    using link_invD(1) [OF l'(2), of x] l'(3,5) by (auto simp: flow_def both_running_def)
  then show thesis
    using that [of l'] l'(1,3,4) asked step by (simp add: converse_rtranclp_into_rtranclp)
qed

section \<open>A link that satisfies the hypotheses\<close>

definition demo_loc :: "side \<Rightarrow> local_identity" where
  "demo_loc x = (case x of
     Dialer \<Rightarrow> \<lparr>li_device_id = replicate 32 1, li_name = ''pixel'', li_capabilities = []\<rparr>
   | Acceptor \<Rightarrow> \<lparr>li_device_id = replicate 32 0, li_name = ''desk'', li_capabilities = []\<rparr>)"

definition demo_tok :: "side \<Rightarrow> token_bytes option" where
  "demo_tok x = (case x of Dialer \<Rightarrow> Some [5] | Acceptor \<Rightarrow> None)"

definition nonce_bytes :: "u64 \<Rightarrow> u8 list" where
  "nonce_bytes n = to_le_bytes (unat n mod 2 ^ 32) @ to_le_bytes (unat n div 2 ^ 32)"

definition nonce_of :: "u8 list \<Rightarrow> u64" where
  "nonce_of bs = of_nat (from_le_bytes (take 4 bs) + 2 ^ 32 * from_le_bytes (drop 4 bs))"

lemma nonce_roundtrip: "nonce_of (nonce_bytes n) = n"
proof -
  have "unat n < 2 ^ LENGTH(64)"
    by (rule unsigned_less)
  then have "unat n div 2 ^ 32 < 2 ^ 32"
    by (intro less_mult_imp_div_less) simp
  then have "from_le_bytes (to_le_bytes (unat n div 2 ^ 32)) = unat n div 2 ^ 32"
    by (rule from_to_le_bytes)
  moreover have "from_le_bytes (to_le_bytes (unat n mod 2 ^ 32)) = unat n mod 2 ^ 32"
    by (rule from_to_le_bytes) simp
  ultimately show ?thesis
    by (simp add: nonce_of_def nonce_bytes_def)
qed

definition link_io :: "(u8 list, u8 list, string, string) io_api" where
  "link_io =
     \<lparr>io_write_all = pipe_write, io_read_exact = pipe_read,
      io_to_allocvec =
        (\<lambda>m. case m of
           Handshake h \<Rightarrow> if h = greeting demo_loc demo_tok Dialer then Inr [0]
             else if h = greeting demo_loc demo_tok Acceptor then Inr [4] else Inl ''unsupported''
         | Ping n \<Rightarrow> Inr (1 # nonce_bytes n) | Pong n \<Rightarrow> Inr (2 # nonce_bytes n) | Clipboard c \<Rightarrow> Inr (3 # clip.content c)),
      io_from_bytes =
        (\<lambda>bs. case bs of
           [] \<Rightarrow> Inl ''empty''
         | tag # rest \<Rightarrow>
             if tag = 0 then Inr (Handshake (greeting demo_loc demo_tok Dialer))
             else if tag = 4 then Inr (Handshake (greeting demo_loc demo_tok Acceptor))
             else if tag = 1 then Inr (Ping (nonce_of rest))
             else if tag = 2 then Inr (Pong (nonce_of rest)) else Inr (Clipboard (demo_clip rest))),
      io_show_read = (\<lambda>e. e), io_show_framing = (\<lambda>_. ''framing'')\<rparr>"

lemma greeting_distinct: "greeting demo_loc demo_tok Acceptor \<noteq> greeting demo_loc demo_tok Dialer"
  by (simp add: greeting_def demo_tok_def)

lemma link_io_streams [simp]: "io_write_all link_io = pipe_write" "io_read_exact link_io = pipe_read"
  by (simp_all add: link_io_def)

lemma link_io_codec [simp]:
  "io_to_allocvec link_io (Handshake (greeting demo_loc demo_tok Dialer)) = Inr [0]"
  "io_to_allocvec link_io (Handshake (greeting demo_loc demo_tok Acceptor)) = Inr [4]"
  "io_to_allocvec link_io (Ping n) = Inr (1 # nonce_bytes n)" "io_to_allocvec link_io (Pong n) = Inr (2 # nonce_bytes n)"
  "io_from_bytes link_io [0] = Inr (Handshake (greeting demo_loc demo_tok Dialer))"
  "io_from_bytes link_io [4] = Inr (Handshake (greeting demo_loc demo_tok Acceptor))"
  "io_from_bytes link_io (1 # nonce_bytes n) = Inr (Ping n)" "io_from_bytes link_io (2 # nonce_bytes n) = Inr (Pong n)"
  using greeting_distinct by (simp_all add: link_io_def nonce_roundtrip)

lemma link_io_ok: "link_ok link_io (\<lambda>s. s) (\<lambda>r. r) (greeting demo_loc demo_tok)"
proof -
  have nonce: "length (nonce_bytes n) = 8" for n
    by (simp add: nonce_bytes_def)
  have "fits (io_to_allocvec link_io) (io_from_bytes link_io) (Handshake (greeting demo_loc demo_tok x))" for x
    by (cases x) (simp_all add: fits_def codec_ok_def max_frame_len_def)
  moreover have "fits (io_to_allocvec link_io) (io_from_bytes link_io) (Ping n)"
    and "fits (io_to_allocvec link_io) (io_from_bytes link_io) (Pong n)" for n
    by (simp_all add: fits_def codec_ok_def max_frame_len_def nonce)
  ultimately show ?thesis
    using pipe_appends pipe_takes_in_order by (auto simp: link_ok_def)
qed

definition demo_tag :: "side \<Rightarrow> u8" where
  "demo_tag x = (case x of Dialer \<Rightarrow> 0 | Acceptor \<Rightarrow> 4)"

definition demo_side :: "side \<Rightarrow> (u8 list, u8 list) driver" where
  "demo_side x = new_driver (demo_loc x) 20 (demo_tok x) (frame [demo_tag x]) []"

definition demo_link :: "(u8 list, u8 list) link" where
  "demo_link = \<lparr>ln_driver = demo_side, ln_reported = (\<lambda>_. []), ln_asked = (\<lambda>_. [])\<rparr>"

text \<open>A sending stream that is stopped after \<open>room\<close> bytes: the write that would pass them fails.\<close>

definition short_write :: "nat \<Rightarrow> u8 list \<Rightarrow> u8 list \<Rightarrow> (string + unit) \<times> u8 list" where
  "short_write room s bs =
     (if length (s @ bs) \<le> room then (Inr (), s @ bs) else (Inl ''stopped'', s @ take (room - length s) bs))"

definition short_io :: "(u8 list, u8 list, string, string) io_api" where
  "short_io = link_io\<lparr>io_write_all := short_write 5\<rparr>"

lemma short_io_honest: "link_honest short_io (\<lambda>s. s) (\<lambda>r. r) (greeting demo_loc demo_tok)"
proof -
  have "honest_writes (short_write 5) (\<lambda>s. s)"
    unfolding honest_writes_def short_write_def by (simp add: take_is_prefix)
  then show ?thesis
    using link_ok_honest [OF link_io_ok] by (simp add: link_honest_def short_io_def)
qed

lemma short_io_not_ok: "\<not> link_ok short_io (\<lambda>s. s) (\<lambda>r. r) h"
proof
  assume "link_ok short_io (\<lambda>s. s) (\<lambda>r. r) h"
  then have "fst (short_write 5 [] [0, 0, 0, 0, 0, 0]) = Inr ()"
    unfolding link_ok_def appends_def short_io_def by simp
  then show False
    by (simp add: short_write_def)
qed

text \<open>Both streams have room for a handshake.\<close>

lemma demo_started:
  assumes "io = link_io \<or> io = short_io"
  shows "feed io (new_driver (demo_loc x) 20 (demo_tok x) [] []) Started 0 0 = Some ([], demo_side x)"
proof -
  have h: "own_handshake (new_machine (demo_loc y) 20 (demo_tok y)) = greeting demo_loc demo_tok y" for y
    by (simp add: own_handshake_def new_machine_def greeting_def)
  show ?thesis
    using assms
    by (cases x) (auto simp: feed_def new_driver_def h demo_side_def demo_tag_def write_message_def encode_def pipe_write_def
        frame_def to_le_bytes_def short_io_def short_write_def)
qed

lemma demo_link_start:
  assumes "io = link_io \<or> io = short_io"
  shows "link_start io (\<lambda>s. s) (\<lambda>r. r) demo_loc demo_tok demo_link"
  unfolding link_start_def
proof
  fix x
  show "\<exists>interval s r nonce clock. feed io (new_driver (demo_loc x) interval (demo_tok x) s r) Started nonce clock
      = Some ([], ln_driver demo_link x) \<and> s = [] \<and> r = [] \<and> ln_reported demo_link x = [] \<and> ln_asked demo_link x = []"
    using demo_started [OF assms, of x] by (intro exI [of _ 20] exI [of _ "[]"] exI [of _ 0]) (simp add: demo_link_def)
qed

lemma demo_link_reachable: "link_reachable link_io (\<lambda>s. s) (\<lambda>r. r) demo_loc demo_tok demo_link"
  using demo_link_start [of link_io] by (auto simp: link_reachable_def)

lemma demo_link_idle: "clips_fit io demo_link" "dr_running (ln_driver demo_link x)"
  by (simp_all add: clips_fit_def demo_link_def demo_side_def new_driver_def)

theorem link_delivers_witness:
  "\<exists>l'. (link_step link_io (\<lambda>s. s) (\<lambda>r. r))\<^sup>*\<^sup>* demo_link l' \<and> (\<forall>x. phase (dr_machine (ln_driver l' x)) = Ready)"
  using link_delivers [OF link_io_ok demo_link_reachable demo_link_idle(1) demo_link_idle(2) demo_link_idle(2)] by blast

text \<open>The handshake of the other side arrives and is read.\<close>

definition demo_met :: "side \<Rightarrow> (u8 list, u8 list) driver" where
  "demo_met x = (demo_side x)\<lparr>dr_machine := (new_machine (demo_loc x) 20 (demo_tok x))\<lparr>phase := Ready\<rparr>\<rparr>"

definition greeted_link :: "side \<Rightarrow> (u8 list, u8 list) link" where
  "greeted_link x =
     \<lparr>ln_driver = demo_side(other_side x := (demo_side (other_side x))\<lparr>dr_send := []\<rparr>, x := demo_met x),
      ln_reported = (\<lambda>_. [])(x := [introduction (greeting demo_loc demo_tok (other_side x))]),
      ln_asked = (\<lambda>_. [])\<rparr>"

lemma greeted_turn:
  assumes "io = link_io \<or> io = short_io"
  shows "drive_step io ((demo_side x)\<lparr>dr_recv := frame [demo_tag (other_side x)]\<rparr>) (ReadCompletes, 0, 0)
     = Some ([introduction (greeting demo_loc demo_tok (other_side x))], demo_met x)"
proof -
  have "decode (io_from_bytes link_io) [demo_tag y] = Inr (Handshake (greeting demo_loc demo_tok y))" for y
    by (cases y) (simp_all add: decode_def demo_tag_def)
  then have "read_message pipe_read (io_from_bytes link_io) (frame [demo_tag y])
      = ((Inr (Handshake (greeting demo_loc demo_tok y)) :: (string, string) framing_error + message), [])" for y
    by (simp add: read_message_def pipe_read_def frame_def to_le_bytes_def from_le_bytes_def max_frame_len_def)
  then show ?thesis
    using assms
    by (auto simp: short_io_def drive_step_def demo_side_def demo_met_def new_driver_def new_machine_def feed_def greeting_def
        introduction_def)
qed

lemma greeted_link_reached:
  assumes "io = link_io \<or> io = short_io"
  shows "link_reachable io (\<lambda>s. s) (\<lambda>r. r) demo_loc demo_tok (greeted_link x)"
proof -
  let ?y = "other_side x"
  let ?mid = "demo_link\<lparr>ln_driver := demo_side
        (?y := (demo_side ?y)\<lparr>dr_send := []\<rparr>, x := (demo_side x)\<lparr>dr_recv := frame [demo_tag ?y]\<rparr>)\<rparr>"
  have one: "link_step io (\<lambda>s. s) (\<lambda>r. r) demo_link ?mid"
    using link_step.arrive [of "\<lambda>s. s" demo_link ?y "frame [demo_tag ?y]" "[]" "\<lambda>r. r" "frame [demo_tag ?y]" io]
    by (simp add: demo_link_def demo_side_def new_driver_def)
  have "undisturbed (\<lambda>r. r) ((demo_side x)\<lparr>dr_recv := frame [demo_tag ?y]\<rparr>) ReadCompletes"
    by (simp add: undisturbed_def readable_def frame_def to_le_bytes_def from_le_bytes_def)
  moreover have "greeted_link x =
      \<lparr>ln_driver = (ln_driver ?mid)(x := demo_met x),
       ln_reported = (ln_reported ?mid)(x := ln_reported ?mid x @ [introduction (greeting demo_loc demo_tok ?y)]),
       ln_asked = (ln_asked ?mid)(x := ln_asked ?mid x @ taken (ln_driver ?mid x) ReadCompletes)\<rparr>"
    by (simp add: greeted_link_def demo_link_def taken_def fun_eq_iff)
  moreover have "ln_driver ?mid x = (demo_side x)\<lparr>dr_recv := frame [demo_tag ?y]\<rparr>"
    by simp
  ultimately have two: "link_step io (\<lambda>s. s) (\<lambda>r. r) ?mid (greeted_link x)"
    using greeted_turn [OF assms, of x] by (metis link_step.turn)
  show ?thesis
    using demo_link_start [OF assms] one two unfolding link_reachable_def by (meson rtranclp.rtrancl_refl rtranclp.rtrancl_into_rtrancl)
qed

lemma greeted_link_reachable: "link_reachable link_io (\<lambda>s. s) (\<lambda>r. r) demo_loc demo_tok (greeted_link x)"
  by (simp add: greeted_link_reached)

lemma greeted_link_ready:
  "ready (ln_driver (greeted_link x) x)" "dr_running (ln_driver (greeted_link x) y)" "clips_fit link_io (greeted_link x)"
  using other_side_cases [of y x]
  by (auto simp: greeted_link_def demo_met_def demo_side_def new_driver_def ready_def clips_fit_def)

text \<open>
  A clip is handed over while the stream is full: the write fails after no byte and the session
  ends by a framing error, with the clip on record as taken.
\<close>

definition stopped_link :: "(u8 list, u8 list) link" where
  "stopped_link =
     \<lparr>ln_driver = (ln_driver (greeted_link Acceptor))(Acceptor := (demo_met Acceptor)\<lparr>dr_running := False\<rparr>),
      ln_reported = (ln_reported (greeted_link Acceptor))
        (Acceptor := [introduction (greeting demo_loc demo_tok Dialer), EvClosed (CloseFramingError ''framing'')]),
      ln_asked = (\<lambda>_. [])(Acceptor := [demo_clip [7]])\<rparr>"

lemma stopped_turn:
  "drive_step short_io (demo_met Acceptor) (CommandArrives (Some (CmdSendClipboard (demo_clip [7]))) 0, 0, 0)
     = Some ([EvClosed (CloseFramingError ''framing'')], (demo_met Acceptor)\<lparr>dr_running := False\<rparr>)"
proof -
  have "encode (io_to_allocvec link_io) (Clipboard (demo_clip [7])) = Inr [3, 7]"
    by (simp add: encode_def link_io_def demo_clip_def)
  then show ?thesis
    by (simp add: short_io_def drive_step_def demo_met_def demo_side_def new_driver_def new_machine_def drop_read_def feed_def
        write_message_def short_write_def to_le_bytes_def frame_def link_io_def)
qed

lemma stopped_link_reachable:
  "link_reachable short_io (\<lambda>s. s) (\<lambda>r. r) demo_loc demo_tok stopped_link" "clips_fit short_io stopped_link"
proof -
  let ?k = "CommandArrives (Some (CmdSendClipboard (demo_clip [7]))) 0"
  let ?l = "greeted_link Acceptor"
  have met: "ln_driver ?l Acceptor = demo_met Acceptor"
    by (simp add: greeted_link_def)
  have "stopped_link = \<lparr>ln_driver = (ln_driver ?l)(Acceptor := (demo_met Acceptor)\<lparr>dr_running := False\<rparr>),
       ln_reported = (ln_reported ?l)(Acceptor := ln_reported ?l Acceptor @ [EvClosed (CloseFramingError ''framing'')]),
       ln_asked = (ln_asked ?l)(Acceptor := ln_asked ?l Acceptor @ taken (ln_driver ?l Acceptor) ?k)\<rparr>"
    by (simp add: stopped_link_def greeted_link_def taken_def ready_def demo_met_def demo_side_def new_driver_def fun_eq_iff)
  moreover have "drive_step short_io (ln_driver ?l Acceptor) (?k, 0, 0)
      = Some ([EvClosed (CloseFramingError ''framing'')], (demo_met Acceptor)\<lparr>dr_running := False\<rparr>)"
    unfolding met by (rule stopped_turn)
  moreover have "undisturbed (\<lambda>r. r) (ln_driver ?l Acceptor) ?k"
    by (simp add: undisturbed_def)
  ultimately have "link_step short_io (\<lambda>s. s) (\<lambda>r. r) ?l stopped_link"
    by (metis link_step.turn)
  then show "link_reachable short_io (\<lambda>s. s) (\<lambda>r. r) demo_loc demo_tok stopped_link"
    using greeted_link_reached [of short_io] unfolding link_reachable_def by (meson rtranclp.rtrancl_into_rtrancl)
  show "clips_fit short_io stopped_link"
    by (auto simp: clips_fit_def stopped_link_def fits_def codec_ok_def short_io_def link_io_def demo_clip_def max_frame_len_def)
qed

theorem link_faithful_witness:
  "ln_reported stopped_link Acceptor
     = [EvPeerHandshake (li_device_id (demo_loc Dialer)) (li_name (demo_loc Dialer)) [] (Some [5]),
        EvClosed (CloseFramingError ''framing'')] \<and>
   (\<exists>s bs e. fst (io_write_all short_io s bs) = Inl e \<and>
      CloseFramingError ''framing'' = CloseFramingError (io_show_framing short_io (Write e)))"
  using link_faithful [OF short_io_honest stopped_link_reachable, of Acceptor]
  by (auto simp: stopped_link_def introduction_def greeting_def demo_loc_def demo_tok_def)

text \<open>The other handshake has been read, too: nothing is under way.\<close>

lemma quiet_demo_link:
  obtains l where "link_reachable link_io (\<lambda>s. s) (\<lambda>r. r) demo_loc demo_tok l" "clips_fit link_io l"
    "\<forall>y. dr_running (ln_driver l y) \<and> dr_send (ln_driver l y) = [] \<and> dr_recv (ln_driver l y) = []"
proof -
  let ?inv = "link_inv link_io (\<lambda>s. s) (\<lambda>r. r) (greeting demo_loc demo_tok)"
  have run: "both_running demo_link"
    using demo_link_idle(2) by (simp add: both_running_def)
  obtain l' rd' pd' where l': "(link_step link_io (\<lambda>s. s) (\<lambda>r. r))\<^sup>*\<^sup>* demo_link l'" "?inv l' rd' pd'" "both_running l'"
    "ln_asked l' = ln_asked demo_link" "\<forall>x. pd' x = []"
    using drain_all [OF link_inv_start [OF demo_link_start [OF disjI1, OF refl] link_ok_honest [OF link_io_ok]] link_io_ok demo_link_idle(1) run] .
  show thesis
  proof (rule that [of l'])
    show "link_reachable link_io (\<lambda>s. s) (\<lambda>r. r) demo_loc demo_tok l'"
      using demo_link_start [of link_io] l'(1) by (auto simp: link_reachable_def)
    show "clips_fit link_io l'"
      using l'(4) by (simp add: clips_fit_def demo_link_def)
    show "\<forall>y. dr_running (ln_driver l' y) \<and> dr_send (ln_driver l' y) = [] \<and> dr_recv (ln_driver l' y) = []"
      using l'(3,5) link_invD(1) [OF l'(2)] link_invD(2) [OF l'(2)] by (auto simp: both_running_def flow_def)
  qed
qed

theorem quiet_link_stays_up_witness:
  "\<exists>l. link_reachable link_io (\<lambda>s. s) (\<lambda>r. r) demo_loc demo_tok l \<and>
     (\<forall>evs d'. drive_step link_io (ln_driver l Dialer) (Ticks 100000 0, 7, 0) = Some (evs, d') \<longrightarrow> evs = [] \<and> dr_running d')"
proof -
  obtain l where l: "link_reachable link_io (\<lambda>s. s) (\<lambda>r. r) demo_loc demo_tok l" "clips_fit link_io l"
    "\<forall>y. dr_running (ln_driver l y) \<and> dr_send (ln_driver l y) = [] \<and> dr_recv (ln_driver l y) = []"
    by (rule quiet_demo_link)
  from quiet_link_stays_up [OF link_io_ok l] l(1) show ?thesis by blast
qed

end
