(* ===== verification/Listener.thy ===== *)
theory Listener
  imports Session Rust_Net
begin

text \<open>
  \<open>crates/net/src/listener.rs\<close>: one task per incoming connection, each sending its events to the
  same channel. What QUIC did with a connection attempt is the record \<open>incoming\<close>; the events of
  its session are those of \<open>Session\<close>. The tasks run concurrently: the channel receives some
  interleaving of what they send.
\<close>

datatype listener_event =
    LConnected socket_addr nat
  | LSession socket_addr session_event

datatype accept_error = AcceptConnection string | AcceptSession string

record incoming =
  in_accept :: "string + unit"
  in_handshake :: "string + unit"
  in_remote :: socket_addr
  in_stream :: "string + unit"
  in_conn :: nat
  in_events :: "session_event list"

text \<open>
  The result, the events sent, and whether the session was closed because nobody listens.
\<close>

definition accept_and_drain :: "incoming \<Rightarrow> bool \<Rightarrow> (accept_error + unit) \<times> listener_event list \<times> bool" where
  "accept_and_drain c receiver_alive =
     (case in_accept c of Inl e \<Rightarrow> (Inl (AcceptConnection e), [], False)
      | Inr _ \<Rightarrow> (case in_handshake c of Inl e \<Rightarrow> (Inl (AcceptConnection e), [], False)
      | Inr _ \<Rightarrow> (case in_stream c of Inl e \<Rightarrow> (Inl (AcceptSession e), [], False)
      | Inr _ \<Rightarrow>
          if \<not> receiver_alive then (Inr (), [], True)
          else (Inr (), LConnected (in_remote c) (in_conn c) #
                  map (LSession (in_remote c)) (fst (drain (in_events c))), False))))"

text \<open>\<open>run\<close>: a task per accepted attempt until the endpoint is closed (\<open>None\<close>).\<close>

fun listener_tasks :: "incoming option list \<Rightarrow> listener_event list list" where
  "listener_tasks [] = []"
| "listener_tasks (None # cs) = []"
| "listener_tasks (Some c # cs) = fst (snd (accept_and_drain c True)) # listener_tasks cs"

inductive interleaving :: "'a list list \<Rightarrow> 'a list \<Rightarrow> bool" where
  all_done: "\<forall>xs \<in> set tasks. xs = [] \<Longrightarrow> interleaving tasks []"
| task_sends: "i < length tasks \<Longrightarrow> tasks ! i = x # xs \<Longrightarrow> interleaving (tasks[i := xs]) ys \<Longrightarrow>
    interleaving tasks (x # ys)"

inductive_cases interleaving_NilE: "interleaving tasks []"
inductive_cases interleaving_ConsE: "interleaving tasks (x # ys)"

fun event_remote :: "listener_event \<Rightarrow> socket_addr" where
  "event_remote (LConnected r _) = r"
| "event_remote (LSession r _) = r"

text \<open>Each task speaks of one remote address only, and no two of the same.\<close>

definition owned :: "socket_addr list \<Rightarrow> listener_event list list \<Rightarrow> bool" where
  "owned rs tasks \<longleftrightarrow> distinct rs \<and> length tasks = length rs \<and>
     (\<forall>i < length rs. \<forall>ev \<in> set (tasks ! i). event_remote ev = rs ! i)"

lemma interleaving_projection:
  "interleaving tasks trace \<Longrightarrow> owned rs tasks \<Longrightarrow> i < length rs \<Longrightarrow>
     filter (\<lambda>ev. event_remote ev = rs ! i) trace = tasks ! i"
proof (induction rule: interleaving.induct)
  case (all_done tasks)
  then have "tasks ! i \<in> set tasks"
    by (simp add: owned_def)
  then have "tasks ! i = []"
    using all_done(1) by blast
  then show ?case by simp
next
  case (task_sends j tasks x xs ys)
  have x: "event_remote x = rs ! j"
    using task_sends.prems(1) task_sends.hyps(1,2) by (auto simp: owned_def)
  have "\<forall>ev \<in> set (tasks[j := xs] ! k). event_remote ev = rs ! k" if "k < length rs" for k
    using task_sends.prems(1) task_sends.hyps(1,2) that
    by (cases "k = j") (fastforce simp: owned_def)+
  then have "owned rs (tasks[j := xs])"
    using task_sends.prems(1) by (simp add: owned_def)
  then have ih: "filter (\<lambda>ev. event_remote ev = rs ! i) ys = tasks[j := xs] ! i"
    using task_sends.IH task_sends.prems(2) by blast
  show ?case
  proof (cases "i = j")
    case True
    then show ?thesis
      using ih x task_sends.hyps(1,2) by simp
  next
    case False
    then have "rs ! i \<noteq> rs ! j"
      using task_sends.prems task_sends.hyps(1) by (simp add: owned_def nth_eq_iff_index_eq)
    then show ?thesis
      using ih x False by simp
  qed
qed

lemma length_listener_tasks: "length (listener_tasks (map Some cs)) = length cs"
  by (induction cs) simp_all

lemma nth_listener_tasks:
  "i < length cs \<Longrightarrow> listener_tasks (map Some cs) ! i = fst (snd (accept_and_drain (cs ! i) True))"
  by (induction cs arbitrary: i) (auto simp: nth_Cons split: nat.splits)

lemma accept_and_drain_remote:
  "ev \<in> set (fst (snd (accept_and_drain c b))) \<Longrightarrow> event_remote ev = in_remote c"
  by (auto simp: accept_and_drain_def split: sum.splits if_splits)

text \<open>
  The listener keeps each connection's story straight, when no two connections come from the same
  address. Whatever order the concurrent tasks are scheduled in, the channel's events of one
  remote address are: nothing, if the attempt did not complete; otherwise first that the
  connection came up, once, with its handle, then the session's own events in the session's
  order, up to and including its close. (Connections from one address, as when a phone redials
  from the socket it dialed from before, mix their events.)
\<close>

theorem listener_keeps_order:
  assumes "interleaving (listener_tasks (map Some cs)) trace" and "distinct (map in_remote cs)" and "i < length cs"
  shows "filter (\<lambda>ev. event_remote ev = in_remote (cs ! i)) trace =
    (if in_accept (cs ! i) = Inr () \<and> in_handshake (cs ! i) = Inr () \<and> in_stream (cs ! i) = Inr ()
     then LConnected (in_remote (cs ! i)) (in_conn (cs ! i)) #
       map (LSession (in_remote (cs ! i))) (fst (drain (in_events (cs ! i))))
     else [])"
proof -
  have "owned (map in_remote cs) (listener_tasks (map Some cs))"
    using assms(2) by (auto simp: owned_def length_listener_tasks nth_listener_tasks dest: accept_and_drain_remote)
  from interleaving_projection [OF assms(1) this, of i]
  have "filter (\<lambda>ev. event_remote ev = in_remote (cs ! i)) trace = fst (snd (accept_and_drain (cs ! i) True))"
    using assms(3) by (simp add: nth_listener_tasks)
  then show ?thesis
    by (auto simp: accept_and_drain_def split: sum.splits)
qed

definition demo_incoming :: "u16 \<Rightarrow> nat \<Rightarrow> session_event list \<Rightarrow> incoming" where
  "demo_incoming port conn evs =
     \<lparr>in_accept = Inr (), in_handshake = Inr (), in_remote = SocketV4 10 0 0 1 port, in_stream = Inr (),
      in_conn = conn, in_events = evs\<rparr>"

theorem listener_keeps_order_witness:
  "filter (\<lambda>ev. event_remote ev = SocketV4 10 0 0 1 7)
     [LConnected (SocketV4 10 0 0 1 7) 1, LConnected (SocketV4 10 0 0 1 8) 2,
      LSession (SocketV4 10 0 0 1 7) (EvClosed CloseKeepaliveTimedOut)]
   = [LConnected (SocketV4 10 0 0 1 7) 1, LSession (SocketV4 10 0 0 1 7) (EvClosed CloseKeepaliveTimedOut)]"
proof -
  let ?cs = "[demo_incoming 7 1 [EvClosed CloseKeepaliveTimedOut], demo_incoming 8 2 []]"
  let ?closed = "LSession (SocketV4 10 0 0 1 7) (EvClosed CloseKeepaliveTimedOut)"
  let ?one = "LConnected (SocketV4 10 0 0 1 7) 1" and ?two = "LConnected (SocketV4 10 0 0 1 8) 2"
  have "interleaving [[], []] []"
    by (rule all_done) simp
  then have "interleaving [[?closed], []] [?closed]"
    using task_sends [of 0 "[[?closed], []]" ?closed "[]" "[]"] by simp
  then have "interleaving [[?closed], [?two]] [?two, ?closed]"
    using task_sends [of 1 "[[?closed], [?two]]" ?two "[]" "[?closed]"] by simp
  then have "interleaving [[?one, ?closed], [?two]] [?one, ?two, ?closed]"
    using task_sends [of 0 "[[?one, ?closed], [?two]]" ?one "[?closed]" "[?two, ?closed]"] by simp
  then have "interleaving (listener_tasks (map Some ?cs)) [?one, ?two, ?closed]"
    by (simp add: demo_incoming_def accept_and_drain_def)
  from listener_keeps_order [OF this, of 0] show ?thesis
    by (simp add: demo_incoming_def)
qed

end
