(* ===== verification/Reconnect.thy ===== *)
theory Reconnect
  imports Session Backoff
begin

text \<open>
  \<open>crates/net/src/reconnect.rs\<close>: the dialer's loop. One turn of the loop is a step; what the
  network did in that turn is its input: the attempt failed, or a session came up, reported
  some events and ended. Whether the receiver of the loop's own events still exists is checked
  by the code at three places, so a turn also says at which of them it was already gone.
\<close>

datatype connect_once_error = ConnectError string | ConnectionError string | SessionOpenError string

text \<open>A session is a handle (its connection number) with the events it reports.\<close>

datatype attempt_outcome =
    AttemptFails connect_once_error
  | SessionRuns nat "session_event list"

record turn =
  outcome :: attempt_outcome
  open_when_connected :: bool
  open_after :: bool
  open_when_retrying :: bool

datatype dialer_event =
    DialConnected nat
  | DialSession session_event
  | Reconnecting u32 duration

text \<open>
  What the loop does, in order: dial with a token or without, emit an event, close a session
  nobody wants, sleep.
\<close>

datatype dial_effect =
    Dials "token_bytes option"
  | Emits dialer_event
  | ClosesSession nat
  | Sleeps duration

record dialer =
  attempt :: u32
  token_left :: "token_bytes option"
  dialing :: bool

definition dialer_start :: "token_bytes option \<Rightarrow> dialer" where
  "dialer_start tok = \<lparr>attempt = 0, token_left = tok, dialing = True\<rparr>"

text \<open>\<open>connect_once\<close>: dial, wait for the QUIC handshake, open the control stream.\<close>

definition connect_once ::
  "string + unit \<Rightarrow> string + unit \<Rightarrow> string + unit \<Rightarrow> nat \<Rightarrow> session_event list \<Rightarrow> attempt_outcome" where
  "connect_once connect handshake open_stream conn evs =
     (case connect of Inl e \<Rightarrow> AttemptFails (ConnectError e)
      | Inr _ \<Rightarrow> (case handshake of Inl e \<Rightarrow> AttemptFails (ConnectionError e)
      | Inr _ \<Rightarrow> (case open_stream of Inl e \<Rightarrow> AttemptFails (SessionOpenError e)
      | Inr _ \<Rightarrow> SessionRuns conn evs)))"

text \<open>The part of the loop after the attempt.\<close>

definition back_off :: "turn \<Rightarrow> dialer \<Rightarrow> dial_effect list \<times> dialer" where
  "back_off t d =
     (if \<not> open_after t then ([], d\<lparr>dialing := False\<rparr>)
      else (let wait = delay (attempt d) in
        if \<not> open_when_retrying t then ([], d\<lparr>dialing := False\<rparr>)
        else ([Emits (Reconnecting (attempt d) wait), Sleeps wait], d\<lparr>attempt := saturating_succ (attempt d)\<rparr>)))"

definition dial_turn :: "dialer \<Rightarrow> turn \<Rightarrow> dial_effect list \<times> dialer" where
  "dial_turn d t =
     (if \<not> dialing d then ([], d)
      else (let tok = token_left d; d1 = d\<lparr>token_left := None\<rparr> in
        case outcome t of
          SessionRuns conn evs \<Rightarrow>
            (let d2 = d1\<lparr>attempt := 0\<rparr> in
             if \<not> open_when_connected t
             then ([Dials tok, ClosesSession conn], d2\<lparr>dialing := False\<rparr>)
             else (case back_off t d2 of
               (effs, d3) \<Rightarrow>
                 (Dials tok # Emits (DialConnected conn) # map (Emits \<circ> DialSession) (fst (drain evs)) @ effs, d3)))
        | AttemptFails e \<Rightarrow>
            (case back_off t d1 of (effs, d2) \<Rightarrow> (Dials tok # effs, d2))))"

definition dial_loop :: "dialer \<Rightarrow> turn list \<Rightarrow> (dial_effect list \<times> dialer) option" where
  "dial_loop d ts = run_steps (total_step dial_turn) d ts"

lemma dial_loop_simps:
  "dial_loop d [] = Some ([], d)"
  "dial_loop d (t # ts) =
     (case dial_turn d t of (effs, d1) \<Rightarrow> map_option (\<lambda>(effs', d2). (effs @ effs', d2)) (dial_loop d1 ts))"
  by (auto simp: dial_loop_def total_step_def split: option.splits prod.splits)

lemma dial_loop_total: "\<exists>effs d'. dial_loop d ts = Some (effs, d')"
proof (induction ts arbitrary: d)
  case Nil
  then show ?case by (simp add: dial_loop_simps)
next
  case (Cons t ts)
  obtain effs d1 where "dial_turn d t = (effs, d1)"
    by (metis surj_pair)
  moreover obtain effs' d' where "dial_loop d1 ts = Some (effs', d')"
    using Cons.IH [of d1] by blast
  ultimately show ?case by (simp add: dial_loop_simps)
qed

section \<open>The pairing token\<close>

definition dials :: "dial_effect list \<Rightarrow> token_bytes option list" where
  "dials effs = List.map_filter (\<lambda>e. case e of Dials tok \<Rightarrow> Some tok | _ \<Rightarrow> None) effs"

lemma dials_simps [simp]:
  "dials [] = []" "dials (Dials tok # effs) = tok # dials effs" "dials (Emits ev # effs) = dials effs"
  "dials (ClosesSession c # effs) = dials effs" "dials (Sleeps w # effs) = dials effs"
  "dials (xs @ ys) = dials xs @ dials ys" "dials (map (Emits \<circ> f) evs) = []"
  by (simp_all add: dials_def List.map_filter_def filter_empty_conv)

lemma back_off_frame:
  "back_off t d = (effs, d') \<Longrightarrow> dials effs = [] \<and> token_left d' = token_left d"
  by (auto simp: back_off_def Let_def split: if_splits)

lemma dial_turn_dials:
  assumes "dial_turn d t = (effs, d')" and "dialing d"
  shows "dials effs = [token_left d] \<and> token_left d' = None"
  using assms back_off_frame
  by (fastforce simp: dial_turn_def Let_def split: attempt_outcome.splits prod.splits if_splits)

lemma dial_loop_no_token:
  "dial_loop d ts = Some (effs, d') \<Longrightarrow> token_left d = None \<Longrightarrow> set (dials effs) \<subseteq> {None}"
proof (induction ts arbitrary: d effs)
  case Nil
  then show ?case by (simp add: dial_loop_simps)
next
  case (Cons t ts)
  obtain effs1 d1 where t: "dial_turn d t = (effs1, d1)"
    by (metis surj_pair)
  then obtain effs2 where l: "dial_loop d1 ts = Some (effs2, d')" "effs = effs1 @ effs2"
    using Cons.prems(1) by (auto simp: dial_loop_simps)
  show ?case
  proof (cases "dialing d")
    case True
    then show ?thesis
      using dial_turn_dials [OF t] Cons.IH [OF l(1)] Cons.prems(2) l(2) by auto
  next
    case False
    then have "effs1 = []" and "d1 = d"
      using t by (simp_all add: dial_turn_def)
    then show ?thesis
      using Cons.IH [OF l(1)] Cons.prems(2) l(2) by auto
  qed
qed


definition open_turn :: "attempt_outcome \<Rightarrow> turn" where
  "open_turn o' = \<lparr>outcome = o', open_when_connected = True, open_after = True, open_when_retrying = True\<rparr>"


section \<open>The schedule\<close>

text \<open>
  The specification: the retries of a loop, each as its number and its delay, when the number of
  the next one is \<open>n\<close>. A session that came up starts the count again.
\<close>

fun retry_schedule :: "nat \<Rightarrow> attempt_outcome list \<Rightarrow> (nat \<times> duration) list" where
  "retry_schedule n [] = []"
| "retry_schedule n (AttemptFails e # os) =
     (n, from_secs (min (2 ^ n) 60)) # retry_schedule (min (Suc n) u32_max) os"
| "retry_schedule n (SessionRuns c evs # os) = (0, from_secs 1) # retry_schedule 1 os"

text \<open>
  What the loop does about time: it dials, it announces a retry with its number and delay, it
  sleeps. In between it may report a connection and the events of its session.
\<close>

datatype pace = Redial | Announce nat duration | Pause duration

definition pacing :: "dial_effect list \<Rightarrow> pace list" where
  "pacing effs = List.map_filter
     (\<lambda>e. case e of
        Dials tok \<Rightarrow> Some Redial
      | Emits (Reconnecting n w) \<Rightarrow> Some (Announce (unat n) w)
      | Sleeps w \<Rightarrow> Some (Pause w)
      | _ \<Rightarrow> None) effs"

lemma pacing_simps [simp]:
  "pacing [] = []" "pacing (Dials tok # effs) = Redial # pacing effs"
  "pacing (Emits (Reconnecting n w) # effs) = Announce (unat n) w # pacing effs"
  "pacing (Emits (DialConnected c) # effs) = pacing effs"
  "pacing (Emits (DialSession ev) # effs) = pacing effs"
  "pacing (ClosesSession c # effs) = pacing effs" "pacing (Sleeps w # effs) = Pause w # pacing effs"
  "pacing (xs @ ys) = pacing xs @ pacing ys" "pacing (map (Emits \<circ> DialSession) evs) = []"
  by (simp_all add: pacing_def List.map_filter_def filter_empty_conv)

text \<open>Each turn dials once, then announces and keeps the delay of the schedule.\<close>

definition paced :: "(nat \<times> duration) list \<Rightarrow> pace list" where
  "paced schedule = concat (map (\<lambda>(n, w). [Redial, Announce n w, Pause w]) schedule)"

lemma paced_simps [simp]:
  "paced [] = []" "paced ((n, w) # schedule) = Redial # Announce n w # Pause w # paced schedule"
  by (simp_all add: paced_def)

definition stays_open :: "turn \<Rightarrow> bool" where
  "stays_open t \<longleftrightarrow> open_when_connected t \<and> open_after t \<and> open_when_retrying t"

lemma delay_eq_spec: "delay a = from_secs (min (2 ^ unat a) 60)"
  by (simp add: delay_eq delay_spec_def min_from_secs [symmetric] base_def cap_def from_secs_mult)

lemma dial_turn_open:
  assumes "stays_open t" and "dialing d" and "dial_turn d t = (effs, d')"
  shows "dialing d' \<and> (\<forall>os. paced (retry_schedule (unat (attempt d)) (outcome t # os))
      = pacing effs @ paced (retry_schedule (unat (attempt d')) os))"
proof (cases "outcome t")
  case (AttemptFails e)
  then have "effs = [Dials (token_left d), Emits (Reconnecting (attempt d) (delay (attempt d))), Sleeps (delay (attempt d))]"
    and "attempt d' = saturating_succ (attempt d)" and "dialing d'"
    using assms by (auto simp: dial_turn_def back_off_def stays_open_def Let_def)
  then show ?thesis
    using AttemptFails by (simp add: delay_eq_spec unat_saturating_succ)
next
  case (SessionRuns c evs)
  then have "pacing effs = [Redial, Announce 0 (delay 0), Pause (delay 0)]" and "attempt d' = 1" and "dialing d'"
    using assms by (auto simp: dial_turn_def back_off_def stays_open_def Let_def saturating_succ_def u32_max_def)
  then show ?thesis
    using SessionRuns by (simp add: delay_eq_spec)
qed

text \<open>
  C23. The reconnect schedule, and that the loop never gives up. As long as somebody listens to
  its events the loop keeps dialing, whatever the network does and however long it goes on, and
  between two dials it always announces the retry and then sleeps the very delay announced:
  min(2^n, 60) seconds for the n-th retry after the last session (counted from zero), and one
  second again for the first retry after a session that came up. The 32-bit counter stops at
  its maximum instead of starting again at short delays.
\<close>

theorem reconnect_schedule:
  assumes "\<forall>t \<in> set ts. stays_open t" and "dial_loop (dialer_start tok) ts = Some (effs, d')"
  shows "dialing d' \<and> pacing effs = paced (retry_schedule 0 (map outcome ts))"
proof -
  have "dialing d \<Longrightarrow> dial_loop d ts = Some (effs, d') \<Longrightarrow> \<forall>t \<in> set ts. stays_open t \<Longrightarrow>
    dialing d' \<and> pacing effs = paced (retry_schedule (unat (attempt d)) (map outcome ts))" for d
  proof (induction ts arbitrary: d effs)
    case Nil
    then show ?case by (simp add: dial_loop_simps)
  next
    case (Cons t ts)
    obtain effs1 d1 where t: "dial_turn d t = (effs1, d1)"
      by (metis surj_pair)
    then obtain effs2 where l: "dial_loop d1 ts = Some (effs2, d')" "effs = effs1 @ effs2"
      using Cons.prems(2) by (auto simp: dial_loop_simps)
    have "stays_open t" using Cons.prems(3) by simp
    from dial_turn_open [OF this Cons.prems(1) t] show ?case
      using Cons.IH [OF _ l(1)] Cons.prems(3) l(2) by simp
  qed
  from this [of "dialer_start tok"] assms show ?thesis
    by (simp add: dialer_start_def)
qed

theorem reconnect_schedule_witness:
  "\<exists>effs d'. dial_loop (dialer_start None)
      [open_turn (AttemptFails (ConnectionError ''e'')), open_turn (AttemptFails (ConnectionError ''e'')),
       open_turn (SessionRuns 1 []), open_turn (AttemptFails (ConnectionError ''e''))] = Some (effs, d') \<and>
    pacing effs = [Redial, Announce 0 (from_secs 1), Pause (from_secs 1), Redial, Announce 1 (from_secs 2), Pause (from_secs 2),
      Redial, Announce 0 (from_secs 1), Pause (from_secs 1), Redial, Announce 1 (from_secs 2), Pause (from_secs 2)]"
proof -
  let ?ts = "[open_turn (AttemptFails (ConnectionError ''e'')), open_turn (AttemptFails (ConnectionError ''e'')),
       open_turn (SessionRuns 1 []), open_turn (AttemptFails (ConnectionError ''e''))]"
  obtain effs d' where l: "dial_loop (dialer_start None) ?ts = Some (effs, d')"
    using dial_loop_total [of _ ?ts] by blast
  have "\<forall>t \<in> set ?ts. stays_open t"
    by (simp add: open_turn_def stays_open_def)
  from reconnect_schedule [OF this l] l show ?thesis
    by (simp add: open_turn_def u32_max_def)
qed

end
