(* ===== verification/Device_Set.thy ===== *)
theory Device_Set
  imports Message
begin

text \<open>
  The contracts of a component that remembers devices. Several components keep such a set (the
  TLS trust store, the daemon's persisted state, the Android core's persisted peers); what
  the rest of the program needs of them is stated once, as locales, and each component
  interprets them on its own operations.
\<close>

definition device_id_ok :: "device_id \<Rightarrow> bool" where
  "device_id_ok i \<longleftrightarrow> length i = device_id_len"

locale device_set =
  fixes ok :: "'s \<Rightarrow> bool"
    and elems :: "'s \<Rightarrow> device_id set"
    and add :: "'s \<Rightarrow> device_id \<Rightarrow> string \<Rightarrow> 's"
  assumes ok_add: "ok s \<Longrightarrow> device_id_ok i \<Longrightarrow> ok (add s i n)"
    and elems_add: "ok s \<Longrightarrow> device_id_ok i \<Longrightarrow> elems (add s i n) = insert i (elems s)"

locale revocable_set = device_set ok elems add
  for ok :: "'s \<Rightarrow> bool" and elems :: "'s \<Rightarrow> device_id set" and add :: "'s \<Rightarrow> device_id \<Rightarrow> string \<Rightarrow> 's" +
  fixes del :: "'s \<Rightarrow> device_id \<Rightarrow> 's"
  assumes ok_del: "ok s \<Longrightarrow> device_id_ok i \<Longrightarrow> ok (del s i)"
    and elems_del: "ok s \<Longrightarrow> device_id_ok i \<Longrightarrow> elems (del s i) = elems s - {i}"

text \<open>A set that also remembers the name each device was last given.\<close>

locale named_devices = device_set ok elems add
  for ok :: "'s \<Rightarrow> bool" and elems :: "'s \<Rightarrow> device_id set" and add :: "'s \<Rightarrow> device_id \<Rightarrow> string \<Rightarrow> 's" +
  fixes name_of :: "'s \<Rightarrow> device_id \<Rightarrow> string option"
  assumes elems_name_of: "ok s \<Longrightarrow> elems s = dom (name_of s)"
    and name_of_add: "ok s \<Longrightarrow> device_id_ok i \<Longrightarrow> name_of (add s i n) = (name_of s)(i \<mapsto> n)"

text \<open>Histories of a set, and two sets that go through the same history.\<close>

datatype device_op = Add device_id string | Del device_id

fun op_device :: "device_op \<Rightarrow> device_id" where
  "op_device (Add i _) = i"
| "op_device (Del i) = i"

fun device_op_step :: "('s \<Rightarrow> device_id \<Rightarrow> string \<Rightarrow> 's) \<Rightarrow> ('s \<Rightarrow> device_id \<Rightarrow> 's) \<Rightarrow> device_op \<Rightarrow> 's \<Rightarrow> 's" where
  "device_op_step add del (Add i n) s = add s i n"
| "device_op_step add del (Del i) s = del s i"

definition device_ops_ok :: "device_op list \<Rightarrow> bool" where
  "device_ops_ok ops \<longleftrightarrow> (\<forall>p \<in> set ops. device_id_ok (op_device p))"

lemma device_ops_ok_simps [simp]:
  "device_ops_ok []"
  "device_ops_ok (p # ops) \<longleftrightarrow> device_id_ok (op_device p) \<and> device_ops_ok ops"
  by (simp_all add: device_ops_ok_def)

fun device_op_set :: "device_op \<Rightarrow> device_id set \<Rightarrow> device_id set" where
  "device_op_set (Add i _) D = insert i D"
| "device_op_set (Del i) D = D - {i}"

context revocable_set
begin

lemma history_step:
  "ok s \<Longrightarrow> device_id_ok (op_device p) \<Longrightarrow>
     ok (device_op_step add del p s) \<and> elems (device_op_step add del p s) = device_op_set p (elems s)"
  by (cases p) (simp_all add: ok_add elems_add ok_del elems_del)

lemma history:
  "ok s \<Longrightarrow> device_ops_ok ops \<Longrightarrow>
     ok (fold (device_op_step add del) ops s) \<and>
     elems (fold (device_op_step add del) ops s) = fold device_op_set ops (elems s)"
proof (induction ops arbitrary: s)
  case Nil
  then show ?case by simp
next
  case (Cons p ops)
  then show ?case using history_step [of s p] by simp
qed

end

locale mirrored_sets =
  left: revocable_set okl eleml addl dell + right: revocable_set okr elemr addr delr
  for okl :: "'l \<Rightarrow> bool" and eleml addl dell and okr :: "'r \<Rightarrow> bool" and elemr addr delr
begin

lemma mirrored:
  assumes "okl l" and "okr r" and "eleml l = elemr r" and "device_ops_ok ops"
  shows "eleml (fold (device_op_step addl dell) ops l) = elemr (fold (device_op_step addr delr) ops r)"
  using left.history [OF assms(1,4)] right.history [OF assms(2,4)] assms(3) by simp

end

end
