(* ===== verification/Trust.thy ===== *)
theory Trust
  imports Device_Set Rust_Time
begin

text \<open>
  \<open>crates/net/src/tls.rs\<close>: the set of pinned device keys with its pairing window, and the
  certificate verifier both ends of a connection use. A \<open>HashSet\<close> is a set; the locks of the
  source guard single accesses, so an operation is a function of the store. Parsing a
  certificate (\<open>webpki\<close>) and SHA-256 (\<open>sha2\<close>) are parameters. The other methods of the
  verifier are in \<open>Verifier\<close>.
\<close>

record trust_store =
  paired :: "device_id set"
  pairing_deadline :: "instant option"

definition trust_new :: "device_id list \<Rightarrow> trust_store" where
  "trust_new ids = \<lparr>paired = set ids, pairing_deadline = None\<rparr>"

definition is_paired :: "trust_store \<Rightarrow> device_id \<Rightarrow> bool" where
  "is_paired t i \<longleftrightarrow> i \<in> paired t"

definition pin :: "trust_store \<Rightarrow> device_id \<Rightarrow> trust_store" where
  "pin t i = t\<lparr>paired := insert i (paired t)\<rparr>"

definition unpair :: "trust_store \<Rightarrow> device_id \<Rightarrow> trust_store" where
  "unpair t i = t\<lparr>paired := paired t - {i}\<rparr>"

definition paired_devices :: "trust_store \<Rightarrow> device_id set" where
  "paired_devices t = paired t"

definition open_pairing_window :: "trust_store \<Rightarrow> instant \<Rightarrow> trust_store" where
  "open_pairing_window t deadline = t\<lparr>pairing_deadline := Some deadline\<rparr>"

definition close_pairing_window :: "trust_store \<Rightarrow> trust_store" where
  "close_pairing_window t = t\<lparr>pairing_deadline := None\<rparr>"

definition pairing_open :: "trust_store \<Rightarrow> instant \<Rightarrow> bool" where
  "pairing_open t now = (case pairing_deadline t of Some deadline \<Rightarrow> now < deadline | None \<Rightarrow> False)"

lemmas trust_defs = trust_new_def is_paired_def pin_def unpair_def paired_devices_def
  open_pairing_window_def close_pairing_window_def pairing_open_def

text \<open>As a set of devices; a trust store has no use for names.\<close>

interpretation trust: revocable_set "\<lambda>_. True" paired "\<lambda>t i _. pin t i" unpair
  by unfold_locales (auto simp: trust_defs)

section \<open>The verifier\<close>

datatype tls_error = General string

text \<open>\<open>device_id_from_spki\<close> of \<open>identity.rs\<close>; \<open>sha256\<close> yields 32 bytes.\<close>

definition device_id_from_spki :: "(u8 list \<Rightarrow> u8 list) \<Rightarrow> u8 list \<Rightarrow> device_id" where
  "device_id_from_spki sha256 spki_der = sha256 spki_der"

definition device_id_of ::
  "(u8 list \<Rightarrow> u8 list option) \<Rightarrow> (u8 list \<Rightarrow> u8 list) \<Rightarrow> u8 list \<Rightarrow> tls_error + device_id" where
  "device_id_of spki_of sha256 cert =
     (case spki_of cert of
        None \<Rightarrow> Inl (General ''malformed peer certificate'')
      | Some spki \<Rightarrow> Inr (device_id_from_spki sha256 spki))"

definition check ::
  "(u8 list \<Rightarrow> u8 list option) \<Rightarrow> (u8 list \<Rightarrow> u8 list) \<Rightarrow> trust_store \<Rightarrow> u8 list \<Rightarrow> instant
     \<Rightarrow> tls_error + unit" where
  "check spki_of sha256 trust cert now =
     (case device_id_of spki_of sha256 cert of
        Inl e \<Rightarrow> Inl e
      | Inr i \<Rightarrow>
          if is_paired trust i \<or> pairing_open trust now then Inr ()
          else Inl (General (''unpinned peer device '' @ short_fingerprint i)))"

text \<open>The same check, whichever side is being authenticated.\<close>

definition verify_server_cert where
  "verify_server_cert spki_of sha256 trust end_entity now =
     (case check spki_of sha256 trust end_entity now of Inl e \<Rightarrow> Inl e | Inr _ \<Rightarrow> Inr ())"

definition verify_client_cert where
  "verify_client_cert spki_of sha256 trust end_entity now =
     (case check spki_of sha256 trust end_entity now of Inl e \<Rightarrow> Inl e | Inr _ \<Rightarrow> Inr ())"

definition client_auth_mandatory :: bool where
  "client_auth_mandatory \<longleftrightarrow> True"

definition offer_client_auth :: bool where
  "offer_client_auth \<longleftrightarrow> True"

lemma check_Inr_iff:
  "check spki_of sha trust cert now = Inr () \<longleftrightarrow>
     (\<exists>spki. spki_of cert = Some spki \<and>
        (is_paired trust (sha spki) \<or> (\<exists>d. pairing_deadline trust = Some d \<and> now < d)))"
  by (auto simp: check_def device_id_of_def device_id_from_spki_def pairing_open_def
      split: option.splits)

lemma verify_server_cert_eq: "verify_server_cert = check"
  by (intro ext) (simp add: verify_server_cert_def split: sum.split)

lemma verify_client_cert_eq: "verify_client_cert = check"
  by (intro ext) (simp add: verify_client_cert_def split: sum.split)

section \<open>Histories of the store\<close>

datatype trust_op = Pin device_id | Unpair device_id | OpenWindow instant | CloseWindow

fun apply_op :: "trust_op \<Rightarrow> trust_store \<Rightarrow> trust_store" where
  "apply_op (Pin i) t = pin t i"
| "apply_op (Unpair i) t = unpair t i"
| "apply_op (OpenWindow d) t = open_pairing_window t d"
| "apply_op CloseWindow t = close_pairing_window t"

definition apply_ops :: "trust_op list \<Rightarrow> trust_store \<Rightarrow> trust_store" where
  "apply_ops ops t = fold apply_op ops t"

lemma apply_ops_append: "apply_ops (xs @ ys) t = apply_ops ys (apply_ops xs t)"
  by (simp add: apply_ops_def)

lemma apply_ops_unpaired:
  "i \<notin> paired t \<Longrightarrow> Pin i \<notin> set ops \<Longrightarrow> i \<notin> paired (apply_ops ops t)"
proof (induction ops arbitrary: t)
  case Nil
  then show ?case by (simp add: apply_ops_def)
next
  case (Cons op ops)
  then have "i \<notin> paired (apply_op op t)"
    by (cases op) (auto simp: trust_defs)
  then have "i \<notin> paired (apply_ops ops (apply_op op t))"
    using Cons.prems(2) by (intro Cons.IH) auto
  then show ?case by (simp add: apply_ops_def)
qed

lemma apply_ops_deadline:
  "pairing_deadline (apply_ops ops t) = Some d \<Longrightarrow> pairing_deadline t = Some d \<or> OpenWindow d \<in> set ops"
proof (induction ops arbitrary: t)
  case Nil
  then show ?case by (simp add: apply_ops_def)
next
  case (Cons op ops)
  then have "pairing_deadline (apply_op op t) = Some d \<or> OpenWindow d \<in> set ops"
    by (intro Cons.IH) (simp add: apply_ops_def)
  then show ?case
    by (cases op) (auto simp: trust_defs)
qed

text \<open>
  C19. Unpairing takes effect at once and needs nobody's cooperation. Whatever was done with the
  store before a device is unpaired and whatever is done with it afterwards, short of pinning
  that very device again, its certificate is refused on both sides of a connection, with an
  error naming its fingerprint, at every time at which no pairing window is open.
\<close>

theorem unpaired_peer_refused:
  assumes "Pin (sha256 spki) \<notin> set later" and "spki_of cert = Some spki"
    and "\<forall>d. OpenWindow d \<in> set (before @ later) \<longrightarrow> d \<le> now"
  shows "let trust = apply_ops (before @ [Unpair (sha256 spki)] @ later) (trust_new ids);
             refusal = Inl (General (''unpinned peer device '' @ short_fingerprint (sha256 spki)))
         in verify_server_cert spki_of sha256 trust cert now = refusal \<and>
            verify_client_cert spki_of sha256 trust cert now = refusal"
proof -
  define trust where "trust = apply_ops (before @ [Unpair (sha256 spki)] @ later) (trust_new ids)"
  have "trust = apply_ops later (unpair (apply_ops before (trust_new ids)) (sha256 spki))"
    by (simp add: trust_def apply_ops_def)
  then have "sha256 spki \<notin> paired trust"
    using assms(1) by (simp add: apply_ops_unpaired unpair_def)
  moreover have "\<not> pairing_open trust now"
  proof
    assume "pairing_open trust now"
    then obtain d where d: "pairing_deadline trust = Some d" "now < d"
      by (auto simp: pairing_open_def split: option.splits)
    then have "OpenWindow d \<in> set (before @ [Unpair (sha256 spki)] @ later)"
      using apply_ops_deadline [OF d(1) [unfolded trust_def]] by (simp add: trust_new_def)
    then show False
      using assms(3) d(2) by auto
  qed
  ultimately show ?thesis
    using assms(2) unfolding trust_def [symmetric] Let_def verify_server_cert_eq verify_client_cert_eq
    by (simp add: check_def device_id_of_def device_id_from_spki_def is_paired_def)
qed

theorem unpaired_peer_refused_witness:
  "verify_client_cert Some (\<lambda>s. s)
     (apply_ops ([Pin [1, 2, 3, 4, 5, 6, 7, 8], OpenWindow 60] @ [Unpair [1, 2, 3, 4, 5, 6, 7, 8]] @ [Pin [9]])
        (trust_new [])) [1, 2, 3, 4, 5, 6, 7, 8] 60
   = Inl (General (''unpinned peer device '' @ short_fingerprint [1, 2, 3, 4, 5, 6, 7, 8]))"
proof -
  have "\<forall>d. OpenWindow d \<in> set ([Pin [1, 2, 3, 4, 5, 6, 7, 8], OpenWindow 60] @ [Pin [9]]) \<longrightarrow> d \<le> 60"
    by auto
  from unpaired_peer_refused [OF _ _ this, of "\<lambda>s. s" "[1, 2, 3, 4, 5, 6, 7, 8]" Some
      "[1, 2, 3, 4, 5, 6, 7, 8]" "[]"]
  show ?thesis by (simp add: Let_def)
qed

text \<open>
  Who gets past TLS: exactly a peer whose certificate parses and whose key is pinned, or
  any peer at all while a pairing window is open. In particular the window does not tie
  itself to a device: while it is open it admits every parseable certificate, and once it has
  been closed or has expired the pinned keys alone decide.
\<close>

theorem tls_admission:
  "(verify_client_cert spki_of sha256 trust cert now = Inr () \<longleftrightarrow>
      (\<exists>spki. spki_of cert = Some spki \<and> (sha256 spki \<in> paired trust \<or> pairing_open trust now))) \<and>
   verify_server_cert spki_of sha256 trust cert now = verify_client_cert spki_of sha256 trust cert now \<and>
   (pairing_open (open_pairing_window trust deadline) now \<longleftrightarrow> now < deadline) \<and>
   \<not> pairing_open (close_pairing_window trust) now"
  unfolding verify_server_cert_eq verify_client_cert_eq check_Inr_iff
  by (auto simp: trust_defs split: option.splits)

end
