(* ===== verification/Rust_Fs.thy ===== *)
theory Rust_Fs
  imports Rust_Text
begin

text \<open>
  The parts of \<open>std::path\<close> and \<open>std::fs\<close> the sources use. A path is the list of its components
  below the root. A file system maps paths to files; the operating system decides the fate of
  each call, which is therefore an argument: it completes, it returns an error, or the process
  dies during it. A call that does not complete may have had part of its effect.
\<close>

section \<open>Paths\<close>

type_synonym path = "string list"

text \<open>The part of a file name before its last dot, if there is a dot.\<close>

definition before_last_dot :: "string \<Rightarrow> string option" where
  "before_last_dot name =
     (case dropWhile (\<lambda>c. c \<noteq> CHR ''.'') (rev name) of [] \<Rightarrow> None | _ # b \<Rightarrow> Some (rev b))"

definition file_stem :: "string \<Rightarrow> string" where
  "file_stem name =
     (if name = ''..'' then name
      else (case before_last_dot name of None \<Rightarrow> name | Some b \<Rightarrow> if b = [] then name else b))"

definition with_extension :: "path \<Rightarrow> string \<Rightarrow> path" where
  "with_extension p ext =
     (if p = [] \<or> last p = ''..'' then p
      else butlast p @ [file_stem (last p) @ (if ext = [] then [] else CHR ''.'' # ext)])"

definition parent :: "path \<Rightarrow> path option" where
  "parent p = (if p = [] then None else Some (butlast p))"

definition join :: "path \<Rightarrow> string \<Rightarrow> path" where
  "join p name = p @ [name]"

lemma before_last_dot_Some:
  assumes "before_last_dot name = Some b"
  obtains a where "name = b @ CHR ''.'' # a" and "CHR ''.'' \<notin> set a"
proof -
  obtain c r where r: "dropWhile (\<lambda>c. c \<noteq> CHR ''.'') (rev name) = c # r" and b: "b = rev r"
    using assms by (auto simp: before_last_dot_def split: list.splits)
  define t where "t = takeWhile (\<lambda>c. c \<noteq> CHR ''.'') (rev name)"
  have "c = CHR ''.''"
    using hd_dropWhile [of "\<lambda>c. c \<noteq> CHR ''.''" "rev name"] r by simp
  then have "rev name = t @ CHR ''.'' # r"
    using takeWhile_dropWhile_id [of "\<lambda>c. c \<noteq> CHR ''.''" "rev name"] r by (simp add: t_def)
  then have "rev (rev name) = rev r @ CHR ''.'' # rev t"
    by simp
  moreover have "CHR ''.'' \<notin> set (rev t)"
    by (auto simp: t_def dest: set_takeWhileD)
  ultimately show thesis
    by (intro that [of "rev t"]) (simp_all add: b)
qed

text \<open>Adding an extension that has a dot of its own always gives another name.\<close>

lemma file_stem_dotted_neq:
  assumes "CHR ''.'' \<in> set ext"
  shows "file_stem name @ CHR ''.'' # ext \<noteq> name"
proof (cases "file_stem name = name")
  case True
  then show ?thesis by simp
next
  case False
  then have "before_last_dot name = Some (file_stem name)"
    by (auto simp: file_stem_def split: option.splits if_splits)
  then obtain a where "name = file_stem name @ CHR ''.'' # a" and "CHR ''.'' \<notin> set a"
    by (rule before_last_dot_Some)
  with assms show ?thesis
    by (metis append_same_eq list.inject same_append_eq)
qed

definition names_a_file :: "path \<Rightarrow> bool" where
  "names_a_file p \<longleftrightarrow> p \<noteq> [] \<and> last p \<noteq> ''..''"

lemma with_extension_eq:
  "names_a_file p \<Longrightarrow> ext \<noteq> [] \<Longrightarrow>
     with_extension p ext = butlast p @ [file_stem (last p) @ CHR ''.'' # ext]"
  by (simp add: with_extension_def names_a_file_def)

lemma with_extension_neq:
  assumes "names_a_file p" and "CHR ''.'' \<in> set ext"
  shows "with_extension p ext \<noteq> p"
proof
  assume same: "with_extension p ext = p"
  have "ext \<noteq> []"
    using assms(2) by auto
  with assms(1) have "with_extension p ext = butlast p @ [file_stem (last p) @ CHR ''.'' # ext]"
    by (rule with_extension_eq)
  then have "last (with_extension p ext) = file_stem (last p) @ CHR ''.'' # ext"
    by (simp only: last_snoc)
  then show False
    unfolding same using file_stem_dotted_neq [OF assms(2), of "last p"] by metis
qed

section \<open>Files and calls\<close>

record stored_file =
  content :: "u8 list"
  mode :: nat

type_synonym fs = "path \<Rightarrow> stored_file option"

definition contents :: "fs \<Rightarrow> path \<Rightarrow> u8 list option" where
  "contents fs p = map_option content (fs p)"

datatype fs_call =
    CreateDirAll path
  | WriteFile path "u8 list"
  | Rename path path
  | SetMode path nat

datatype fate =
    Completes
  | Errs string "nat option"
  | Crashes "nat option"

datatype 'a outcome = Finished 'a | Crashed

text \<open>
  \<open>fs::write\<close> creates the file with the process's default mode or keeps the mode it has. Of a
  write that does not complete, nothing happened or some first bytes arrived in the truncated
  file; a rename, a directory creation or a change of mode shows either fully or not at all.
\<close>

definition put :: "nat \<Rightarrow> path \<Rightarrow> u8 list \<Rightarrow> fs \<Rightarrow> fs" where
  "put umode p bs fs =
     fs(p \<mapsto> \<lparr>content = bs, mode = (case fs p of None \<Rightarrow> umode | Some f \<Rightarrow> mode f)\<rparr>)"

fun effect :: "nat \<Rightarrow> fs_call \<Rightarrow> fs \<Rightarrow> fs" where
  "effect umode (CreateDirAll _) fs = fs"
| "effect umode (WriteFile p bs) fs = put umode p bs fs"
| "effect umode (Rename a b) fs = (case fs a of None \<Rightarrow> fs | Some f \<Rightarrow> fs(b \<mapsto> f, a := None))"
| "effect umode (SetMode p m) fs =
     (case fs p of None \<Rightarrow> fs | Some f \<Rightarrow> fs(p \<mapsto> f\<lparr>mode := m\<rparr>))"

fun interrupted :: "nat \<Rightarrow> fs_call \<Rightarrow> nat option \<Rightarrow> fs \<Rightarrow> fs" where
  "interrupted umode (WriteFile p bs) (Some k) fs = put umode p (take k bs) fs"
| "interrupted umode (WriteFile _ _) None fs = fs"
| "interrupted umode (CreateDirAll _) _ fs = fs"
| "interrupted umode (Rename _ _) _ fs = fs"
| "interrupted umode (SetMode _ _) _ fs = fs"

fun perform :: "nat \<Rightarrow> fs_call \<Rightarrow> fate \<Rightarrow> fs \<Rightarrow> (string + unit) outcome \<times> fs" where
  "perform umode c Completes fs = (Finished (Inr ()), effect umode c fs)"
| "perform umode c (Errs e k) fs = (Finished (Inl e), interrupted umode c k fs)"
| "perform umode c (Crashes k) fs = (Crashed, interrupted umode c k fs)"

text \<open>
  A function body is a list of calls joined by \<open>?\<close>: the first error or crash ends it. The fates
  are consumed one per call; a call beyond the list completes.
\<close>

fun perform_all :: "nat \<Rightarrow> fs_call list \<Rightarrow> fate list \<Rightarrow> fs \<Rightarrow> (string + unit) outcome \<times> fs" where
  "perform_all umode [] fates fs = (Finished (Inr ()), fs)"
| "perform_all umode (c # cs) fates fs =
     (case perform umode c (case fates of [] \<Rightarrow> Completes | f # _ \<Rightarrow> f) fs of
        (Finished (Inr _), fs') \<Rightarrow> perform_all umode cs (tl fates) fs'
      | r \<Rightarrow> r)"

definition read_to_string :: "fs \<Rightarrow> path \<Rightarrow> string option" where
  "read_to_string fs p = (case contents fs p of None \<Rightarrow> None | Some bs \<Rightarrow> from_utf8 bs)"

definition exists_path :: "fs \<Rightarrow> path \<Rightarrow> bool" where
  "exists_path fs p \<longleftrightarrow> fs p \<noteq> None"

lemma contents_put: "contents (put umode p bs fs) = (contents fs)(p \<mapsto> bs)"
  by (rule ext) (simp add: contents_def put_def)

lemma perform_cases:
  assumes "perform umode c f fs = (r, fs')"
  obtains (completed) "r = Finished (Inr ())" "fs' = effect umode c fs"
    | (failed) e k where "r = Finished (Inl e)" "fs' = interrupted umode c k fs"
    | (crashed) k where "r = Crashed" "fs' = interrupted umode c k fs"
  using assms by (cases f) auto

lemma perform_all_ConsE:
  assumes "perform_all umode (c # cs) fates fs = (r, fs')"
  obtains (goes_on) "perform_all umode cs (tl fates) (effect umode c fs) = (r, fs')"
    | (stops) k where "fs' = interrupted umode c k fs" "r \<noteq> Finished (Inr ())"
proof -
  obtain r1 fs1 where p: "perform umode c (case fates of [] \<Rightarrow> Completes | f # _ \<Rightarrow> f) fs = (r1, fs1)"
    by (metis surj_pair)
  from p show thesis
    by (rule perform_cases) (use assms p in \<open>auto intro: goes_on stops\<close>)
qed

lemma perform_all_completes: "perform_all umode cs [] fs = (Finished (Inr ()), fold (effect umode) cs fs)"
  by (induction cs arbitrary: fs) simp_all

lemma interrupted_contents:
  "q \<noteq> p \<Longrightarrow> contents (interrupted umode (WriteFile p bs) k fs) q = contents fs q"
  by (cases k) (simp_all add: contents_put)

lemma read_to_string_cong: "contents fs' p = contents fs p \<Longrightarrow> read_to_string fs' p = read_to_string fs p"
  by (simp add: read_to_string_def)

end
