(* ===== verification/Identity.thy ===== *)
theory Identity
  imports Trust Rust_Fs
begin

text \<open>
  \<open>crates/net/src/identity.rs\<close>: the long-lived key of a device, made on first start and loaded
  ever after. Keys and certificates are \<open>rcgen\<close>'s: the record \<open>rcgen_api\<close> holds what the source
  calls, \<open>'k\<close> and \<open>'c\<close> are its key pairs and certificates, and a generated key is an argument
  (the random choice). SHA-256 is the parameter \<open>sha256\<close>.
\<close>

record ('k, 'p, 'c) rcgen_api =
  rc_public_key_der :: "'k \<Rightarrow> u8 list"
  rc_serialize_pem :: "'k \<Rightarrow> string"
  rc_from_pem :: "string \<Rightarrow> string + 'k"
  rc_params :: "string list \<Rightarrow> string + 'p"
  rc_self_signed :: "'p \<Rightarrow> 'k \<Rightarrow> string + 'c"
  rc_cert_pem :: "'c \<Rightarrow> string"

definition cert_file :: string where
  "cert_file = ''identity-cert.pem''"

definition key_file :: string where
  "key_file = ''identity-key.pem''"

datatype identity_error = Generate string | Io string | Parse string

record ('k, 'c) identity =
  ident_device_id :: device_id
  key_pair :: 'k
  cert :: 'c

text \<open>The part \<open>generate\<close> and \<open>load\<close> share: wrap a key in its certificate.\<close>

definition with_key ::
  "('k, 'p, 'c) rcgen_api \<Rightarrow> (u8 list \<Rightarrow> u8 list) \<Rightarrow> 'k \<Rightarrow> identity_error + ('k, 'c) identity" where
  "with_key rc sha256 k =
     (let i = device_id_from_spki sha256 (rc_public_key_der rc k) in
      case rc_params rc [''penguinsync''] of
        Inl e \<Rightarrow> Inl (Generate e)
      | Inr params \<Rightarrow>
          (case rc_self_signed rc params k of
             Inl e \<Rightarrow> Inl (Generate e)
           | Inr c \<Rightarrow> Inr \<lparr>ident_device_id = i, key_pair = k, cert = c\<rparr>))"

definition generate ::
  "('k, 'p, 'c) rcgen_api \<Rightarrow> (u8 list \<Rightarrow> u8 list) \<Rightarrow> string + 'k \<Rightarrow> identity_error + ('k, 'c) identity" where
  "generate rc sha256 fresh =
     (case fresh of Inl e \<Rightarrow> Inl (Generate e) | Inr k \<Rightarrow> with_key rc sha256 k)"

text \<open>
  \<open>save\<close>: directory, key, mode \<open>0600\<close> (384) of the key, certificate, in this order.
\<close>

definition identity_save_calls :: "('k, 'p, 'c) rcgen_api \<Rightarrow> ('k, 'c) identity \<Rightarrow> path \<Rightarrow> fs_call list" where
  "identity_save_calls rc ident dir =
     [CreateDirAll dir,
      WriteFile (join dir key_file) (string_bytes (rc_serialize_pem rc (key_pair ident))),
      SetMode (join dir key_file) 384,
      WriteFile (join dir cert_file) (string_bytes (rc_cert_pem rc (cert ident)))]"

definition identity_save ::
  "nat \<Rightarrow> ('k, 'p, 'c) rcgen_api \<Rightarrow> ('k, 'c) identity \<Rightarrow> path \<Rightarrow> fate list \<Rightarrow> fs
     \<Rightarrow> (identity_error + unit) outcome \<times> fs" where
  "identity_save umode rc ident dir fates fs =
     (case perform_all umode (identity_save_calls rc ident dir) fates fs of
        (Finished (Inr u), fs') \<Rightarrow> (Finished (Inr u), fs')
      | (Finished (Inl e), fs') \<Rightarrow> (Finished (Inl (Io e)), fs')
      | (Crashed, fs') \<Rightarrow> (Crashed, fs'))"

definition identity_load ::
  "('k, 'p, 'c) rcgen_api \<Rightarrow> (u8 list \<Rightarrow> u8 list) \<Rightarrow> path \<Rightarrow> fs \<Rightarrow> identity_error + ('k, 'c) identity" where
  "identity_load rc sha256 dir fs =
     (case read_to_string fs (join dir key_file) of
        None \<Rightarrow> Inl (Io ''reading the key file'')
      | Some pem \<Rightarrow>
          (case rc_from_pem rc pem of
             Inl e \<Rightarrow> Inl (Parse e)
           | Inr k \<Rightarrow> with_key rc sha256 k))"

definition load_or_generate ::
  "nat \<Rightarrow> ('k, 'p, 'c) rcgen_api \<Rightarrow> (u8 list \<Rightarrow> u8 list) \<Rightarrow> path \<Rightarrow> string + 'k \<Rightarrow> fate list \<Rightarrow> fs
     \<Rightarrow> (identity_error + ('k, 'c) identity) outcome \<times> fs" where
  "load_or_generate umode rc sha256 dir fresh fates fs =
     (if exists_path fs (join dir cert_file) \<and> exists_path fs (join dir key_file)
      then (Finished (identity_load rc sha256 dir fs), fs)
      else (case generate rc sha256 fresh of
         Inl e \<Rightarrow> (Finished (Inl e), fs)
       | Inr ident \<Rightarrow>
           (case identity_save umode rc ident dir fates fs of
              (Finished (Inr _), fs') \<Rightarrow> (Finished (Inr ident), fs')
            | (Finished (Inl e), fs') \<Rightarrow> (Finished (Inl e), fs')
            | (Crashed, fs') \<Rightarrow> (Crashed, fs'))))"

section \<open>What \<open>save\<close> leaves behind\<close>

text \<open>\<open>rcgen\<close> reads back the PEM text it writes, which is a string.\<close>

definition pem_ok :: "('k, 'p, 'c) rcgen_api \<Rightarrow> 'k \<Rightarrow> bool" where
  "pem_ok rc k \<longleftrightarrow> rc_from_pem rc (rc_serialize_pem rc k) = Inr k \<and> is_rust_string (rc_serialize_pem rc k)"

lemma key_cert_distinct [simp]:
  "join dir key_file \<noteq> join dir cert_file" "join dir cert_file \<noteq> join dir key_file"
  by (simp_all add: join_def key_file_def cert_file_def)

lemma perform_all_stop_at_last:
  assumes "perform_all umode [WriteFile p bs] fates fs = (r, fs')"
  obtains cs where "fs' = put umode p cs fs" | "fs' = fs"
  using assms
proof (rule perform_all_ConsE)
  assume "perform_all umode [] (tl fates) (effect umode (WriteFile p bs) fs) = (r, fs')"
  then show thesis by (auto intro: that)
next
  fix k assume "fs' = interrupted umode (WriteFile p bs) k fs"
  then show thesis by (cases k) (auto intro: that)
qed

text \<open>
  The certificate file appears last: while it is missing anything may have happened to the key
  file, once it is there the key file is complete and has its mode.
\<close>

lemma identity_save_progress:
  assumes "perform_all umode (identity_save_calls rc ident dir) fates fs = (r, fs')"
    and "fs (join dir cert_file) = None"
  shows "(fs' (join dir cert_file) = None \<and> r \<noteq> Finished (Inr ())) \<or>
    fs' (join dir key_file) =
      Some \<lparr>content = string_bytes (rc_serialize_pem rc (key_pair ident)), mode = 384\<rparr>"
  using assms(1) unfolding identity_save_calls_def
proof (rule perform_all_ConsE)
  fix k assume "fs' = interrupted umode (CreateDirAll dir) k fs" "r \<noteq> Finished (Inr ())"
  then show ?thesis using assms(2) by simp
next
  let ?kp = "join dir key_file" and ?pem = "string_bytes (rc_serialize_pem rc (key_pair ident))"
  let ?cp = "join dir cert_file" and ?cpem = "string_bytes (rc_cert_pem rc (cert ident))"
  assume "perform_all umode [WriteFile ?kp ?pem, SetMode ?kp 384, WriteFile ?cp ?cpem] (tl fates)
    (effect umode (CreateDirAll dir) fs) = (r, fs')"
  then show ?thesis
  proof (rule perform_all_ConsE)
    fix k assume "fs' = interrupted umode (WriteFile ?kp ?pem) k (effect umode (CreateDirAll dir) fs)"
      and "r \<noteq> Finished (Inr ())"
    then show ?thesis using assms(2) by (cases k) (simp_all add: put_def)
  next
    assume "perform_all umode [SetMode ?kp 384, WriteFile ?cp ?cpem] (tl (tl fates))
      (effect umode (WriteFile ?kp ?pem) (effect umode (CreateDirAll dir) fs)) = (r, fs')"
    then show ?thesis
    proof (rule perform_all_ConsE)
      fix k assume "fs' = interrupted umode (SetMode ?kp 384) k
        (effect umode (WriteFile ?kp ?pem) (effect umode (CreateDirAll dir) fs))"
        and "r \<noteq> Finished (Inr ())"
      then show ?thesis using assms(2) by (simp add: put_def)
    next
      assume "perform_all umode [WriteFile ?cp ?cpem] (tl (tl (tl fates)))
        (effect umode (SetMode ?kp 384) (effect umode (WriteFile ?kp ?pem)
          (effect umode (CreateDirAll dir) fs))) = (r, fs')"
      then show ?thesis
        by (rule perform_all_stop_at_last) (simp_all add: put_def)
    qed
  qed
qed

lemma with_key_Inr: "with_key rc sha256 k = Inr ident \<Longrightarrow> key_pair ident = k"
  by (auto simp: with_key_def Let_def split: sum.splits)

lemma identity_load_saved:
  assumes "fs (join dir key_file) = Some \<lparr>content = string_bytes (rc_serialize_pem rc k), mode = m\<rparr>"
    and "pem_ok rc k"
  shows "identity_load rc sha256 dir fs = with_key rc sha256 k"
  using assms
  by (simp add: identity_load_def read_to_string_def contents_def pem_ok_def from_utf8_string_bytes)

lemma load_or_generate_fresh:
  assumes "fs (join dir cert_file) = None" and "load_or_generate umode rc sha256 dir (Inr k) fates fs = (r, fs')"
    and "with_key rc sha256 k = Inr ident"
  shows "(fs' (join dir cert_file) = None \<and> r \<noteq> Finished (Inr ident)) \<or>
    fs' (join dir key_file) = Some \<lparr>content = string_bytes (rc_serialize_pem rc k), mode = 384\<rparr>"
proof -
  obtain r1 fs1 where p: "perform_all umode (identity_save_calls rc ident dir) fates fs = (r1, fs1)"
    by (metis surj_pair)
  then have "fs' = fs1" and "r = Finished (Inr ident) \<longrightarrow> r1 = Finished (Inr ())"
    using assms by (auto simp: load_or_generate_def exists_path_def generate_def identity_save_def
        split: outcome.splits sum.splits)
  then show ?thesis
    using identity_save_progress [OF p assms(1)] with_key_Inr [OF assms(3)] by auto
qed

text \<open>
  C22. The identity survives a crash of the first start. Let the first start of a device be
  hit by any error or crash in any of the calls that save its new key: the next start, if its
  own calls complete, always ends with an identity (it is never stuck on a half-written key),
  and when the first one had come as far as the certificate file, or reported success, it is
  the first start's identity, not a second one.
\<close>

theorem identity_survives_crash:
  assumes "fs (join dir cert_file) = None"
    and "with_key rc sha256 k1 = Inr ident1" and "pem_ok rc k1"
    and "with_key rc sha256 k2 = Inr ident2"
    and "load_or_generate umode rc sha256 dir (Inr k1) fates fs = (r1, fs1)"
    and "load_or_generate umode rc sha256 dir (Inr k2) [] fs1 = (r2, fs2)"
  shows "(r2 = Finished (Inr ident1) \<or> r2 = Finished (Inr ident2)) \<and>
    (r1 = Finished (Inr ident1) \<or> fs1 (join dir cert_file) \<noteq> None \<longrightarrow>
       fs1 (join dir key_file) =
         Some \<lparr>content = string_bytes (rc_serialize_pem rc k1), mode = 384\<rparr>) \<and>
    (fs1 (join dir cert_file) \<noteq> None \<longrightarrow> r2 = Finished (Inr ident1))"
proof -
  note progress = load_or_generate_fresh [OF assms(1,5,2)]
  have "r2 = Finished (Inr ident1)" if "fs1 (join dir cert_file) \<noteq> None"
  proof -
    have key: "fs1 (join dir key_file) =
        Some \<lparr>content = string_bytes (rc_serialize_pem rc k1), mode = 384\<rparr>"
      using progress that by blast
    have "identity_load rc sha256 dir fs1 = Inr ident1"
      using identity_load_saved [of fs1 dir rc k1 384 sha256] key assms(2,3) by simp
    then show ?thesis
      using assms(6) that key by (simp add: load_or_generate_def exists_path_def)
  qed
  moreover have "r2 = Finished (Inr ident2)" if "fs1 (join dir cert_file) = None"
    using assms(4,6) that
    by (simp add: load_or_generate_def exists_path_def generate_def identity_save_def perform_all_completes)
  ultimately show ?thesis
    using progress by (cases "fs1 (join dir cert_file) = None") simp_all
qed

definition demo_rcgen :: "(string, unit, string) rcgen_api" where
  "demo_rcgen =
     \<lparr>rc_public_key_der = string_bytes, rc_serialize_pem = (\<lambda>k. k), rc_from_pem = Inr,
      rc_params = (\<lambda>_. Inr ()), rc_self_signed = (\<lambda>_ k. Inr k), rc_cert_pem = (\<lambda>c. c)\<rparr>"

theorem identity_survives_crash_witness:
  "\<exists>ident. fst (load_or_generate 420 demo_rcgen (\<lambda>s. s) [''data''] (Inr ''k2'') []
      (snd (load_or_generate 420 demo_rcgen (\<lambda>s. s) [''data''] (Inr ''k1'')
         [Completes, Completes, Completes, Crashes (Some 1)] (\<lambda>_. None)))) = Finished (Inr ident)
    \<and> key_pair ident = ''k1''"
proof -
  define ident :: "string \<Rightarrow> (string, string) identity" where
    "ident k = \<lparr>ident_device_id = string_bytes k, key_pair = k, cert = k\<rparr>" for k
  have wk: "with_key demo_rcgen (\<lambda>s. s) k = Inr (ident k)" for k
    by (simp add: with_key_def demo_rcgen_def ident_def device_id_from_spki_def)
  have pem: "pem_ok demo_rcgen ''k1''"
    by (simp add: pem_ok_def demo_rcgen_def ascii_is_rust_string ascii_def)
  obtain r1 fs1 where one: "load_or_generate 420 demo_rcgen (\<lambda>s. s) [''data''] (Inr ''k1'')
      [Completes, Completes, Completes, Crashes (Some 1)] (\<lambda>_. None) = (r1, fs1)"
    by (metis surj_pair)
  obtain r2 fs2 where two: "load_or_generate 420 demo_rcgen (\<lambda>s. s) [''data''] (Inr ''k2'') [] fs1 = (r2, fs2)"
    by (metis surj_pair)
  have "fs1 (join [''data''] cert_file) \<noteq> None"
    using one by (simp add: load_or_generate_def exists_path_def generate_def wk identity_save_def
        identity_save_calls_def put_def) (auto simp: put_def)
  with identity_survives_crash [OF refl wk pem wk one two]
  have "r2 = Finished (Inr (ident ''k1''))" by blast
  then show ?thesis
    using one two by (simp add: ident_def)
qed

text \<open>
  The mode of the key file. A save that reports success leaves the key readable by its owner
  only; but the key is written before its mode is set, so a file that did not exist yet has
  the process's default mode while it already holds the whole key, and keeps it if the process
  dies there.
\<close>

theorem key_file_mode:
  assumes "fs (join dir key_file) = None" and "fs (join dir cert_file) = None"
  shows "(identity_save umode rc ident dir fates fs = (Finished (Inr ()), fs') \<longrightarrow>
      map_option mode (fs' (join dir key_file)) = Some 384) \<and>
    snd (identity_save umode rc ident dir [Completes, Completes, Crashes None] fs) (join dir key_file)
      = Some \<lparr>content = string_bytes (rc_serialize_pem rc (key_pair ident)), mode = umode\<rparr>"
proof (intro conjI impI)
  assume "identity_save umode rc ident dir fates fs = (Finished (Inr ()), fs')"
  then have "perform_all umode (identity_save_calls rc ident dir) fates fs = (Finished (Inr ()), fs')"
    by (auto simp: identity_save_def split: prod.splits outcome.splits sum.splits)
  from identity_save_progress [OF this assms(2)]
  show "map_option mode (fs' (join dir key_file)) = Some 384" by auto
next
  show "snd (identity_save umode rc ident dir [Completes, Completes, Crashes None] fs) (join dir key_file)
      = Some \<lparr>content = string_bytes (rc_serialize_pem rc (key_pair ident)), mode = umode\<rparr>"
    using assms(1) by (simp add: identity_save_def identity_save_calls_def put_def)
qed

theorem key_file_mode_witness:
  "snd (identity_save 420 demo_rcgen \<lparr>ident_device_id = [], key_pair = ''k'', cert = ''k''\<rparr> [''data'']
      [Completes, Completes, Crashes None] (\<lambda>_. None)) (join [''data''] key_file)
   = Some \<lparr>content = string_bytes ''k'', mode = 420\<rparr>"
  using key_file_mode [OF refl refl, of 420 demo_rcgen "\<lparr>ident_device_id = [], key_pair = ''k'', cert = ''k''\<rparr>"
      "[''data'']"]
  by (simp add: demo_rcgen_def)

end
