(* ===== verification/Endpoint.thy ===== *)
theory Endpoint
  imports Identity Trust Rust_Net
begin

text \<open>
  \<open>crates/net/src/endpoint.rs\<close>: how the QUIC endpoint of either side is configured. The calls of
  \<open>rustls\<close> and \<open>quinn\<close> that can fail (taking a certificate with its key, finding a cipher suite,
  binding the socket) are the record \<open>quic_api\<close>; a configuration is what the code sets in it.
  The trust store is shared by reference, so a verifier is a function of the store at the time
  of a handshake.
\<close>

datatype endpoint_error = TlsSetup string | NoInitialCipherSuite | EndpointIo string

definition alpn :: string where
  "alpn = ''penguinsync/0''"

datatype tls_version = TLS13

record ('k, 'c) tls_config =
  tc_versions :: "tls_version list"
  tc_verify :: "trust_store \<Rightarrow> u8 list \<Rightarrow> instant \<Rightarrow> tls_error + unit"
  tc_client_auth :: "(bool \<times> bool) option"
  tc_certs :: "'c list"
  tc_key :: 'k
  tc_alpn :: "string list"

record ('k, 'c) quic_api =
  qa_spki_of :: "u8 list \<Rightarrow> u8 list option"
  qa_sha256 :: "u8 list \<Rightarrow> u8 list"
  qa_auth_cert :: "'c list \<Rightarrow> 'k \<Rightarrow> string + unit"
  qa_cipher_suite :: bool
  qa_bind :: "socket_addr \<Rightarrow> string + socket_addr"

record ('k, 'c) endpoint =
  ep_server :: "('k, 'c) tls_config option"
  ep_client :: "('k, 'c) tls_config"
  ep_local_addr :: socket_addr

definition client_config :: "('k, 'c) quic_api \<Rightarrow> ('k, 'c) identity \<Rightarrow> endpoint_error + ('k, 'c) tls_config" where
  "client_config q ident =
     (case qa_auth_cert q [cert ident] (key_pair ident) of
        Inl e \<Rightarrow> Inl (TlsSetup e)
      | Inr _ \<Rightarrow>
          if \<not> qa_cipher_suite q then Inl NoInitialCipherSuite
          else Inr \<lparr>tc_versions = [TLS13],
                    tc_verify = verify_server_cert (qa_spki_of q) (qa_sha256 q),
                    tc_client_auth = None, tc_certs = [cert ident], tc_key = key_pair ident, tc_alpn = [alpn]\<rparr>)"

definition server_config :: "('k, 'c) quic_api \<Rightarrow> ('k, 'c) identity \<Rightarrow> endpoint_error + ('k, 'c) tls_config" where
  "server_config q ident =
     (case qa_auth_cert q [cert ident] (key_pair ident) of
        Inl e \<Rightarrow> Inl (TlsSetup e)
      | Inr _ \<Rightarrow>
          if \<not> qa_cipher_suite q then Inl NoInitialCipherSuite
          else Inr \<lparr>tc_versions = [TLS13],
                    tc_verify = verify_client_cert (qa_spki_of q) (qa_sha256 q),
                    tc_client_auth = Some (offer_client_auth, client_auth_mandatory),
                    tc_certs = [cert ident], tc_key = key_pair ident, tc_alpn = [alpn]\<rparr>)"

text \<open>\<open>Endpoint::listening\<close> (the daemon) and \<open>Endpoint::dialing\<close> (the phone).\<close>

definition listening ::
  "('k, 'c) quic_api \<Rightarrow> ('k, 'c) identity \<Rightarrow> socket_addr \<Rightarrow> endpoint_error + ('k, 'c) endpoint" where
  "listening q ident listen_addr =
     (case server_config q ident of
        Inl e \<Rightarrow> Inl e
      | Inr server \<Rightarrow>
          (case qa_bind q listen_addr of
             Inl e \<Rightarrow> Inl (EndpointIo e)
           | Inr bound \<Rightarrow>
               (case client_config q ident of
                  Inl e \<Rightarrow> Inl e
                | Inr client \<Rightarrow> Inr \<lparr>ep_server = Some server, ep_client = client, ep_local_addr = bound\<rparr>)))"

definition dialing_endpoint ::
  "('k, 'c) quic_api \<Rightarrow> ('k, 'c) identity \<Rightarrow> endpoint_error + ('k, 'c) endpoint" where
  "dialing_endpoint q ident =
     (case qa_bind q (SocketV4 0 0 0 0 0) of
        Inl e \<Rightarrow> Inl (EndpointIo e)
      | Inr bound \<Rightarrow>
          (case client_config q ident of
             Inl e \<Rightarrow> Inl e
           | Inr client \<Rightarrow> Inr \<lparr>ep_server = None, ep_client = client, ep_local_addr = bound\<rparr>))"

text \<open>
  Whether two endpoints get through TLS to each other: a common version and protocol, each side's
  certificate accepted by the other (the client's too, since the server insists on it).
\<close>

definition tls_succeeds ::
  "('c \<Rightarrow> u8 list) \<Rightarrow> ('k, 'c) endpoint \<Rightarrow> trust_store \<Rightarrow> ('k, 'c) endpoint \<Rightarrow> trust_store \<Rightarrow> instant \<Rightarrow> bool" where
  "tls_succeeds der dialer dialer_trust listener listener_trust now =
     (case ep_server listener of
        None \<Rightarrow> False
      | Some server \<Rightarrow>
          let client = ep_client dialer in
          list_ex (\<lambda>v. v \<in> set (tc_versions server)) (tc_versions client) \<and>
          list_ex (\<lambda>p. p \<in> set (tc_alpn server)) (tc_alpn client) \<and>
          (case tc_certs server of
             [] \<Rightarrow> False
           | c # _ \<Rightarrow> tc_verify client dialer_trust (der c) now = Inr ()) \<and>
          (case tc_client_auth server of
             Some (True, True) \<Rightarrow>
               (case tc_certs client of
                  [] \<Rightarrow> False
                | c # _ \<Rightarrow> tc_verify server listener_trust (der c) now = Inr ())
           | _ \<Rightarrow> True))"

text \<open>
  Mutual authentication is built in: endpoints made by this code connect exactly if each end has
  pinned the other (or has its pairing window open), whoever listens.
\<close>

lemma mutual_authentication:
  assumes "dialing_endpoint q phone_ident = Inr dialer" and "listening q desk_ident addr = Inr listener"
  shows "tls_succeeds der dialer phone_trust listener desk_trust now \<longleftrightarrow>
    check (qa_spki_of q) (qa_sha256 q) phone_trust (der (cert desk_ident)) now = Inr () \<and>
    check (qa_spki_of q) (qa_sha256 q) desk_trust (der (cert phone_ident)) now = Inr ()"
  using assms
  by (auto simp: dialing_endpoint_def listening_def client_config_def server_config_def tls_succeeds_def Let_def
      offer_client_auth_def client_auth_mandatory_def verify_server_cert_eq verify_client_cert_eq
      split: sum.splits if_splits)

end
