(* ===== verification/Json_File.thy ===== *)
theory Json_File
  imports Rust_Fs
begin

text \<open>
  The pair of \<open>save\<close> and \<open>load\<close> that \<open>crates/daemon/src/state.rs\<close> and
  \<open>crates/ffi/src/state.rs\<close> both have: serialize to a temporary file beside the target, then
  rename it over the target; a missing, unreadable or malformed file loads as the default
  value. \<open>serde_json\<close> is the parameters \<open>to_vec\<close> and \<open>from_str\<close>.
\<close>

definition atomic_save_calls :: "path \<Rightarrow> u8 list \<Rightarrow> fs_call list" where
  "atomic_save_calls p bs =
     (case parent p of None \<Rightarrow> [] | Some d \<Rightarrow> [CreateDirAll d]) @
     [WriteFile (with_extension p ''json.tmp'') bs, Rename (with_extension p ''json.tmp'') p]"

lemma atomic_save_cases:
  assumes "names_a_file p" and "perform_all umode (atomic_save_calls p bs) fates fs = (r, fs')"
  shows "(r = Finished (Inr ()) \<and> contents fs' p = Some bs) \<or>
      (r \<noteq> Finished (Inr ()) \<and> contents fs' p = contents fs p)"
    and "q \<noteq> p \<Longrightarrow> q \<noteq> with_extension p ''json.tmp'' \<Longrightarrow> contents fs' q = contents fs q"
proof -
  define tmp where "tmp = with_extension p ''json.tmp''"
  have neq: "tmp \<noteq> p"
    unfolding tmp_def using assms(1) by (rule with_extension_neq) simp
  have calls: "atomic_save_calls p bs = [CreateDirAll (butlast p), WriteFile tmp bs, Rename tmp p]"
    using assms(1) by (simp add: atomic_save_calls_def parent_def names_a_file_def tmp_def)
  have body: "((r = Finished (Inr ()) \<and> contents fs' p = Some bs) \<or>
      (r \<noteq> Finished (Inr ()) \<and> contents fs' p = contents fs p)) \<and>
      (\<forall>q. q \<noteq> p \<longrightarrow> q \<noteq> tmp \<longrightarrow> contents fs' q = contents fs q)"
    using assms(2) unfolding calls
  proof (rule perform_all_ConsE)
    fix k assume "fs' = interrupted umode (CreateDirAll (butlast p)) k fs" "r \<noteq> Finished (Inr ())"
    then show ?thesis by simp
  next
    assume "perform_all umode [WriteFile tmp bs, Rename tmp p] (tl fates)
      (effect umode (CreateDirAll (butlast p)) fs) = (r, fs')"
    then show ?thesis
    proof (rule perform_all_ConsE)
      fix k assume "fs' = interrupted umode (WriteFile tmp bs) k (effect umode (CreateDirAll (butlast p)) fs)"
        and "r \<noteq> Finished (Inr ())"
      then show ?thesis using neq by (simp add: interrupted_contents)
    next
      assume "perform_all umode [Rename tmp p] (tl (tl fates))
        (effect umode (WriteFile tmp bs) (effect umode (CreateDirAll (butlast p)) fs)) = (r, fs')"
      then show ?thesis
      proof (rule perform_all_ConsE)
        fix k assume "fs' = interrupted umode (Rename tmp p) k
          (effect umode (WriteFile tmp bs) (effect umode (CreateDirAll (butlast p)) fs))"
          and "r \<noteq> Finished (Inr ())"
        then show ?thesis using neq by (simp add: contents_put)
      next
        assume "perform_all umode [] (tl (tl (tl fates))) (effect umode (Rename tmp p)
          (effect umode (WriteFile tmp bs) (effect umode (CreateDirAll (butlast p)) fs))) = (r, fs')"
        then show ?thesis
          using neq by (auto simp: put_def contents_def)
      qed
    qed
  qed
  then show "(r = Finished (Inr ()) \<and> contents fs' p = Some bs) \<or>
      (r \<noteq> Finished (Inr ()) \<and> contents fs' p = contents fs p)"
    and "q \<noteq> p \<Longrightarrow> q \<noteq> with_extension p ''json.tmp'' \<Longrightarrow> contents fs' q = contents fs q"
    by (auto simp: tmp_def)
qed

text \<open>
  The directory is created before the value is serialized, so a serialization error leaves
  only the directory behind.
\<close>

definition save_json ::
  "nat \<Rightarrow> ('v \<Rightarrow> string + u8 list) \<Rightarrow> 'v \<Rightarrow> path \<Rightarrow> fate list \<Rightarrow> fs \<Rightarrow> (string + unit) outcome \<times> fs" where
  "save_json umode to_vec v p fates fs =
     (case to_vec v of
        Inr bs \<Rightarrow> perform_all umode (atomic_save_calls p bs) fates fs
      | Inl e \<Rightarrow>
          (case perform_all umode (case parent p of None \<Rightarrow> [] | Some d \<Rightarrow> [CreateDirAll d]) fates fs of
             (Finished (Inr _), fs') \<Rightarrow> (Finished (Inl e), fs')
           | r \<Rightarrow> r))"

definition load_json :: "(string \<Rightarrow> 'e + 'v) \<Rightarrow> 'v \<Rightarrow> fs \<Rightarrow> path \<Rightarrow> 'v" where
  "load_json from_str dflt fs p =
     (case read_to_string fs p of
        None \<Rightarrow> dflt
      | Some s \<Rightarrow> (case from_str s of Inl _ \<Rightarrow> dflt | Inr v \<Rightarrow> v))"

definition json_ok :: "('v \<Rightarrow> string + u8 list) \<Rightarrow> (string \<Rightarrow> 'e + 'v) \<Rightarrow> 'v \<Rightarrow> bool" where
  "json_ok to_vec from_str v \<longleftrightarrow>
     (\<exists>bs s. to_vec v = Inr bs \<and> from_utf8 bs = Some s \<and> from_str s = Inr v)"

lemma load_json_cong: "contents fs' p = contents fs p \<Longrightarrow> load_json from_str d fs' p = load_json from_str d fs p"
  by (simp add: load_json_def read_to_string_def)

lemma save_json_crash_safe:
  assumes "names_a_file p" and "json_ok to_vec from_str v"
    and "save_json umode to_vec v p fates fs = (r, fs')"
  shows "(r = Finished (Inr ()) \<and> load_json from_str d fs' p = v) \<or>
     (r \<noteq> Finished (Inr ()) \<and> load_json from_str d fs' p = load_json from_str d fs p)"
proof -
  obtain bs s where bs: "to_vec v = Inr bs" "from_utf8 bs = Some s" "from_str s = Inr v"
    using assms(2) by (auto simp: json_ok_def)
  then have "perform_all umode (atomic_save_calls p bs) fates fs = (r, fs')"
    using assms(3) by (simp add: save_json_def)
  from atomic_save_cases(1) [OF assms(1) this] show ?thesis
  proof
    assume "r = Finished (Inr ()) \<and> contents fs' p = Some bs"
    with bs show ?thesis by (simp add: load_json_def read_to_string_def)
  next
    assume "r \<noteq> Finished (Inr ()) \<and> contents fs' p = contents fs p"
    then show ?thesis by (simp add: load_json_cong [of fs' p fs])
  qed
qed

lemma save_json_frame:
  assumes "names_a_file p" and "save_json umode to_vec v p fates fs = (r, fs')"
    and "q \<noteq> p" and "q \<noteq> with_extension p ''json.tmp''"
  shows "contents fs' q = contents fs q"
proof (cases "to_vec v")
  case (Inr bs)
  then have "perform_all umode (atomic_save_calls p bs) fates fs = (r, fs')"
    using assms(2) by (simp add: save_json_def)
  then show ?thesis
    using atomic_save_cases(2) [OF assms(1)] assms(3,4) by blast
next
  case (Inl e)
  have "perform umode (CreateDirAll d) f fs = (r1, fs1) \<Longrightarrow> fs1 = fs" for d f r1 fs1
    by (cases f) auto
  with Inl assms(2) show ?thesis
    by (auto simp: save_json_def split: option.splits prod.splits outcome.splits sum.splits)
qed

end
