(* ===== verification/Device_List.thy ===== *)
theory Device_List
  imports Device_Set
begin

text \<open>
  Lists of named devices, as both persisted states keep them: entries that hold a hexadecimal
  id and a name, updated in place when the id is known and appended otherwise. The functions
  take the entry type's accessors; the locale \<open>entry_type\<close> holds what is proved of them once for
  every such type.
\<close>

text \<open>\<open>iter_mut().find(..)\<close> followed by an assignment: \<open>None\<close> when no entry has the id.\<close>

fun rename_first :: "('d \<Rightarrow> string) \<Rightarrow> ('d \<Rightarrow> 'd) \<Rightarrow> string \<Rightarrow> 'd list \<Rightarrow> 'd list option" where
  "rename_first hex upd h [] = None"
| "rename_first hex upd h (d # ds) =
     (if hex d = h then Some (upd d # ds) else map_option (Cons d) (rename_first hex upd h ds))"

definition upsert_entry ::
  "('d \<Rightarrow> string) \<Rightarrow> (string \<Rightarrow> 'd \<Rightarrow> 'd) \<Rightarrow> (string \<Rightarrow> string \<Rightarrow> 'd) \<Rightarrow> string \<Rightarrow> string \<Rightarrow> 'd list \<Rightarrow> 'd list" where
  "upsert_entry hex upd mk h name ds =
     (case rename_first hex (upd name) h ds of Some ds' \<Rightarrow> ds' | None \<Rightarrow> ds @ [mk h name])"

definition entry_ids :: "('d \<Rightarrow> string) \<Rightarrow> 'd list \<Rightarrow> device_id list" where
  "entry_ids hex ds = List.map_filter (\<lambda>d. from_hex (hex d)) ds"

text \<open>Every id once, in the form \<open>to_hex\<close> gives.\<close>

definition canonical_list :: "('d \<Rightarrow> string) \<Rightarrow> 'd list \<Rightarrow> bool" where
  "canonical_list hex ds \<longleftrightarrow> distinct (map hex ds) \<and> (\<forall>h \<in> set (map hex ds). \<exists>i. device_id_ok i \<and> h = to_hex i)"

definition lookup_name :: "('d \<Rightarrow> string) \<Rightarrow> ('d \<Rightarrow> string) \<Rightarrow> 'd list \<Rightarrow> device_id \<Rightarrow> string option" where
  "lookup_name hex nm ds i =
     (if device_id_ok i then map_of (map (\<lambda>d. (hex d, nm d)) ds) (to_hex i) else None)"

lemma to_hex_eq_iff [simp]: "device_id_ok i \<Longrightarrow> device_id_ok j \<Longrightarrow> to_hex i = to_hex j \<longleftrightarrow> i = j"
  by (simp add: device_id_ok_def idhex.enc_inject)

lemma canonical_list_cong: "map hex ds' = map hex ds \<Longrightarrow> canonical_list hex ds' = canonical_list hex ds"
  unfolding canonical_list_def by (simp only:)

lemma canonical_list_filter: "canonical_list hex ds \<Longrightarrow> canonical_list hex (filter P ds)"
  by (auto simp: canonical_list_def distinct_map_filter)

lemma lookup_name_filter:
  "device_id_ok j \<Longrightarrow>
     lookup_name hex nm (filter (\<lambda>d. hex d \<noteq> to_hex j) ds) = (lookup_name hex nm ds)(j := None)"
proof (rule ext)
  fix i assume "device_id_ok j"
  moreover have "map_of (map (\<lambda>d. (hex d, nm d)) (filter (\<lambda>d. hex d \<noteq> h) ds)) k
      = (if k = h then None else map_of (map (\<lambda>d. (hex d, nm d)) ds) k)" for k h
    by (induction ds) auto
  ultimately show "lookup_name hex nm (filter (\<lambda>d. hex d \<noteq> to_hex j) ds) i = ((lookup_name hex nm ds)(j := None)) i"
    by (auto simp: lookup_name_def)
qed

lemma set_entry_ids:
  assumes "canonical_list hex ds"
  shows "set (entry_ids hex ds) = dom (lookup_name hex nm ds)"
proof -
  have "from_hex (hex d) = Some i \<longleftrightarrow> device_id_ok i \<and> hex d = to_hex i" if d: "d \<in> set ds" for d i
  proof -
    obtain j where j: "device_id_ok j" "hex d = to_hex j"
      using assms d by (auto simp: canonical_list_def)
    then have "from_hex (hex d) = Some j"
      by (simp add: from_hex_to_hex device_id_ok_def)
    then show ?thesis
      using j to_hex_eq_iff [of i j] by auto
  qed
  then have "i \<in> set (entry_ids hex ds) \<longleftrightarrow> device_id_ok i \<and> to_hex i \<in> hex ` set ds" for i
    unfolding entry_ids_def in_set_map_filter image_iff by metis
  then have "set (entry_ids hex ds) = {i. device_id_ok i \<and> to_hex i \<in> hex ` set ds}"
    by blast
  moreover have "dom (map_of (map (\<lambda>d. (hex d, nm d)) ds)) = hex ` set ds"
    by (simp add: dom_map_of_conv_image_fst image_image)
  then have "dom (lookup_name hex nm ds) = {i. device_id_ok i \<and> to_hex i \<in> hex ` set ds}"
    by (auto simp: lookup_name_def dom_def set_eq_iff)
  ultimately show ?thesis by simp
qed

text \<open>Without the invariant, what an entry whose id is not in canonical form does.\<close>

lemma entry_ids_filter_non_canonical:
  assumes "d \<in> set ds" and "from_hex (hex d) = Some i" and "hex d \<noteq> to_hex i"
  shows "i \<in> set (entry_ids hex (filter (\<lambda>d. hex d \<noteq> to_hex i) ds))"
  unfolding entry_ids_def in_set_map_filter using assms by (intro bexI [of _ d]) simp_all

locale entry_type =
  fixes hex :: "'d \<Rightarrow> string"
    and nm :: "'d \<Rightarrow> string"
    and upd :: "string \<Rightarrow> 'd \<Rightarrow> 'd"
    and mk :: "string \<Rightarrow> string \<Rightarrow> 'd"
  assumes hex_upd: "hex (upd n d) = hex d"
    and nm_upd: "nm (upd n d) = n"
    and hex_mk: "hex (mk h n) = h"
    and nm_mk: "nm (mk h n) = n"
begin

lemma rename_first_None_iff: "rename_first hex u h ds = None \<longleftrightarrow> h \<notin> hex ` set ds"
  by (induction ds) auto

lemma rename_first_hexes: "rename_first hex (upd n) h ds = Some ds' \<Longrightarrow> map hex ds' = map hex ds"
  by (induction ds arbitrary: ds') (auto simp: hex_upd split: if_splits)

lemma rename_first_names:
  "rename_first hex (upd n) h ds = Some ds' \<Longrightarrow>
     map_of (map (\<lambda>d. (hex d, nm d)) ds') = (map_of (map (\<lambda>d. (hex d, nm d)) ds))(h \<mapsto> n)"
  by (induction ds arbitrary: ds') (auto simp: hex_upd nm_upd fun_upd_twist split: if_splits)

lemma upsert_names:
  "map_of (map (\<lambda>d. (hex d, nm d)) (upsert_entry hex upd mk h n ds))
     = (map_of (map (\<lambda>d. (hex d, nm d)) ds))(h \<mapsto> n)"
proof (cases "rename_first hex (upd n) h ds")
  case (Some ds')
  then show ?thesis by (simp add: upsert_entry_def rename_first_names)
next
  case None
  then have "h \<notin> hex ` set ds"
    by (simp add: rename_first_None_iff)
  then have "map_of (map (\<lambda>d. (hex d, nm d)) ds) h = None"
    by (force simp: map_of_eq_None_iff)
  with None show ?thesis
    by (auto simp: upsert_entry_def hex_mk nm_mk map_add_def fun_eq_iff split: option.splits)
qed

lemma lookup_upsert:
  "device_id_ok i \<Longrightarrow>
     lookup_name hex nm (upsert_entry hex upd mk (to_hex i) n ds) = (lookup_name hex nm ds)(i \<mapsto> n)"
  unfolding lookup_name_def upsert_names by (auto simp: fun_eq_iff)

lemma upsert_keeps_canonical:
  assumes "canonical_list hex ds" and "device_id_ok i"
  shows "canonical_list hex (upsert_entry hex upd mk (to_hex i) n ds)"
proof (cases "rename_first hex (upd n) (to_hex i) ds")
  case (Some ds')
  with assms(1) show ?thesis
    by (simp add: upsert_entry_def canonical_list_cong [OF rename_first_hexes])
next
  case None
  then have "to_hex i \<notin> hex ` set ds"
    by (simp add: rename_first_None_iff)
  with None assms show ?thesis
    by (auto simp: upsert_entry_def canonical_list_def hex_mk)
qed

end

end
