(* ===== verification/Daemon_State.thy ===== *)
theory Daemon_State
  imports Trust Json_File Device_List
begin

text \<open>
  \<open>crates/daemon/src/state.rs\<close>: the paired devices the daemon keeps on disk, in the order of
  first pairing, each with its id in hexadecimal and the name it was last given.
\<close>

record persisted_device =
  pd_device_id :: string
  pd_name :: string

record persisted_state =
  devices :: "persisted_device list"

definition empty_state :: persisted_state where
  "empty_state = \<lparr>devices = []\<rparr>"

definition upsert :: "persisted_state \<Rightarrow> device_id \<Rightarrow> string \<Rightarrow> persisted_state" where
  "upsert st i name =
     st\<lparr>devices := upsert_entry pd_device_id (\<lambda>n d. d\<lparr>pd_name := n\<rparr>)
          (\<lambda>hex n. \<lparr>pd_device_id = hex, pd_name = n\<rparr>) (to_hex i) name (devices st)\<rparr>"

definition remove :: "persisted_state \<Rightarrow> device_id \<Rightarrow> persisted_state" where
  "remove st i = st\<lparr>devices := filter (\<lambda>d. pd_device_id d \<noteq> to_hex i) (devices st)\<rparr>"

definition device_ids :: "persisted_state \<Rightarrow> device_id list" where
  "device_ids st = entry_ids pd_device_id (devices st)"

definition load :: "(string \<Rightarrow> string + persisted_state) \<Rightarrow> fs \<Rightarrow> path \<Rightarrow> persisted_state" where
  "load from_str fs p = load_json from_str empty_state fs p"

definition save ::
  "nat \<Rightarrow> (persisted_state \<Rightarrow> string + u8 list) \<Rightarrow> persisted_state \<Rightarrow> path \<Rightarrow> fate list \<Rightarrow> fs
     \<Rightarrow> (string + unit) outcome \<times> fs" where
  "save umode to_vec st p fates fs = save_json umode to_vec st p fates fs"

section \<open>The state as a map from ids to names\<close>

definition canonical :: "persisted_state \<Rightarrow> bool" where
  "canonical st \<longleftrightarrow> canonical_list pd_device_id (devices st)"

definition known :: "persisted_state \<Rightarrow> device_id set" where
  "known st = set (device_ids st)"

definition names :: "persisted_state \<Rightarrow> device_id \<Rightarrow> string option" where
  "names st = lookup_name pd_device_id pd_name (devices st)"

interpretation device_entry:
  entry_type pd_device_id pd_name "\<lambda>n d. d\<lparr>pd_name := n\<rparr>" "\<lambda>hex n. \<lparr>pd_device_id = hex, pd_name = n\<rparr>"
  by unfold_locales simp_all

lemma known_dom: "canonical st \<Longrightarrow> known st = dom (names st)"
  by (simp add: canonical_def known_def device_ids_def names_def set_entry_ids)

lemma names_upsert: "device_id_ok i \<Longrightarrow> names (upsert st i n) = (names st)(i \<mapsto> n)"
  by (simp add: names_def upsert_def device_entry.lookup_upsert)

lemma canonical_upsert: "canonical st \<Longrightarrow> device_id_ok i \<Longrightarrow> canonical (upsert st i n)"
  by (simp add: canonical_def upsert_def device_entry.upsert_keeps_canonical)

lemma names_remove: "device_id_ok i \<Longrightarrow> names (remove st i) = (names st)(i := None)"
  by (simp add: names_def remove_def lookup_name_filter)

lemma canonical_remove: "canonical st \<Longrightarrow> canonical (remove st i)"
  by (simp add: canonical_def remove_def canonical_list_filter)

lemma canonical_empty: "canonical empty_state"
  by (simp add: canonical_def empty_state_def canonical_list_def)

interpretation state: named_devices canonical known upsert names
  by unfold_locales (auto simp: known_dom names_upsert canonical_upsert)

interpretation revocable: revocable_set canonical known upsert remove
  by unfold_locales (auto simp: known_dom names_remove canonical_remove)

text \<open>The trust store and the persisted state go through the same history.\<close>

interpretation pins: mirrored_sets "\<lambda>_. True" paired "\<lambda>t i _. pin t i" unpair canonical known upsert remove
  by unfold_locales

fun apply_named :: "device_op \<Rightarrow> (device_id \<Rightarrow> string option) \<Rightarrow> device_id \<Rightarrow> string option" where
  "apply_named (Add i n) m = m(i \<mapsto> n)"
| "apply_named (Del i) m = m(i := None)"

lemma state_step:
  "canonical st \<Longrightarrow> device_id_ok (op_device p) \<Longrightarrow>
     canonical (device_op_step upsert remove p st) \<and> names (device_op_step upsert remove p st) = apply_named p (names st)"
  by (cases p) (auto simp: canonical_upsert canonical_remove names_upsert names_remove)

lemma state_history:
  "canonical st \<Longrightarrow> device_ops_ok ops \<Longrightarrow>
     canonical (fold (device_op_step upsert remove) ops st) \<and>
     names (fold (device_op_step upsert remove) ops st) = fold apply_named ops (names st)"
proof (induction ops arbitrary: st)
  case Nil
  then show ?case by simp
next
  case (Cons p ops)
  then show ?case using state_step [of st p] by simp
qed

text \<open>
  C27. The persisted state is a map. After any history of pairings, renamings and unpairings of
  a state the daemon wrote, looking a device up gives the name of its last pairing, or nothing
  if it was unpaired since; the ids the daemon restores at the next start are exactly those
  devices; and no device is ever listed twice.
\<close>

theorem state_refines_map:
  assumes "canonical st" and "device_ops_ok ops"
  shows "let st' = fold (device_op_step upsert remove) ops st
         in names st' = fold apply_named ops (names st) \<and>
            set (device_ids st') = dom (fold apply_named ops (names st)) \<and>
            distinct (map pd_device_id (devices st'))"
  using state_history [OF assms]
  by (auto simp: Let_def known_dom [unfolded known_def] canonical_def canonical_list_def)

lemma device_id_ok_replicate: "device_id_ok (replicate 32 b)"
  by (simp add: device_id_ok_def device_id_len_def)

theorem state_refines_map_witness:
  "set (device_ids (fold (device_op_step upsert remove)
      [Add (replicate 32 1) ''pixel'', Add (replicate 32 2) ''tab'', Del (replicate 32 1)] empty_state))
   = {replicate 32 2}"
proof -
  define ops where "ops = [Add (replicate 32 1) ''pixel'', Add (replicate 32 2) ''tab'', Del (replicate 32 1)]"
  have "device_ops_ok ops"
    by (simp add: ops_def device_id_ok_replicate)
  from state_refines_map [OF canonical_empty this]
  have "set (device_ids (fold (device_op_step upsert remove) ops empty_state)) = dom (fold apply_named ops (names empty_state))"
    by (simp only: Let_def)
  also have "\<dots> = {replicate 32 2}"
    by (auto simp: ops_def names_def empty_state_def lookup_name_def replicate_eq_replicate split: if_splits)
  finally show ?thesis
    by (simp only: ops_def)
qed

text \<open>
  The pins in memory and the pins on disk agree. A trust store built from the persisted
  state at start-up and then changed by the same pairings and unpairings trusts at every
  moment exactly the devices the state file would restore.
\<close>

theorem trust_mirrors_state:
  assumes "canonical st" and "device_ops_ok ops"
  shows "paired (fold (device_op_step (\<lambda>t i _. pin t i) unpair) ops (trust_new (device_ids st)))
    = set (device_ids (fold (device_op_step upsert remove) ops st))"
  using pins.mirrored [OF TrueI assms(1) _ assms(2), of "trust_new (device_ids st)"]
  by (simp add: known_def trust_new_def)

theorem trust_mirrors_state_witness:
  "paired (fold (device_op_step (\<lambda>t i _. pin t i) unpair) [Add (replicate 32 1) ''pixel'']
      (trust_new (device_ids empty_state)))
   = set (device_ids (fold (device_op_step upsert remove) [Add (replicate 32 1) ''pixel''] empty_state))"
  by (rule trust_mirrors_state [OF canonical_empty])
    (simp add: device_id_ok_replicate)

text \<open>
  C21. Saving the state is atomic. Whatever error or crash hits any of the calls \<open>save\<close> makes,
  the state loaded afterwards is the new one if \<open>save\<close> reported success and otherwise the one
  that was there before; it is never a truncated file read as an empty state.
\<close>

theorem save_is_atomic:
  assumes "names_a_file p" and "json_ok to_vec from_str st"
    and "save umode to_vec st p fates fs = (r, fs')"
  shows "load from_str fs' p = (if r = Finished (Inr ()) then st else load from_str fs p)"
  using save_json_crash_safe [OF assms(1,2) assms(3) [unfolded save_def], of empty_state]
  by (auto simp: load_def)

text \<open>A format for states of at most one device without a name, as an instance.\<close>

definition demo_to_vec :: "persisted_state \<Rightarrow> string + u8 list" where
  "demo_to_vec st = (case devices st of [d] \<Rightarrow> Inr (string_bytes (pd_device_id d)) | _ \<Rightarrow> Inl ''unsupported'')"

definition demo_from_str :: "string \<Rightarrow> string + persisted_state" where
  "demo_from_str s = Inr \<lparr>devices = [\<lparr>pd_device_id = s, pd_name = []\<rparr>]\<rparr>"

theorem save_is_atomic_witness:
  "load demo_from_str (snd (save 420 demo_to_vec \<lparr>devices = [\<lparr>pd_device_id = ''new'', pd_name = []\<rparr>]\<rparr>
      [''data'', ''devices.json''] [Completes, Crashes (Some 1)]
      [[''data'', ''devices.json''] \<mapsto> \<lparr>content = string_bytes ''old'', mode = 384\<rparr>]))
     [''data'', ''devices.json'']
   = \<lparr>devices = [\<lparr>pd_device_id = ''old'', pd_name = []\<rparr>]\<rparr>"
proof -
  define p where "p = [''data'', ''devices.json'']"
  define fs where "fs = [p \<mapsto> \<lparr>content = string_bytes ''old'', mode = 384\<rparr>]"
  define st where "st = \<lparr>devices = [\<lparr>pd_device_id = ''new'', pd_name = []\<rparr>]\<rparr>"
  have p: "names_a_file p"
    by (simp add: p_def names_a_file_def)
  have j: "json_ok demo_to_vec demo_from_str st"
    by (simp add: json_ok_def demo_to_vec_def demo_from_str_def st_def from_utf8_string_bytes
        ascii_is_rust_string ascii_def)
  obtain r fs' where s: "save 420 demo_to_vec st p [Completes, Crashes (Some 1)] fs = (r, fs')"
    by (metis surj_pair)
  then have "r \<noteq> Finished (Inr ())"
    by (auto simp: save_def save_json_def demo_to_vec_def st_def atomic_save_calls_def parent_def p_def)
  with save_is_atomic [OF p j s]
  have "load demo_from_str fs' p = load demo_from_str fs p" by simp
  also have "\<dots> = \<lparr>devices = [\<lparr>pd_device_id = ''old'', pd_name = []\<rparr>]\<rparr>"
    by (simp add: load_def load_json_def read_to_string_def contents_def fs_def from_utf8_string_bytes
        ascii_is_rust_string ascii_def demo_from_str_def)
  finally show ?thesis
    using s by (simp add: fs_def p_def st_def)
qed

text \<open>
  A state file whose id is not in the form \<open>to_hex\<close> gives loads as a trusted device, and
  unpairing that device does not remove it: it is trusted again after the next start.
\<close>

lemma remove_keeps_non_canonical:
  "d \<in> set (devices st) \<Longrightarrow> from_hex (pd_device_id d) = Some i \<Longrightarrow> pd_device_id d \<noteq> to_hex i \<Longrightarrow>
     i \<in> set (device_ids (remove st i))"
  by (simp add: device_ids_def remove_def entry_ids_filter_non_canonical)

end
