(* ===== verification/Ffi_State.thy ===== *)
theory Ffi_State
  imports Trust Json_File Device_List
begin

text \<open>
  \<open>crates/ffi/src/state.rs\<close>: the paired peers the Android core keeps on disk. The same shape as
  the daemon's state, without removal, and with the listing the Devices screen shows.
\<close>

record persisted_peer =
  pp_device_id :: string
  pp_name :: string

record persisted_peers =
  peers :: "persisted_peer list"

definition no_peers :: persisted_peers where
  "no_peers = \<lparr>peers = []\<rparr>"

definition upsert_peer :: "persisted_peers \<Rightarrow> device_id \<Rightarrow> string \<Rightarrow> persisted_peers" where
  "upsert_peer st i name =
     st\<lparr>peers := upsert_entry pp_device_id (\<lambda>n p. p\<lparr>pp_name := n\<rparr>)
          (\<lambda>hex n. \<lparr>pp_device_id = hex, pp_name = n\<rparr>) (to_hex i) name (peers st)\<rparr>"

definition peer_ids :: "persisted_peers \<Rightarrow> device_id list" where
  "peer_ids st = entry_ids pp_device_id (peers st)"

definition entries :: "persisted_peers \<Rightarrow> (string \<times> string) list" where
  "entries st = map (\<lambda>p. (pp_device_id p, pp_name p)) (peers st)"

definition load_peers :: "(string \<Rightarrow> string + persisted_peers) \<Rightarrow> fs \<Rightarrow> path \<Rightarrow> persisted_peers" where
  "load_peers from_str fs p = load_json from_str no_peers fs p"

definition save_peers ::
  "nat \<Rightarrow> (persisted_peers \<Rightarrow> string + u8 list) \<Rightarrow> persisted_peers \<Rightarrow> path \<Rightarrow> fate list \<Rightarrow> fs
     \<Rightarrow> (string + unit) outcome \<times> fs" where
  "save_peers umode to_vec st p fates fs = save_json umode to_vec st p fates fs"

definition peers_canonical :: "persisted_peers \<Rightarrow> bool" where
  "peers_canonical st \<longleftrightarrow> canonical_list pp_device_id (peers st)"

definition known_peers :: "persisted_peers \<Rightarrow> device_id set" where
  "known_peers st = set (peer_ids st)"

definition peer_names :: "persisted_peers \<Rightarrow> device_id \<Rightarrow> string option" where
  "peer_names st = lookup_name pp_device_id pp_name (peers st)"

interpretation peer_entry:
  entry_type pp_device_id pp_name "\<lambda>n p. p\<lparr>pp_name := n\<rparr>" "\<lambda>hex n. \<lparr>pp_device_id = hex, pp_name = n\<rparr>"
  by unfold_locales simp_all

lemma known_peers_dom: "peers_canonical st \<Longrightarrow> known_peers st = dom (peer_names st)"
  by (simp add: peers_canonical_def known_peers_def peer_ids_def peer_names_def set_entry_ids)

lemma peer_names_upsert: "device_id_ok i \<Longrightarrow> peer_names (upsert_peer st i n) = (peer_names st)(i \<mapsto> n)"
  by (simp add: peer_names_def upsert_peer_def peer_entry.lookup_upsert)

lemma peers_canonical_upsert: "peers_canonical st \<Longrightarrow> device_id_ok i \<Longrightarrow> peers_canonical (upsert_peer st i n)"
  by (simp add: peers_canonical_def upsert_peer_def peer_entry.upsert_keeps_canonical)

interpretation peers: named_devices peers_canonical known_peers upsert_peer peer_names
  by unfold_locales (auto simp: known_peers_dom peer_names_upsert peers_canonical_upsert)

lemma entries_peer_names:
  "peers_canonical st \<Longrightarrow> device_id_ok i \<Longrightarrow> (to_hex i, n) \<in> set (entries st) \<longleftrightarrow> peer_names st i = Some n"
  by (simp add: entries_def peer_names_def lookup_name_def peers_canonical_def canonical_list_def
      map_of_eq_Some_iff comp_def)

lemma peers_canonical_no_peers: "peers_canonical no_peers"
  by (simp add: peers_canonical_def no_peers_def canonical_list_def)

end
