(* ===== verification/Rust_Trim.thy ===== *)
theory Rust_Trim
  imports Rust_Text
begin

text \<open>
  \<open>str::trim\<close> on strings as UTF-8 bytes.
\<close>

text \<open>
  The UTF-8 forms of the characters with the Unicode property White_Space, which \<open>trim\<close> removes
  at both ends.
\<close>

definition white_space :: "string \<Rightarrow> bool" where
  "white_space cs \<longleftrightarrow>
     (let bs = map char_code cs in
      (\<exists>b \<in> set [9, 10, 11, 12, 13, 32]. bs = [b]) \<or>
      bs = [0xC2, 0x85] \<or> bs = [0xC2, 0xA0] \<or> bs = [0xE1, 0x9A, 0x80] \<or>
      (\<exists>b \<in> set ([0x80..<0x8B] @ [0xA8, 0xA9, 0xAF]). bs = [0xE2, 0x80, b]) \<or>
      bs = [0xE2, 0x81, 0x9F] \<or> bs = [0xE3, 0x80, 0x80])"

function trim_start :: "string \<Rightarrow> string" where
  "trim_start s =
     (if s = [] then []
      else if white_space (take 1 s) then trim_start (drop 1 s)
      else if white_space (take 2 s) then trim_start (drop 2 s)
      else if white_space (take 3 s) then trim_start (drop 3 s)
      else s)"
  by pat_completeness auto
termination by (relation "measure length") auto

declare trim_start.simps [simp del]

function trim_end :: "string \<Rightarrow> string" where
  "trim_end s =
     (let n = length s in
      if s = [] then []
      else if white_space (drop (n - 1) s) then trim_end (take (n - 1) s)
      else if white_space (drop (n - 2) s) then trim_end (take (n - 2) s)
      else if white_space (drop (n - 3) s) then trim_end (take (n - 3) s)
      else s)"
  by pat_completeness auto
termination by (relation "measure length") auto

declare trim_end.simps [simp del]

definition trim :: "string \<Rightarrow> string" where
  "trim s = trim_end (trim_start s)"

text \<open>Trimming leaves nothing to trim.\<close>

lemma trim_end_fixed: "trim_end s = [] \<or> \<not> white_space (drop (length (trim_end s) - 1) (trim_end s))"
proof (induction s rule: trim_end.induct)
  case (1 s)
  then show ?case
    by (subst (1 2 3) trim_end.simps) (simp add: Let_def)
qed

end
