(* ===== verification/Config.thy ===== *)
theory Config
  imports Rust_Fs Rust_Trim
begin

text \<open>
  \<open>crates/daemon/src/config.rs\<close>: the user's configuration file and the device name. \<open>toml\<close> is the
  parameter \<open>from_str\<close>; the environment variable \<open>HOSTNAME\<close> is an argument.
\<close>

definition default_port :: u16 where
  "default_port = 58210"

record config =
  cfg_device_name :: "string option"
  cfg_listen_port :: u16

definition default_config :: config where
  "default_config = \<lparr>cfg_device_name = None, cfg_listen_port = default_port\<rparr>"

definition load_config :: "(string \<Rightarrow> string + config) \<Rightarrow> fs \<Rightarrow> path \<Rightarrow> config" where
  "load_config from_str fs p =
     (case read_to_string fs p of
        None \<Rightarrow> default_config
      | Some s \<Rightarrow> (case from_str s of Inr c \<Rightarrow> c | Inl _ \<Rightarrow> default_config))"

section \<open>The device name\<close>

definition hostname :: "fs \<Rightarrow> string option \<Rightarrow> string option" where
  "hostname fs env_hostname =
     (case read_to_string fs [''etc'', ''hostname''] of
        Some s \<Rightarrow> Some (trim s)
      | None \<Rightarrow> env_hostname)"

definition device_name :: "config \<Rightarrow> fs \<Rightarrow> string option \<Rightarrow> string" where
  "device_name c fs env_hostname =
     (case cfg_device_name c of
        Some n \<Rightarrow> n
      | None \<Rightarrow>
          (case hostname fs env_hostname of
             Some h \<Rightarrow> if h \<noteq> [] then h else ''penguinsync-device''
           | None \<Rightarrow> ''penguinsync-device''))"

text \<open>
  A daemon never starts nameless by accident: a missing or malformed configuration file gives
  the fixed default port and no name; and a name that was not configured is never empty, nor
  does it end in a white-space character such as the newline of \<open>/etc/hostname\<close>, whatever the
  host says its name is (\<open>HOSTNAME\<close> is used as it stands).
\<close>

theorem default_name_usable:
  "(read_to_string fs p = None \<or> (\<exists>s e. read_to_string fs p = Some s \<and> from_str s = Inl e) \<longrightarrow>
      load_config from_str fs p = \<lparr>cfg_device_name = None, cfg_listen_port = 58210\<rparr>) \<and>
   device_name \<lparr>cfg_device_name = None, cfg_listen_port = port\<rparr> fs env \<noteq> [] \<and>
   (read_to_string fs [''etc'', ''hostname''] \<noteq> None \<longrightarrow>
      \<not> white_space [last (device_name \<lparr>cfg_device_name = None, cfg_listen_port = port\<rparr> fs env)])"
proof -
  have "\<not> white_space [last (trim s)]" if "trim s \<noteq> []" for s
    using trim_end_fixed [of "trim_start s"] that
    by (metis One_nat_def append_butlast_last_id append_eq_conv_conj length_butlast trim_def)
  then show ?thesis
    by (auto simp: load_config_def default_config_def default_port_def device_name_def hostname_def
        white_space_def split: option.splits)
qed

theorem default_name_usable_witness:
  "load_config (\<lambda>_. Inl ''expected a value'') [[''c''] \<mapsto> \<lparr>content = string_bytes ''x = '', mode = 420\<rparr>] [''c'']
     = \<lparr>cfg_device_name = None, cfg_listen_port = 58210\<rparr>"
proof -
  have "read_to_string [[''c''] \<mapsto> \<lparr>content = string_bytes ''x = '', mode = 420\<rparr>] [''c''] = Some ''x = ''"
    by (simp add: read_to_string_def contents_def from_utf8_string_bytes ascii_is_rust_string ascii_def)
  then show ?thesis
    using default_name_usable [of "[[''c''] \<mapsto> \<lparr>content = string_bytes ''x = '', mode = 420\<rparr>]" "[''c'']"
        "\<lambda>_. Inl ''expected a value''" 0 None] by simp
qed

end
