(* ===== verification/Net_Addrs.thy ===== *)
theory Net_Addrs
  imports Rust_Net
begin

text \<open>
  \<open>crates/daemon/src/net_addrs.rs\<close>: the addresses that go into the QR code. What the operating
  system answers to the three socket calls of \<open>guess_outbound_ip\<close> is the record \<open>route_lookup\<close>.
\<close>

record route_lookup =
  rl_bind :: bool
  rl_connect :: bool
  rl_local_addr :: "socket_addr option"

definition guess_outbound_ip :: "route_lookup \<Rightarrow> ip_addr option" where
  "guess_outbound_ip os =
     (if \<not> rl_bind os then None
      else if \<not> rl_connect os then None
      else map_option addr_ip (rl_local_addr os))"

definition candidate_addrs :: "route_lookup \<Rightarrow> socket_addr \<Rightarrow> socket_addr list" where
  "candidate_addrs os listen_addr =
     (if \<not> is_unspecified (addr_ip listen_addr) then [listen_addr]
      else (case guess_outbound_ip os of
          Some ip \<Rightarrow> [socket_new ip (addr_port listen_addr)]
        | None \<Rightarrow> []) @ [socket_new (IpV4 127 0 0 1) (addr_port listen_addr)])"

lemma addr_port_socket_new [simp]: "addr_port (socket_new ip p) = p"
  by (cases ip) simp_all

lemma addr_ip_socket_new [simp]: "addr_ip (socket_new ip p) = ip"
  by (cases ip) simp_all

lemma text_faithful_socket_new:
  "(\<forall>segs. ip = IpV6 segs \<longrightarrow> length segs = 8) \<Longrightarrow> text_faithful (socket_new ip p)"
  by (cases ip) simp_all

text \<open>
  There is always an address to dial, every candidate has the port the daemon listens on, and
  no candidate is the wildcard address (unless the routing table itself answers with it).
\<close>

theorem candidate_addrs_dialable:
  "candidate_addrs os listen_addr \<noteq> [] \<and>
   addr_port ` set (candidate_addrs os listen_addr) = {addr_port listen_addr} \<and>
   (is_unspecified ` addr_ip ` set (candidate_addrs os listen_addr) = {False} \<or>
    map_option is_unspecified (guess_outbound_ip os) = Some True)"
  by (auto simp: candidate_addrs_def split: option.splits)

end
