(* ===== verification/Clip_Sync.thy ===== *)
theory Clip_Sync
  imports Clip Rust_Text
begin

text \<open>
  The parts of \<open>crates/daemon/src/clipboard.rs\<close> that do not need the daemon's shared state: the
  GNOME clipboard backend (which implements the trait of \<open>crates/net/src/clipboard.rs\<close>) and
  \<open>should_broadcast\<close>, the filter both directions of clipboard sync go through. What the shell
  extension answers over D-Bus is an argument.
\<close>

section \<open>The backend\<close>

datatype clipboard_error = NotAvailable | BackendUnavailable string | Other string

record clip_changed =
  cc_mime :: string

text \<open>\<open>probe\<close>: a D-Bus proxy, the question whether the name is owned, the extension's proxy.\<close>

definition gnome_probe :: "bool \<Rightarrow> string + bool \<Rightarrow> bool \<Rightarrow> bool" where
  "gnome_probe dbus_ok has_owner proxy_ok =
     (if \<not> dbus_ok then False
      else (case has_owner of
          Inl _ \<Rightarrow> False
        | Inr owned \<Rightarrow> if \<not> owned then False else proxy_ok))"

text \<open>
  \<open>watch\<close>: every \<open>OwnerChange\<close> signal becomes a notification that text changed, until nobody
  receives them any more (after \<open>listening\<close> of them).
\<close>

fun gnome_watch :: "bool \<Rightarrow> unit list \<Rightarrow> nat \<Rightarrow> clip_changed list" where
  "gnome_watch False signals listening = []"
| "gnome_watch True [] listening = []"
| "gnome_watch True (s # signals) 0 = []"
| "gnome_watch True (s # signals) (Suc n) = \<lparr>cc_mime = mime_text_plain\<rparr> # gnome_watch True signals n"

definition gnome_read :: "string + string \<Rightarrow> string \<Rightarrow> clipboard_error + u8 list" where
  "gnome_read get_text m =
     (if m \<noteq> mime_text_plain then Inl NotAvailable
      else (case get_text of Inl e \<Rightarrow> Inl (Other e) | Inr s \<Rightarrow> Inr (string_bytes s)))"

text \<open>The result and the text handed to the extension, if the call was made.\<close>

definition gnome_write ::
  "(u8 list \<Rightarrow> string) \<Rightarrow> (string \<Rightarrow> string + unit) \<Rightarrow> string \<Rightarrow> u8 list \<Rightarrow> (clipboard_error + unit) \<times> string option" where
  "gnome_write show_utf8_error set_text m bs =
     (if m \<noteq> mime_text_plain then (Inl NotAvailable, None)
      else (case from_utf8 bs of
          None \<Rightarrow> (Inl (Other (show_utf8_error bs)), None)
        | Some text \<Rightarrow>
            (case set_text text of
               Inl e \<Rightarrow> (Inl (Other e), Some text)
             | Inr _ \<Rightarrow> (Inr (), Some text))))"

section \<open>The echo filter\<close>

definition should_broadcast :: "u8 list option \<Rightarrow> u8 list \<Rightarrow> bool \<times> u8 list option" where
  "should_broadcast last_hash h = (if last_hash = Some h then (False, last_hash) else (True, Some h))"

text \<open>What passes a filter out of a sequence.\<close>

fun passed :: "('m \<Rightarrow> 'h \<Rightarrow> bool \<times> 'm) \<Rightarrow> 'm \<Rightarrow> 'h list \<Rightarrow> 'h list" where
  "passed accepts m [] = []"
| "passed accepts m (h # hs) =
     (case accepts m h of (ok, m') \<Rightarrow> (if ok then [h] else []) @ passed accepts m' hs)"

text \<open>The contract: a value passes iff it differs from the one before it, and is remembered.\<close>

locale echo_filter =
  fixes accepts :: "'m \<Rightarrow> 'h \<Rightarrow> bool \<times> 'm"
    and seen :: "'m \<Rightarrow> 'h option"
  assumes accepts_fst: "fst (accepts m h) \<longleftrightarrow> seen m \<noteq> Some h"
    and accepts_seen: "seen (snd (accepts m h)) = Some h"
begin

lemma passed_remdups:
  "passed accepts m hs = (case seen m of None \<Rightarrow> remdups_adj hs | Some l \<Rightarrow> tl (remdups_adj (l # hs)))"
proof (induction hs arbitrary: m)
  case Nil
  then show ?case by (simp split: option.split)
next
  case (Cons h hs)
  obtain ok m' where a: "accepts m h = (ok, m')"
    by (metis surj_pair)
  then have "passed accepts m' hs = tl (remdups_adj (h # hs))"
    using Cons.IH [of m'] accepts_seen [of m h] by simp
  moreover have "remdups_adj (h # hs) = h # tl (remdups_adj (h # hs))"
    by (metis list.collapse remdups_adj_Nil_iff hd_remdups_adj list.sel(1) list.distinct(1))
  moreover have "ok \<longleftrightarrow> seen m \<noteq> Some h"
    using a accepts_fst [of m h] by simp
  ultimately show ?case
    using a by (auto split: option.split)
qed

lemma second_suppressed: "accepts m h = (ok, m') \<Longrightarrow> \<not> fst (accepts m' h)"
  using accepts_fst accepts_seen by (metis snd_conv)

end

interpretation echo: echo_filter should_broadcast "\<lambda>l. l"
  by unfold_locales (auto simp: should_broadcast_def)

text \<open>
  C40. Exactly the real changes are broadcast. Out of any sequence of clipboard hashes, in either
  direction, what passes \<open>should_broadcast\<close> from the start is the sequence with runs of equal
  neighbours collapsed: nothing is sent twice in a row, and a return to an earlier value is
  sent again.
\<close>

theorem broadcasts_exactly_changes: "passed should_broadcast None hs = remdups_adj hs"
  by (simp add: echo.passed_remdups)

text \<open>
  The local clipboard as the backend sees it. Text read from the shell and written back is
  the same text; only text of the one supported type ever reaches the shell, and only if it is
  valid UTF-8, which is why a received clip that is not is refused by the backend.
\<close>

theorem gnome_backend_roundtrip:
  assumes "is_rust_string text" and "set_text text = Inr ()"
  shows "(case gnome_read (Inr text) mime_text_plain of
      Inr bs \<Rightarrow> gnome_write show_err set_text mime_text_plain bs = (Inr (), Some text)
    | Inl _ \<Rightarrow> False) \<and>
    (\<forall>m bs e t. gnome_write show_err set_text m bs = (e, Some t) \<longrightarrow> m = mime_text_plain \<and> from_utf8 bs = Some t)"
  using assms
  by (auto simp: gnome_read_def gnome_write_def from_utf8_string_bytes split: if_splits option.splits sum.splits)

theorem gnome_backend_roundtrip_witness:
  "gnome_write (\<lambda>_. []) (\<lambda>_. Inr ()) mime_text_plain (string_bytes ''hello'') = (Inr (), Some ''hello'')"
proof -
  have "is_rust_string ''hello''"
    by (simp add: ascii_is_rust_string ascii_def)
  from gnome_backend_roundtrip [OF this, of "\<lambda>_. Inr ()" "\<lambda>_. []"] show ?thesis
    by (simp add: gnome_read_def)
qed

end
