(* ===== verification/Shared.thy ===== *)
theory Shared
  imports Daemon_State Pairing_Token Qr_Uri Listener Net_Addrs Clip_Sync
begin

text \<open>
  The daemon's state: \<open>crates/daemon/src/shared.rs\<close>, and around it what its tasks hold. The
  orchestrator is one task that takes one event after the other and may be waiting for a human
  in the middle of one; the D-Bus methods and the clipboard watcher run beside it. Each step
  of a task between two of those waits is one function of the state; the short locks inside
  are taken as part of it.

  A connection's send handle is its connection number; a oneshot channel is its number. The
  clipboard backend is there or not. What a step does to the outside is its list of outputs,
  together with what the source logs at the same places (a token issued and redeemed, an
  answer delivered, a device pinned or unpinned, a state file written).
\<close>

record shared =
  sh_device_id :: device_id
  sh_name :: string
  sh_listen_addr :: socket_addr
  sh_trust :: trust_store
  sh_state_path :: path
  sh_state :: persisted_state
  sh_current_token :: "pairing_token option"
  sh_pending_confirmations :: "device_id \<Rightarrow> nat option"
  sh_remote_to_device :: "socket_addr \<Rightarrow> device_id option"
  sh_remote_handles :: "socket_addr \<Rightarrow> nat option"
  sh_connected_devices :: "(device_id \<times> nat) list"
  sh_backend :: bool
  sh_last_hash :: "u8 list option"

text \<open>A \<open>Device1\<close> object, and a pairing the orchestrator is waiting for a human about.\<close>

record device1 =
  d1_name :: string
  d1_device_id :: string
  d1_connected :: bool

record confirmation =
  cf_channel :: nat
  cf_remote :: socket_addr
  cf_device :: device_id
  cf_name :: string
  cf_deadline :: instant
  cf_answer :: "bool option"

record daemon = shared +
  dm_objects :: "string \<Rightarrow> device1 option"
  dm_fs :: fs
  dm_queue :: "listener_event list"
  dm_confirming :: "confirmation option"
  dm_next_channel :: nat
  dm_alive :: bool

datatype daemon_output =
    TokenIssued token_bytes instant
  | QrReply string string
  | TokenRedeemed device_id token_bytes instant
  | PairingRequested string string string
  | Answered device_id bool
  | PairingDeclined device_id
  | DevicePinned device_id string
  | DeviceUnpinned device_id
  | StateSaved bool
  | ConnectedChanged string bool
  | SendsClip nat clip
  | WritesClipboard string "u8 list"
  | InvalidArgs

text \<open>The third-party functions the daemon uses.\<close>

record 'u env =
  env_url :: "'u url_api"
  env_umode :: nat
  env_to_vec :: "persisted_state \<Rightarrow> string + u8 list"
  env_blake3 :: "u8 list \<Rightarrow> u8 list"

text \<open>
  \<open>persist_state\<close>: an error is logged and otherwise ignored; the process may also die in it.
\<close>

definition persist_state :: "'u env \<Rightarrow> fate list \<Rightarrow> daemon \<Rightarrow> daemon_output list \<times> daemon" where
  "persist_state env fates d =
     (case save (env_umode env) (env_to_vec env) (sh_state d) (sh_state_path d) fates (dm_fs d) of
        (Finished r, fs') \<Rightarrow> ([StateSaved (r = Inr ())], d\<lparr>dm_fs := fs'\<rparr>)
      | (Crashed, fs') \<Rightarrow> ([], d\<lparr>dm_fs := fs', dm_alive := False\<rparr>))"

end
