(* ===== verification/Dbus.thy ===== *)
theory Dbus
  imports Shared
begin

text \<open>
  \<open>crates/daemon/src/dbus.rs\<close>: the methods of the \<open>Daemon1\<close> interface, the \<open>Device1\<close> objects and
  the wait for a human's answer. The object server is \<open>zbus\<close>'s; of it the code uses a map from
  paths to objects.
\<close>

definition root_path :: string where
  "root_path = ''/org/penguinsync/Daemon''"

definition device_path :: "device_id \<Rightarrow> string" where
  "device_path i = root_path @ ''/devices/'' @ to_hex i"

lemma device_path_inject [simp]: "device_id_ok i \<Longrightarrow> device_id_ok j \<Longrightarrow> device_path i = device_path j \<longleftrightarrow> i = j"
  by (simp add: device_path_def)

section \<open>\<open>Daemon1\<close>\<close>

definition start_pairing ::
  "'u env \<Rightarrow> route_lookup \<Rightarrow> token_bytes \<Rightarrow> instant \<Rightarrow> daemon \<Rightarrow> (daemon_output list \<times> daemon) option" where
  "start_pairing env os random now d =
     (let token = issue random now;
          d1 = d\<lparr>sh_trust := open_pairing_window (sh_trust d) (now + token_ttl), sh_current_token := Some token\<rparr>;
          qr = \<lparr>qr_version = protocol_version, qr_device_id = sh_device_id d, qr_name = sh_name d,
                qr_addrs = candidate_addrs os (sh_listen_addr d), qr_token = random\<rparr>;
          fingerprint = short_fingerprint (sh_device_id d) in
      case encode_qr_uri (env_url env) qr of
        None \<Rightarrow> None
      | Some uri \<Rightarrow> Some ([TokenIssued random now, QrReply uri fingerprint], d1))"

text \<open>
  The answer travels through the oneshot channel registered under the id: it arrives if the
  orchestrator still waits on that channel, and is lost otherwise.
\<close>

definition confirm_pairing :: "string \<Rightarrow> bool \<Rightarrow> daemon \<Rightarrow> daemon_output list \<times> daemon" where
  "confirm_pairing hex accept d =
     (case from_hex hex of
        None \<Rightarrow> ([InvalidArgs], d)
      | Some i \<Rightarrow>
          (case sh_pending_confirmations d i of
             None \<Rightarrow> ([], d)
           | Some ch \<Rightarrow>
               (let d1 = d\<lparr>sh_pending_confirmations := (sh_pending_confirmations d)(i := None)\<rparr> in
                case dm_confirming d of
                  Some c \<Rightarrow>
                    if cf_channel c = ch
                    then ([Answered i accept], d1\<lparr>dm_confirming := Some (c\<lparr>cf_answer := Some accept\<rparr>)\<rparr>)
                    else ([], d1)
                | None \<Rightarrow> ([], d1))))"

definition dbus_unpair :: "'u env \<Rightarrow> fate list \<Rightarrow> string \<Rightarrow> daemon \<Rightarrow> daemon_output list \<times> daemon" where
  "dbus_unpair env fates hex d =
     (case from_hex hex of
        None \<Rightarrow> ([InvalidArgs], d)
      | Some i \<Rightarrow>
          (let d1 = d\<lparr>sh_trust := unpair (sh_trust d) i, sh_state := remove (sh_state d) i\<rparr> in
           case persist_state env fates d1 of
             (out, d2) \<Rightarrow>
               if \<not> dm_alive d2 then (DeviceUnpinned i # out, d2)
               else (DeviceUnpinned i # out, d2\<lparr>dm_objects := (dm_objects d2)(device_path i := None)\<rparr>)))"

section \<open>\<open>Device1\<close>\<close>

definition set_connected :: "device_id \<Rightarrow> bool \<Rightarrow> daemon \<Rightarrow> daemon_output list \<times> daemon" where
  "set_connected i connected d =
     (case dm_objects d (device_path i) of
        None \<Rightarrow> ([], d)
      | Some iface \<Rightarrow>
          if d1_connected iface = connected then ([], d)
          else ([ConnectedChanged (device_path i) connected],
                d\<lparr>dm_objects := (dm_objects d)(device_path i \<mapsto> iface\<lparr>d1_connected := connected\<rparr>)\<rparr>))"

section \<open>\<open>await_confirmation\<close>\<close>

text \<open>The wait starts: a new channel is registered, in place of any older one for this id.\<close>

definition await_confirmation :: "socket_addr \<Rightarrow> device_id \<Rightarrow> string \<Rightarrow> instant \<Rightarrow> daemon \<Rightarrow> daemon" where
  "await_confirmation remote i name now d =
     (let ch = dm_next_channel d in
      d\<lparr>dm_next_channel := ch + 1,
        sh_pending_confirmations := (sh_pending_confirmations d)(i \<mapsto> ch),
        dm_confirming := Some \<lparr>cf_channel = ch, cf_remote = remote, cf_device = i, cf_name = name,
          cf_deadline = now + (token_ttl + from_secs 5), cf_answer = None\<rparr>\<rparr>)"

text \<open>
  The wait ends: with the answer if there is one, with \<open>False\<close> at the deadline. \<open>None\<close> while it
  goes on.
\<close>

definition confirmation_result :: "confirmation \<Rightarrow> instant \<Rightarrow> bool option" where
  "confirmation_result c now =
     (case cf_answer c of
        Some b \<Rightarrow> Some b
      | None \<Rightarrow> if cf_deadline c \<le> now then Some False else None)"

end
