(* ===== verification/Clip_Relay.thy ===== *)
theory Clip_Relay
  imports Shared
begin

text \<open>
  The two loops of \<open>crates/daemon/src/clipboard.rs\<close> on the daemon's state: the local clipboard
  changed and is broadcast; a device's clipboard changed and is applied and relayed. A failing
  write to the local clipboard is only logged by the source.
\<close>

text \<open>One turn of \<open>watch_and_broadcast\<close>: the notification and what reading the clipboard gave.\<close>

definition watch_and_broadcast ::
  "'u env \<Rightarrow> clip_changed \<Rightarrow> clipboard_error + u8 list \<Rightarrow> daemon \<Rightarrow> daemon_output list \<times> daemon" where
  "watch_and_broadcast env change contents_read d =
     (if cc_mime change \<noteq> mime_text_plain then ([], d)
      else (case contents_read of
        Inl _ \<Rightarrow> ([], d)
      | Inr bs \<Rightarrow>
          (case clip_new (env_blake3 env) (cc_mime change) bs of
             Inl _ \<Rightarrow> ([], d)
           | Inr clip \<Rightarrow>
               (case should_broadcast (sh_last_hash d) (clip.hash clip) of
                  (False, _) \<Rightarrow> ([], d)
                | (True, h) \<Rightarrow>
                    (map (\<lambda>(_, conn). SendsClip conn clip) (sh_connected_devices d), d\<lparr>sh_last_hash := h\<rparr>)))))"

definition handle_received :: "device_id \<Rightarrow> clip \<Rightarrow> daemon \<Rightarrow> daemon_output list \<times> daemon" where
  "handle_received sender clip d =
     (if \<not> is_paired (sh_trust d) sender then ([], d)
      else if clip.mime clip \<noteq> mime_text_plain then ([], d)
      else (case should_broadcast (sh_last_hash d) (clip.hash clip) of
        (False, _) \<Rightarrow> ([], d)
      | (True, h) \<Rightarrow>
          ((if sh_backend d then [WritesClipboard (clip.mime clip) (clip.content clip)] else []) @
             map (\<lambda>(_, conn). SendsClip conn clip) (filter (\<lambda>(i, _). i \<noteq> sender) (sh_connected_devices d)),
           d\<lparr>sh_last_hash := h\<rparr>)))"

end
