(* ===== verification/Orchestrator.thy ===== *)
theory Orchestrator
  imports Dbus Clip_Relay
begin

text \<open>
  \<open>crates/daemon/src/orchestrator.rs\<close>: the one task that takes the listener's events. Handling a
  handshake of a new device stops at the wait for a human; while it does, no other event is
  taken.
\<close>

definition ensure_device_object :: "device_id \<Rightarrow> string \<Rightarrow> daemon \<Rightarrow> daemon" where
  "ensure_device_object i name d =
     (case dm_objects d (device_path i) of
        Some _ \<Rightarrow> d
      | None \<Rightarrow>
          d\<lparr>dm_objects := (dm_objects d)(device_path i \<mapsto>
              \<lparr>d1_name = name, d1_device_id = to_hex i, d1_connected = False\<rparr>)\<rparr>)"

definition mark_connected :: "socket_addr \<Rightarrow> device_id \<Rightarrow> string \<Rightarrow> daemon \<Rightarrow> daemon_output list \<times> daemon" where
  "mark_connected remote i name d =
     (case set_connected i True (ensure_device_object i name d) of
        (out, d1) \<Rightarrow>
          (case sh_remote_handles d1 remote of
             None \<Rightarrow> (out, d1)
           | Some conn \<Rightarrow>
               (out, d1\<lparr>sh_connected_devices := AList.update i conn (sh_connected_devices d1)\<rparr>)))"

text \<open>\<open>handle_handshake\<close> up to the wait.\<close>

definition redeem_current :: "token_bytes \<Rightarrow> instant \<Rightarrow> daemon \<Rightarrow> bool \<times> daemon" where
  "redeem_current presented now d =
     (case sh_current_token d of
        None \<Rightarrow> (False, d)
      | Some t \<Rightarrow>
          (case redeem t presented now of (r, t') \<Rightarrow> (r = Inr (), d\<lparr>sh_current_token := Some t'\<rparr>)))"

definition handle_handshake ::
  "socket_addr \<Rightarrow> device_id \<Rightarrow> string \<Rightarrow> token_bytes option \<Rightarrow> instant \<Rightarrow> daemon \<Rightarrow> daemon_output list \<times> daemon" where
  "handle_handshake remote i name tok now d =
     (if is_paired (sh_trust d) i then mark_connected remote i name d
      else (case tok of
        None \<Rightarrow> ([], d)
      | Some presented \<Rightarrow>
          (case redeem_current presented now d of
             (False, d1) \<Rightarrow> ([], d1)
           | (True, d1) \<Rightarrow>
               ([TokenRedeemed i presented now, PairingRequested (to_hex i) (short_fingerprint i) name],
                await_confirmation remote i name now d1))))"

text \<open>\<open>handle_handshake\<close> after the wait.\<close>

definition finish_pairing :: "'u env \<Rightarrow> fate list \<Rightarrow> confirmation \<Rightarrow> daemon \<Rightarrow> daemon_output list \<times> daemon" where
  "finish_pairing env fates c d =
     (let i = cf_device c;
          d1 = d\<lparr>sh_trust := close_pairing_window (pin (sh_trust d) i),
                 sh_state := upsert (sh_state d) i (cf_name c)\<rparr> in
      case persist_state env fates d1 of
        (out, d2) \<Rightarrow>
          if \<not> dm_alive d2 then (DevicePinned i (cf_name c) # out, d2)
          else (case mark_connected (cf_remote c) i (cf_name c) d2 of
            (out', d3) \<Rightarrow> (DevicePinned i (cf_name c) # out @ out', d3)))"

definition confirmation_turn :: "'u env \<Rightarrow> fate list \<Rightarrow> instant \<Rightarrow> daemon \<Rightarrow> daemon_output list \<times> daemon" where
  "confirmation_turn env fates now d =
     (case dm_confirming d of
        None \<Rightarrow> ([], d)
      | Some c \<Rightarrow>
          (case confirmation_result c now of
             None \<Rightarrow> ([], d)
           | Some accepted \<Rightarrow>
               (let d1 = d\<lparr>dm_confirming := None\<rparr> in
                if \<not> accepted then ([PairingDeclined (cf_device c)], d1)
                else finish_pairing env fates c d1)))"

definition handle_closed :: "socket_addr \<Rightarrow> daemon \<Rightarrow> daemon_output list \<times> daemon" where
  "handle_closed remote d =
     (let d1 = d\<lparr>sh_remote_handles := (sh_remote_handles d)(remote := None),
                 sh_remote_to_device := (sh_remote_to_device d)(remote := None)\<rparr> in
      case sh_remote_to_device d remote of
        None \<Rightarrow> ([], d1)
      | Some i \<Rightarrow>
          set_connected i False (d1\<lparr>sh_connected_devices := AList.delete i (sh_connected_devices d1)\<rparr>))"

definition close_reason_label :: "close_reason \<Rightarrow> string" where
  "close_reason_label reason =
     (case reason of
        CloseVersionMismatch _ _ \<Rightarrow> ''version-mismatch''
      | CloseKeepaliveTimedOut \<Rightarrow> ''keepalive-timed-out''
      | ConnectionLost _ \<Rightarrow> ''connection-lost''
      | CloseFramingError _ \<Rightarrow> ''framing-error'')"

definition handle_session_event ::
  "socket_addr \<Rightarrow> session_event \<Rightarrow> instant \<Rightarrow> daemon \<Rightarrow> daemon_output list \<times> daemon" where
  "handle_session_event remote event now d =
     (case event of
        EvPeerHandshake i name caps tok \<Rightarrow>
          handle_handshake remote i name tok now
            (d\<lparr>sh_remote_to_device := (sh_remote_to_device d)(remote \<mapsto> i)\<rparr>)
      | EvPonged rtt \<Rightarrow> ([], d)
      | EvClipboardReceived clip \<Rightarrow>
          (case sh_remote_to_device d remote of
             Some sender \<Rightarrow> handle_received sender clip d
           | None \<Rightarrow> ([], d))
      | EvClosed reason \<Rightarrow> handle_closed remote d)"

text \<open>One turn of \<open>run\<close>: the next event, unless the task is waiting inside the last one.\<close>

definition orchestrator_turn :: "instant \<Rightarrow> daemon \<Rightarrow> daemon_output list \<times> daemon" where
  "orchestrator_turn now d =
     (if dm_confirming d \<noteq> None then ([], d)
      else (case dm_queue d of
        [] \<Rightarrow> ([], d)
      | LConnected remote conn # q \<Rightarrow>
          ([], d\<lparr>dm_queue := q, sh_remote_handles := (sh_remote_handles d)(remote \<mapsto> conn)\<rparr>)
      | LSession remote event # q \<Rightarrow> handle_session_event remote event now (d\<lparr>dm_queue := q\<rparr>)))"

end
