(* ===== verification/Daemon.thy ===== *)
theory Daemon
  imports Orchestrator Config
begin

text \<open>
  The daemon as a whole: start-up (\<open>crates/daemon/src/main.rs\<close>), the interleaving of its tasks,
  and what holds of every such run.
\<close>

section \<open>Start-up\<close>

definition restore_object ::
  "persisted_device \<Rightarrow> (string \<Rightarrow> device1 option) \<Rightarrow> string \<Rightarrow> device1 option" where
  "restore_object p objs =
     (case from_hex (pd_device_id p) of
        None \<Rightarrow> objs
      | Some i \<Rightarrow>
          if objs (device_path i) \<noteq> None then objs
          else objs(device_path i \<mapsto>
            \<lparr>d1_name = pd_name p, d1_device_id = pd_device_id p, d1_connected = False\<rparr>))"

definition boot ::
  "(string \<Rightarrow> string + persisted_state) \<Rightarrow> device_id \<Rightarrow> string \<Rightarrow> socket_addr \<Rightarrow> path \<Rightarrow> bool \<Rightarrow> fs \<Rightarrow> daemon" where
  "boot from_str ident name bound_addr data_dir backend fs =
     (let state_path = join data_dir ''devices.json'';
          state = load from_str fs state_path in
      \<lparr>sh_device_id = ident, sh_name = name, sh_listen_addr = bound_addr,
       sh_trust = trust_new (device_ids state), sh_state_path = state_path, sh_state = state,
       sh_current_token = None, sh_pending_confirmations = (\<lambda>_. None), sh_remote_to_device = (\<lambda>_. None),
       sh_remote_handles = (\<lambda>_. None), sh_connected_devices = [], sh_backend = backend, sh_last_hash = None,
       dm_objects = fold restore_object (devices state) (\<lambda>_. None),
       dm_fs = fs, dm_queue = [], dm_confirming = None, dm_next_channel = 0, dm_alive = True\<rparr>)"

section \<open>The tasks\<close>

text \<open>
  What happens next: an event reaches the listener's channel, the orchestrator gets its turn (for
  a new event or to look after the wait it is in), a D-Bus method is called, the local
  clipboard changes.
\<close>

datatype daemon_input =
    NetEvent listener_event
  | OrchestratorTurn instant
  | ConfirmationTurn instant "fate list"
  | StartPairing route_lookup token_bytes instant
  | ConfirmPairing string bool
  | UnpairCall string "fate list"
  | ClipboardChanged clip_changed "clipboard_error + u8 list"

definition daemon_step ::
  "'u env \<Rightarrow> daemon \<Rightarrow> daemon_input \<Rightarrow> (daemon_output list \<times> daemon) option" where
  "daemon_step env d i =
     (if \<not> dm_alive d then Some ([], d)
      else case i of
        NetEvent ev \<Rightarrow> Some ([], d\<lparr>dm_queue := dm_queue d @ [ev]\<rparr>)
      | OrchestratorTurn now \<Rightarrow> Some (orchestrator_turn now d)
      | ConfirmationTurn now fates \<Rightarrow> Some (confirmation_turn env fates now d)
      | StartPairing os random now \<Rightarrow> start_pairing env os random now d
      | ConfirmPairing hex accept \<Rightarrow> Some (confirm_pairing hex accept d)
      | UnpairCall hex fates \<Rightarrow> Some (dbus_unpair env fates hex d)
      | ClipboardChanged change r \<Rightarrow> Some (watch_and_broadcast env change r d))"

text \<open>
  A device id is an array of 32 bytes in the source, so an event that carries another number of
  bytes does not exist. A run takes well-typed inputs only.
\<close>

fun event_ok :: "listener_event \<Rightarrow> bool" where
  "event_ok (LSession r (EvPeerHandshake i name caps tok)) = device_id_ok i"
| "event_ok _ = True"

fun input_ok :: "daemon_input \<Rightarrow> bool" where
  "input_ok (NetEvent ev) = event_ok ev"
| "input_ok _ = True"

definition typed_step ::
  "'u env \<Rightarrow> daemon \<Rightarrow> daemon_input \<Rightarrow> (daemon_output list \<times> daemon) option" where
  "typed_step env d i = (if input_ok i then daemon_step env d i else None)"

abbreviation run_daemon ::
  "'u env \<Rightarrow> daemon \<Rightarrow> daemon_input list \<Rightarrow> (daemon_output list \<times> daemon) option" where
  "run_daemon env \<equiv> run_steps (typed_step env)"

declare typed_step_def [run_defs] daemon_step_def [run_defs] orchestrator_turn_def [run_defs]
  handle_session_event_def [run_defs] handle_handshake_def [run_defs] redeem_current_def [run_defs]
  redeem_def [run_defs] is_expired_def [run_defs] issue_def [run_defs] duration_since_def [run_defs]
  token_ttl_def [run_defs] await_confirmation_def [run_defs] confirm_pairing_def [run_defs]
  confirmation_turn_def [run_defs] confirmation_result_def [run_defs] finish_pairing_def [run_defs]
  persist_state_def [run_defs] mark_connected_def [run_defs] ensure_device_object_def [run_defs]
  set_connected_def [run_defs]

text \<open>What a step was, by the task that took it; a daemon that is down takes none.\<close>

lemma typed_stepE:
  assumes "typed_step env d i = Some (out, d')"
  obtains (dead) "\<not> dm_alive d" "out = []" "d' = d"
    | (net) ev where "dm_alive d" "i = NetEvent ev" "event_ok ev" "out = []" "d' = d\<lparr>dm_queue := dm_queue d @ [ev]\<rparr>"
    | (orchestrator) now where "dm_alive d" "i = OrchestratorTurn now" "orchestrator_turn now d = (out, d')"
    | (confirmation) now fates where "dm_alive d" "i = ConfirmationTurn now fates"
        "confirmation_turn env fates now d = (out, d')"
    | (start) os random now where "dm_alive d" "i = StartPairing os random now"
        "start_pairing env os random now d = Some (out, d')"
    | (answer) hex accept where "dm_alive d" "i = ConfirmPairing hex accept" "confirm_pairing hex accept d = (out, d')"
    | (revoke) hex fates where "dm_alive d" "i = UnpairCall hex fates" "dbus_unpair env fates hex d = (out, d')"
    | (change) c r where "dm_alive d" "i = ClipboardChanged c r" "watch_and_broadcast env c r d = (out, d')"
  using assms by (cases i) (auto simp: typed_step_def daemon_step_def split: if_splits)

section \<open>The invariant\<close>

text \<open>
  The trust store and the state file's contents name the same devices; every id in flight is
  well-formed; the channel the orchestrator waits on is registered for the device it is about,
  or not at all any more once it has been answered.
\<close>

definition pins_agree :: "daemon \<Rightarrow> bool" where
  "pins_agree d \<longleftrightarrow> canonical (sh_state d) \<and> paired (sh_trust d) = known (sh_state d)"

definition channels_ok :: "daemon \<Rightarrow> bool" where
  "channels_ok d \<longleftrightarrow>
     (\<forall>i ch. sh_pending_confirmations d i = Some ch \<longrightarrow> ch < dm_next_channel d) \<and>
     (\<forall>c. dm_confirming d = Some c \<longrightarrow>
        cf_channel c < dm_next_channel d \<and> device_id_ok (cf_device c) \<and> cf_device c \<notin> paired (sh_trust d) \<and>
        (\<forall>i. sh_pending_confirmations d i = Some (cf_channel c) \<longrightarrow> i = cf_device c \<and> cf_answer c = None))"

definition daemon_inv :: "daemon \<Rightarrow> bool" where
  "daemon_inv d \<longleftrightarrow> pins_agree d \<and> channels_ok d \<and> (\<forall>ev \<in> set (dm_queue d). event_ok ev)"

lemma daemon_invD:
  assumes "daemon_inv d"
  shows "canonical (sh_state d)" and "paired (sh_trust d) = known (sh_state d)"
    and "ev \<in> set (dm_queue d) \<Longrightarrow> event_ok ev"
  using assms by (auto simp: daemon_inv_def pins_agree_def)

text \<open>The part of the state the invariant reads; steps that keep it keep the invariant.\<close>

definition core where
  "core d = (sh_trust d, sh_state d, sh_pending_confirmations d, dm_confirming d, dm_next_channel d)"

lemma daemon_inv_core:
  "core d' = core d \<Longrightarrow> set (dm_queue d') \<subseteq> set (dm_queue d) \<Longrightarrow> daemon_inv d \<Longrightarrow> daemon_inv d'"
  by (auto simp: core_def daemon_inv_def pins_agree_def channels_ok_def)

lemma set_connected_frame:
  "set_connected i b d = (out, d') \<Longrightarrow>
     core d' = core d \<and> dm_queue d' = dm_queue d \<and> sh_current_token d' = sh_current_token d \<and>
     dm_fs d' = dm_fs d \<and> sh_state_path d' = sh_state_path d \<and> dm_alive d' = dm_alive d \<and>
     sh_remote_handles d' = sh_remote_handles d \<and> sh_connected_devices d' = sh_connected_devices d \<and>
     (\<forall>o' \<in> set out. \<exists>p c. o' = ConnectedChanged p c)"
  by (auto simp: set_connected_def core_def split: option.splits if_splits)

lemma ensure_device_object_frame:
  "core (ensure_device_object i n d) = core d \<and> dm_queue (ensure_device_object i n d) = dm_queue d \<and>
   sh_current_token (ensure_device_object i n d) = sh_current_token d \<and>
   dm_fs (ensure_device_object i n d) = dm_fs d \<and> sh_state_path (ensure_device_object i n d) = sh_state_path d \<and>
   dm_alive (ensure_device_object i n d) = dm_alive d \<and>
   sh_remote_handles (ensure_device_object i n d) = sh_remote_handles d \<and>
   sh_connected_devices (ensure_device_object i n d) = sh_connected_devices d"
  by (simp add: ensure_device_object_def core_def split: option.split)

lemma mark_connected_frame:
  "mark_connected r i n d = (out, d') \<Longrightarrow>
     core d' = core d \<and> dm_queue d' = dm_queue d \<and> sh_current_token d' = sh_current_token d \<and>
     dm_fs d' = dm_fs d \<and> sh_state_path d' = sh_state_path d \<and> dm_alive d' = dm_alive d \<and>
     (\<forall>o' \<in> set out. \<exists>p c. o' = ConnectedChanged p c)"
  using ensure_device_object_frame [of i n d]
  by (auto simp: mark_connected_def core_def split: prod.splits option.splits dest!: set_connected_frame)

lemma redeem_current_cases:
  assumes "redeem_current p now d = (ok, d')"
  obtains (no_token) "\<not> ok" "sh_current_token d = None" "d' = d"
    | (refused) t where "\<not> ok" "sh_current_token d = Some t" "d' = d\<lparr>sh_current_token := Some t\<rparr>"
    | (redeemed) t where "ok" "sh_current_token d = Some t" "token_view t = Some (p, issued_at t)"
        "now - issued_at t < from_secs 60" "d' = d\<lparr>sh_current_token := Some (t\<lparr>redeemed := True\<rparr>)\<rparr>"
proof (cases "sh_current_token d")
  case None
  with assms show thesis by (intro no_token) (auto simp: redeem_current_def)
next
  case (Some t)
  obtain r t' where r: "redeem t p now = (r, t')"
    by (metis surj_pair)
  show thesis
  proof (cases r)
    case (Inl e)
    then have "t' = t"
      using redeem_Inl_same r by simp
    with Inl r Some assms show thesis
      by (intro refused) (auto simp: redeem_current_def)
  next
    case (Inr u)
    then have "redeem t p now = (Inr u, t')"
      using r by simp
    then have "\<not> redeemed t \<and> duration_since now (issued_at t) < token_ttl \<and> p = bytes t \<and> t' = t\<lparr>redeemed := True\<rparr>"
      by (rule redeem_Inr_iff [THEN iffD1])
    with Inr r Some assms show thesis
      by (intro redeemed) (auto simp: redeem_current_def token_view_def duration_since_def token_ttl_def)
  qed
qed

lemma persist_state_frame:
  "persist_state env fates d = (out, d') \<Longrightarrow>
     core d' = core d \<and> dm_queue d' = dm_queue d \<and> sh_current_token d' = sh_current_token d \<and>
     sh_state_path d' = sh_state_path d \<and> sh_remote_handles d' = sh_remote_handles d \<and>
     sh_connected_devices d' = sh_connected_devices d \<and>
     (\<forall>o' \<in> set out. \<exists>b. o' = StateSaved b)"
  by (auto simp: persist_state_def core_def split: outcome.splits prod.splits)

section \<open>The abstract pairing protocol\<close>

text \<open>
  What pairing promises: a live token is used up by one peer, which is then waited for; the
  answer to that wait comes at most once; a device is pinned only on a positive answer, and
  unpinning is free. Everything else the daemon puts out is neutral.
\<close>

record pairing_view =
  pv_token :: "(token_bytes \<times> instant) option"
  pv_waiting :: "(device_id \<times> bool option) option"
  pv_pinned :: "device_id set"

fun pairing_spec :: "pairing_view \<Rightarrow> daemon_output \<Rightarrow> pairing_view option" where
  "pairing_spec v (TokenIssued r t) = Some (v\<lparr>pv_token := Some (r, t)\<rparr>)"
| "pairing_spec v (TokenRedeemed i r now) =
     (case pv_token v of
        None \<Rightarrow> None
      | Some (r', t) \<Rightarrow>
          if r = r' \<and> now - t < from_secs 60 \<and> pv_waiting v = None \<and> i \<notin> pv_pinned v
          then Some (v\<lparr>pv_token := None, pv_waiting := Some (i, None)\<rparr>) else None)"
| "pairing_spec v (Answered i b) =
     (if pv_waiting v = Some (i, None) then Some (v\<lparr>pv_waiting := Some (i, Some b)\<rparr>) else None)"
| "pairing_spec v (PairingDeclined i) =
     (if pv_waiting v = Some (i, None) \<or> pv_waiting v = Some (i, Some False)
      then Some (v\<lparr>pv_waiting := None\<rparr>) else None)"
| "pairing_spec v (DevicePinned i n) =
     (if pv_waiting v = Some (i, Some True)
      then Some (v\<lparr>pv_waiting := None, pv_pinned := insert i (pv_pinned v)\<rparr>) else None)"
| "pairing_spec v (DeviceUnpinned i) = Some (v\<lparr>pv_pinned := pv_pinned v - {i}\<rparr>)"
| "pairing_spec v (QrReply _ _) = Some v"
| "pairing_spec v (PairingRequested _ _ _) = Some v"
| "pairing_spec v (StateSaved _) = Some v"
| "pairing_spec v (ConnectedChanged _ _) = Some v"
| "pairing_spec v (SendsClip _ _) = Some v"
| "pairing_spec v (WritesClipboard _ _) = Some v"
| "pairing_spec v InvalidArgs = Some v"

definition pairing_abs :: "daemon \<Rightarrow> pairing_view" where
  "pairing_abs d =
     \<lparr>pv_token = (case sh_current_token d of None \<Rightarrow> None | Some t \<Rightarrow> token_view t),
      pv_waiting = map_option (\<lambda>c. (cf_device c, cf_answer c)) (dm_confirming d),
      pv_pinned = paired (sh_trust d)\<rparr>"

definition neutral :: "daemon_output \<Rightarrow> bool" where
  "neutral o' \<longleftrightarrow> (\<forall>v. pairing_spec v o' = Some v)"

lemma neutral_simps [simp]:
  "neutral (QrReply u f)" "neutral (PairingRequested h f n)" "neutral (StateSaved b)" "neutral (ConnectedChanged p c)"
  "neutral (SendsClip conn clip)" "neutral (WritesClipboard m bs)" "neutral InvalidArgs"
  by (simp_all add: neutral_def)

lemma spec_run_neutral: "\<forall>o' \<in> set out. neutral o' \<Longrightarrow> spec_run pairing_spec v out = Some v"
  by (induction out) (simp_all add: neutral_def)

text \<open>What each handler is shown to do: keep the invariant and follow the protocol.\<close>

definition good_step :: "daemon \<Rightarrow> daemon_output list \<Rightarrow> daemon \<Rightarrow> bool" where
  "good_step d out d' \<longleftrightarrow> daemon_inv d' \<and> spec_run pairing_spec (pairing_abs d) out = Some (pairing_abs d')"

lemma good_step_neutral:
  assumes "daemon_inv d" and "core d' = core d" and "sh_current_token d' = sh_current_token d"
    and "set (dm_queue d') \<subseteq> set (dm_queue d)" and "\<forall>o' \<in> set out. neutral o'"
  shows "good_step d out d'"
  using assms daemon_inv_core [of d' d]
  by (simp add: good_step_def spec_run_neutral pairing_abs_def core_def)

lemma mark_connected_good:
  "mark_connected r i n d = (out, d') \<Longrightarrow> daemon_inv d \<Longrightarrow> good_step d out d'"
  by (rule good_step_neutral) (auto dest!: mark_connected_frame)

lemma good_step_trans:
  "good_step d xs d1 \<Longrightarrow> good_step d1 ys d2 \<Longrightarrow> good_step d (xs @ ys) d2"
  by (simp add: good_step_def spec_run_append)

lemma await_confirmation_good:
  assumes "daemon_inv d" and "device_id_ok i" and "i \<notin> paired (sh_trust d)" and "dm_confirming d = None"
    and "sh_current_token d = Some t" and "token_view t = Some (p, issued_at t)" and "now - issued_at t < from_secs 60"
  shows "good_step d [TokenRedeemed i p now, PairingRequested h f name]
    (await_confirmation r i name now (d\<lparr>sh_current_token := Some (t\<lparr>redeemed := True\<rparr>)\<rparr>))"
proof -
  have "channels_ok (await_confirmation r i name now (d\<lparr>sh_current_token := Some (t\<lparr>redeemed := True\<rparr>)\<rparr>))"
    using assms(1-3) by (auto simp: daemon_inv_def channels_ok_def await_confirmation_def Let_def less_Suc_eq dest!: spec)
  then have "daemon_inv (await_confirmation r i name now (d\<lparr>sh_current_token := Some (t\<lparr>redeemed := True\<rparr>)\<rparr>))"
    using assms(1) by (simp add: daemon_inv_def pins_agree_def await_confirmation_def Let_def)
  then show ?thesis
    using assms(3-7) by (simp add: good_step_def pairing_abs_def await_confirmation_def Let_def token_view_def)
qed

lemma handle_handshake_good:
  assumes "handle_handshake r i name tok now d = (out, d')" and "daemon_inv d" and "device_id_ok i"
    and "dm_confirming d = None"
  shows "good_step d out d'"
proof (cases "is_paired (sh_trust d) i")
  case True
  then have "mark_connected r i name d = (out, d')"
    using assms(1) by (simp add: handle_handshake_def)
  then show ?thesis
    using assms(2) by (rule mark_connected_good)
next
  case False
  show ?thesis
  proof (cases tok)
    case None
    then have "out = []" and "d' = d"
      using assms(1) False by (simp_all add: handle_handshake_def)
    then show ?thesis
      using assms(2) by (simp add: good_step_def)
  next
    case (Some p)
    obtain ok d1 where red: "redeem_current p now d = (ok, d1)"
      by (metis surj_pair)
    from red show ?thesis
    proof (cases rule: redeem_current_cases)
      case no_token
      then have "out = []" and "d' = d"
        using assms(1) False Some red by (simp_all add: handle_handshake_def)
      then show ?thesis
        using assms(2) by (simp add: good_step_def)
    next
      case (refused t)
      then have "out = []" and "d' = d\<lparr>sh_current_token := Some t\<rparr>"
        using assms(1) False Some red by (simp_all add: handle_handshake_def)
      then show ?thesis
        using assms(2) refused(2) by (intro good_step_neutral) (simp_all add: core_def)
    next
      case (redeemed t)
      then have "out = [TokenRedeemed i p now, PairingRequested (to_hex i) (short_fingerprint i) name]"
        and "d' = await_confirmation r i name now (d\<lparr>sh_current_token := Some (t\<lparr>redeemed := True\<rparr>)\<rparr>)"
        using assms(1) False Some red by (simp_all add: handle_handshake_def)
      then show ?thesis
        using await_confirmation_good [OF assms(2,3) _ assms(4) redeemed(2,3,4)] False by (simp add: is_paired_def)
    qed
  qed
qed

lemma handle_received_frame:
  "handle_received s clip d = (out, d') \<Longrightarrow>
     core d' = core d \<and> dm_queue d' = dm_queue d \<and> sh_current_token d' = sh_current_token d \<and>
     sh_connected_devices d' = sh_connected_devices d \<and> dm_fs d' = dm_fs d \<and> sh_state_path d' = sh_state_path d \<and>
     dm_alive d' = dm_alive d \<and>
     (\<forall>o' \<in> set out. (\<exists>h c. o' = SendsClip h c) \<or> (\<exists>m bs. o' = WritesClipboard m bs))"
  by (auto simp: handle_received_def core_def split: if_splits prod.splits bool.splits)

lemma watch_frame:
  "watch_and_broadcast env ch r d = (out, d') \<Longrightarrow>
     core d' = core d \<and> dm_queue d' = dm_queue d \<and> sh_current_token d' = sh_current_token d \<and>
     sh_connected_devices d' = sh_connected_devices d \<and> dm_fs d' = dm_fs d \<and> sh_state_path d' = sh_state_path d \<and>
     dm_alive d' = dm_alive d \<and> (\<forall>o' \<in> set out. \<exists>h c. o' = SendsClip h c)"
  by (auto simp: watch_and_broadcast_def core_def split: if_splits prod.splits bool.splits sum.splits)

lemma handle_closed_frame:
  "handle_closed r d = (out, d') \<Longrightarrow>
     core d' = core d \<and> dm_queue d' = dm_queue d \<and> sh_current_token d' = sh_current_token d \<and>
     dm_fs d' = dm_fs d \<and> sh_state_path d' = sh_state_path d \<and> dm_alive d' = dm_alive d \<and>
     (\<forall>o' \<in> set out. \<exists>p c. o' = ConnectedChanged p c)"
  by (auto simp: handle_closed_def Let_def core_def split: option.splits dest!: set_connected_frame)

lemma handle_session_event_good:
  assumes "handle_session_event r ev now d = (out, d')" and "daemon_inv d" and "event_ok (LSession r ev)"
    and "dm_confirming d = None"
  shows "good_step d out d'"
proof (cases ev)
  case (EvPeerHandshake i name caps tok)
  let ?d1 = "d\<lparr>sh_remote_to_device := (sh_remote_to_device d)(r \<mapsto> i)\<rparr>"
  have "good_step d [] ?d1"
    using assms(2) by (intro good_step_neutral) (simp_all add: core_def)
  moreover have "good_step ?d1 out d'"
    using assms EvPeerHandshake daemon_inv_core [of ?d1 d]
    by (intro handle_handshake_good [of r i name tok now]) (simp_all add: handle_session_event_def core_def)
  ultimately show ?thesis
    using good_step_trans by fastforce
next
  case (EvPonged rtt)
  then show ?thesis
    using assms by (auto simp: handle_session_event_def intro!: good_step_neutral)
next
  case (EvClipboardReceived clip)
  show ?thesis
  proof (cases "sh_remote_to_device d r")
    case None
    then show ?thesis
      using assms EvClipboardReceived by (auto simp: handle_session_event_def intro!: good_step_neutral)
  next
    case (Some s)
    then have "handle_received s clip d = (out, d')"
      using assms(1) EvClipboardReceived by (simp add: handle_session_event_def)
    then show ?thesis
      using assms(2) by (intro good_step_neutral) (auto dest!: handle_received_frame)
  qed
next
  case (EvClosed reason)
  then have "handle_closed r d = (out, d')"
    using assms(1) by (simp add: handle_session_event_def)
  then show ?thesis
    using assms(2) by (intro good_step_neutral) (auto dest!: handle_closed_frame)
qed

lemma orchestrator_turn_good:
  assumes "orchestrator_turn now d = (out, d')" and "daemon_inv d"
  shows "good_step d out d'"
proof (cases "dm_confirming d")
  case (Some c)
  then show ?thesis
    using assms by (auto simp: orchestrator_turn_def intro!: good_step_neutral)
next
  case None
  show ?thesis
  proof (cases "dm_queue d")
    case Nil
    then show ?thesis
      using assms None by (auto simp: orchestrator_turn_def intro!: good_step_neutral)
  next
    case (Cons ev q)
    have ok: "event_ok ev"
      using daemon_invD(3) [OF assms(2)] Cons by simp
    show ?thesis
    proof (cases ev)
      case (LConnected r conn)
      then show ?thesis
        using assms None Cons by (auto simp: orchestrator_turn_def core_def intro!: good_step_neutral)
    next
      case (LSession r sev)
      let ?d1 = "d\<lparr>dm_queue := q\<rparr>"
      have "good_step d [] ?d1"
        using assms(2) Cons by (intro good_step_neutral) (auto simp: core_def)
      moreover have "good_step ?d1 out d'"
      proof (rule handle_session_event_good)
        show "handle_session_event r sev now ?d1 = (out, d')"
          using assms(1) None Cons LSession by (simp add: orchestrator_turn_def)
        show "daemon_inv ?d1"
          using calculation by (simp add: good_step_def)
        show "event_ok (LSession r sev)" "dm_confirming ?d1 = None"
          using ok LSession None by simp_all
      qed
      ultimately show ?thesis
        using good_step_trans by fastforce
    qed
  qed
qed

lemma finish_pairing_good:
  assumes "finish_pairing env fates c (d\<lparr>dm_confirming := None\<rparr>) = (out, d')" and "daemon_inv d"
    and "dm_confirming d = Some c" and "cf_answer c = Some True"
  shows "good_step d out d'"
proof -
  let ?i = "cf_device c"
  define d1 where "d1 = d\<lparr>dm_confirming := None, sh_trust := close_pairing_window (pin (sh_trust d) ?i),
    sh_state := upsert (sh_state d) ?i (cf_name c)\<rparr>"
  obtain out2 d2 where p: "persist_state env fates d1 = (out2, d2)"
    by (metis surj_pair)
  have i: "device_id_ok ?i"
    using assms(2,3) by (simp add: daemon_inv_def channels_ok_def)
  then have "pins_agree d1"
    using assms(2) by (simp add: d1_def daemon_inv_def pins_agree_def close_pairing_window_def pin_def
        canonical_upsert state.elems_add)
  moreover have "channels_ok d1"
    using assms(2) by (simp add: d1_def daemon_inv_def channels_ok_def)
  ultimately have "daemon_inv d1"
    using assms(2) by (simp add: d1_def daemon_inv_def)
  then have d1: "good_step d [DevicePinned ?i (cf_name c)] d1"
    using assms(3,4) by (simp add: good_step_def pairing_abs_def d1_def close_pairing_window_def pin_def)
  moreover have d2: "good_step d1 out2 d2"
    using \<open>daemon_inv d1\<close> p by (intro good_step_neutral) (auto dest!: persist_state_frame)
  ultimately have both: "good_step d (DevicePinned ?i (cf_name c) # out2) d2"
    using good_step_trans [of d "[DevicePinned ?i (cf_name c)]" d1 out2 d2] by simp
  show ?thesis
  proof (cases "dm_alive d2")
    case False
    then have "out = DevicePinned ?i (cf_name c) # out2" and "d' = d2"
      using assms(1) p by (simp_all add: finish_pairing_def Let_def d1_def)
    with both show ?thesis by simp
  next
    case True
    obtain out3 d3 where m: "mark_connected (cf_remote c) ?i (cf_name c) d2 = (out3, d3)"
      by (metis surj_pair)
    then have "out = (DevicePinned ?i (cf_name c) # out2) @ out3" and "d' = d3"
      using assms(1) p True by (simp_all add: finish_pairing_def Let_def d1_def)
    moreover have "good_step d2 out3 d3"
      using m both by (intro mark_connected_good) (simp_all add: good_step_def)
    ultimately show ?thesis
      using good_step_trans [OF both] by simp
  qed
qed

lemma confirmation_turn_good:
  assumes "confirmation_turn env fates now d = (out, d')" and "daemon_inv d"
  shows "good_step d out d'"
proof (cases "dm_confirming d")
  case None
  then show ?thesis
    using assms by (auto simp: confirmation_turn_def intro!: good_step_neutral)
next
  case (Some c)
  show ?thesis
  proof (cases "confirmation_result c now")
    case None
    then show ?thesis
      using assms Some by (auto simp: confirmation_turn_def intro!: good_step_neutral)
  next
    case res: (Some accepted)
    show ?thesis
    proof (cases accepted)
      case True
      then have "finish_pairing env fates c (d\<lparr>dm_confirming := None\<rparr>) = (out, d')"
        using assms(1) Some res by (simp add: confirmation_turn_def)
      moreover have "cf_answer c = Some True"
        using res True by (auto simp: confirmation_result_def split: option.splits if_splits)
      ultimately show ?thesis
        using finish_pairing_good assms(2) Some by blast
    next
      case False
      then have "out = [PairingDeclined (cf_device c)]" and "d' = d\<lparr>dm_confirming := None\<rparr>"
        using assms(1) Some res by (simp_all add: confirmation_turn_def)
      moreover have "cf_answer c = None \<or> cf_answer c = Some False"
        using res False by (auto simp: confirmation_result_def split: option.splits if_splits)
      ultimately show ?thesis
        using assms(2) Some by (auto simp: good_step_def pairing_abs_def daemon_inv_def pins_agree_def channels_ok_def)
    qed
  qed
qed

lemma start_pairing_good:
  assumes "start_pairing env os random now d = Some (out, d')" and "daemon_inv d"
  shows "good_step d out d'"
  using assms
  by (auto simp: start_pairing_def Let_def good_step_def pairing_abs_def daemon_inv_def pins_agree_def
      channels_ok_def open_pairing_window_def issue_def token_view_def split: option.splits)

lemma confirm_pairing_good:
  assumes "confirm_pairing hex accept d = (out, d')" and "daemon_inv d"
  shows "good_step d out d'"
proof (cases "\<exists>i ch c. from_hex hex = Some i \<and> sh_pending_confirmations d i = Some ch \<and>
    dm_confirming d = Some c \<and> cf_channel c = ch")
  case True
  then obtain i c where i: "from_hex hex = Some i" "sh_pending_confirmations d i = Some (cf_channel c)"
      "dm_confirming d = Some c"
    by blast
  then have dev: "i = cf_device c" "cf_answer c = None"
    using assms(2) by (auto simp: daemon_inv_def channels_ok_def)
  have others: "j \<noteq> i \<Longrightarrow> sh_pending_confirmations d j \<noteq> Some (cf_channel c)" for j
    using assms(2) i(3) dev(1) unfolding daemon_inv_def channels_ok_def by blast
  have "out = [Answered i accept]" and d': "d' = d\<lparr>sh_pending_confirmations := (sh_pending_confirmations d)(i := None),
      dm_confirming := Some (c\<lparr>cf_answer := Some accept\<rparr>)\<rparr>"
    using assms(1) i by (simp_all add: confirm_pairing_def)
  moreover have "daemon_inv d'"
    using assms(2) i others by (auto simp: d' daemon_inv_def pins_agree_def channels_ok_def)
  ultimately show ?thesis
    using i dev by (simp add: good_step_def pairing_abs_def)
next
  case False
  then have out: "\<forall>o' \<in> set out. neutral o'"
    using assms(1) by (auto simp: confirm_pairing_def Let_def split: option.splits if_splits)
  have "d' = d \<or> (\<exists>i. d' = d\<lparr>sh_pending_confirmations := (sh_pending_confirmations d)(i := None)\<rparr>)"
    using assms(1) False by (auto simp: confirm_pairing_def Let_def split: option.splits if_splits)
  then have "daemon_inv d'" and "pairing_abs d' = pairing_abs d"
    using assms(2) by (auto simp: daemon_inv_def pins_agree_def channels_ok_def pairing_abs_def split: if_splits)
  with out show ?thesis
    by (simp add: good_step_def spec_run_neutral)
qed

lemma from_hex_ok: "from_hex s = Some i \<Longrightarrow> device_id_ok i"
  by (simp add: device_id_ok_def from_hex_length)

lemma dbus_unpair_good:
  assumes "dbus_unpair env fates hex d = (out, d')" and "daemon_inv d"
  shows "good_step d out d'"
proof (cases "from_hex hex")
  case None
  then show ?thesis
    using assms by (auto simp: dbus_unpair_def intro!: good_step_neutral)
next
  case (Some i)
  define d1 where "d1 = d\<lparr>sh_trust := unpair (sh_trust d) i, sh_state := remove (sh_state d) i\<rparr>"
  obtain out2 d2 where p: "persist_state env fates d1 = (out2, d2)"
    by (metis surj_pair)
  have "daemon_inv d1"
    using assms(2) from_hex_ok [OF Some]
    by (auto simp: d1_def daemon_inv_def pins_agree_def channels_ok_def unpair_def canonical_remove revocable.elems_del)
  then have "good_step d [DeviceUnpinned i] d1"
    by (simp add: good_step_def pairing_abs_def d1_def unpair_def)
  moreover have "good_step d1 out2 d2"
    using \<open>daemon_inv d1\<close> p by (intro good_step_neutral) (auto dest!: persist_state_frame)
  ultimately have both: "good_step d (DeviceUnpinned i # out2) d2"
    using good_step_trans [of d "[DeviceUnpinned i]" d1 out2 d2] by simp
  have "out = DeviceUnpinned i # out2" and "core d' = core d2" and "dm_queue d' = dm_queue d2"
    and "sh_current_token d' = sh_current_token d2"
    using assms(1) p Some by (auto simp: dbus_unpair_def Let_def d1_def core_def split: if_splits)
  then show ?thesis
    using both daemon_inv_core [of d' d2] by (auto simp: good_step_def pairing_abs_def core_def)
qed

lemma typed_step_good:
  assumes "daemon_inv d" and "typed_step env d i = Some (out, d')"
  shows "good_step d out d'"
  using assms(2)
proof (cases rule: typed_stepE)
  case dead
  then show ?thesis
    using assms(1) by (simp add: good_step_def)
next
  case (net ev)
  then show ?thesis
    using assms(1) by (auto simp: good_step_def daemon_inv_def pins_agree_def channels_ok_def pairing_abs_def)
next
  case (change c r)
  then show ?thesis
    using assms(1) by (intro good_step_neutral) (auto dest!: watch_frame)
qed (use assms(1) in \<open>auto intro: orchestrator_turn_good confirmation_turn_good start_pairing_good
    confirm_pairing_good dbus_unpair_good\<close>)

section \<open>How runs go\<close>

lemma confirmation_turnE:
  assumes "confirmation_turn env fates now d = (out, d')"
  obtains (idle) "d' = d" "out = []"
    | (declined) c where "dm_confirming d = Some c" "d' = d\<lparr>dm_confirming := None\<rparr>" "out = [PairingDeclined (cf_device c)]"
    | (accepted) c where "dm_confirming d = Some c" "finish_pairing env fates c (d\<lparr>dm_confirming := None\<rparr>) = (out, d')"
proof (cases "dm_confirming d")
  case None
  with assms show thesis by (intro idle) (simp_all add: confirmation_turn_def)
next
  case (Some c)
  show thesis
  proof (cases "confirmation_result c now")
    case None
    with Some assms show thesis by (intro idle) (simp_all add: confirmation_turn_def)
  next
    case (Some b)
    with \<open>dm_confirming d = Some c\<close> assms show thesis
      by (cases b) (auto simp: confirmation_turn_def intro: declined accepted)
  qed
qed

lemma dead_stays: "typed_step env d i = Some (out, d') \<Longrightarrow> \<not> dm_alive d \<Longrightarrow> d' = d"
  by (simp add: typed_step_def daemon_step_def split: if_splits)

lemma alive_before: "run_daemon env d inputs = Some (outs, d') \<Longrightarrow> dm_alive d' \<Longrightarrow> dm_alive d"
proof (induction inputs arbitrary: d outs)
  case Nil
  then show ?case by simp
next
  case (Cons i inputs)
  from Cons.prems(1) obtain os1 d1 os2 where "typed_step env d i = Some (os1, d1)"
    and "run_daemon env d1 inputs = Some (os2, d')"
    by (rule run_steps_ConsE)
  then show ?case
    using Cons.IH Cons.prems(2) dead_stays by blast
qed

interpretation pairing: refining_machine "typed_step env" daemon_inv pairing_abs pairing_spec
  by unfold_locales (auto dest: typed_step_good simp: good_step_def)

end
