(* ===== verification/Daemon_Pairing.thy ===== *)
theory Daemon_Pairing
  imports Daemon
begin

text \<open>
  What every run of the daemon guarantees about pairing: a device is pinned only after a token
  from the screen and a human's yes, the wait for that human is bounded, and the code on the
  screen is the one that is redeemed.
\<close>

section \<open>Nobody is pinned without a token and a human\<close>

text \<open>
  The three things that must have happened, in this order, before a device is pinned: a token
  was issued, this device presented those very bytes less than sixty seconds later, and a human
  accepted this device.
\<close>

definition token_shown :: "daemon_output list \<Rightarrow> token_bytes \<Rightarrow> instant \<Rightarrow> bool" where
  "token_shown outs r t \<longleftrightarrow> (\<exists>xs ys. outs = xs @ TokenIssued r t # ys)"

definition token_presented :: "daemon_output list \<Rightarrow> device_id \<Rightarrow> bool" where
  "token_presented outs i \<longleftrightarrow>
     (\<exists>xs ys r t now. outs = xs @ TokenRedeemed i r now # ys \<and> token_shown xs r t \<and> now - t < from_secs 60)"

definition human_accepted :: "daemon_output list \<Rightarrow> device_id \<Rightarrow> bool" where
  "human_accepted outs i \<longleftrightarrow> (\<exists>xs ys. outs = xs @ Answered i True # ys \<and> token_presented xs i)"

lemma token_shown_append: "token_shown xs r t \<Longrightarrow> token_shown (xs @ ys) r t"
  by (fastforce simp: token_shown_def)

lemma token_presented_append: "token_presented xs i \<Longrightarrow> token_presented (xs @ ys) i"
  by (fastforce simp: token_presented_def)

lemma human_accepted_append: "human_accepted xs i \<Longrightarrow> human_accepted (xs @ ys) i"
  by (fastforce simp: human_accepted_def)

lemmas history_append = token_shown_append token_presented_append human_accepted_append

lemma token_shown_last: "token_shown (xs @ [TokenIssued r t]) r t"
  by (auto simp: token_shown_def)

lemma token_presented_last: "token_shown xs r t \<Longrightarrow> now - t < from_secs 60 \<Longrightarrow> token_presented (xs @ [TokenRedeemed i r now]) i"
  unfolding token_presented_def by blast

lemma human_accepted_last: "token_presented xs i \<Longrightarrow> human_accepted (xs @ [Answered i True]) i"
  by (auto simp: human_accepted_def)

text \<open>What the abstract state remembers has happened.\<close>

definition remembers :: "daemon_output list \<Rightarrow> pairing_view \<Rightarrow> bool" where
  "remembers outs v \<longleftrightarrow>
     (\<forall>r t. pv_token v = Some (r, t) \<longrightarrow> token_shown outs r t) \<and>
     (\<forall>i a. pv_waiting v = Some (i, a) \<longrightarrow> token_presented outs i \<and> (a = Some True \<longrightarrow> human_accepted outs i))"

lemma remembers_step:
  assumes "remembers outs v" and "pairing_spec v o' = Some v'"
  shows "remembers (outs @ [o']) v'"
  using assms
  by (cases o') (auto simp: remembers_def history_append token_shown_last token_presented_last human_accepted_last
      split: option.splits if_splits)

lemma spec_run_remembers:
  "spec_run pairing_spec v outs = Some v' \<Longrightarrow> remembers pre v \<Longrightarrow> remembers (pre @ outs) v'"
proof (induction outs arbitrary: v pre)
  case Nil
  then show ?case by simp
next
  case (Cons o' outs)
  then obtain v1 where v1: "pairing_spec v o' = Some v1" "spec_run pairing_spec v1 outs = Some v'"
    by (auto split: option.splits)
  have "remembers ((pre @ [o']) @ outs) v'"
    using Cons.IH [OF v1(2)] remembers_step [OF Cons.prems(2) v1(1)] by blast
  then show ?case by simp
qed

lemma spec_run_pinned:
  "spec_run pairing_spec v outs = Some v' \<Longrightarrow> pv_pinned v' \<subseteq> pv_pinned v \<union> {i. \<exists>n. DevicePinned i n \<in> set outs}"
proof (induction outs arbitrary: v)
  case Nil
  then show ?case by simp
next
  case (Cons o' outs)
  then obtain v1 where v1: "pairing_spec v o' = Some v1" "spec_run pairing_spec v1 outs = Some v'"
    by (auto split: option.splits)
  have "pv_pinned v1 \<subseteq> pv_pinned v \<union> {i. \<exists>n. DevicePinned i n = o'}"
    using v1(1) by (cases o') (auto split: option.splits if_splits)
  then show ?case
    using Cons.IH [OF v1(2)] by auto
qed

text \<open>Each issued token can pin one device at most.\<close>

definition is_issue :: "daemon_output \<Rightarrow> bool" where
  "is_issue o' = (case o' of TokenIssued _ _ \<Rightarrow> True | _ \<Rightarrow> False)"

definition is_pin :: "daemon_output \<Rightarrow> bool" where
  "is_pin o' = (case o' of DevicePinned _ _ \<Rightarrow> True | _ \<Rightarrow> False)"

definition credit :: "pairing_view \<Rightarrow> nat" where
  "credit v = (if pv_token v = None then 0 else 1) + (if pv_waiting v = None then 0 else 1)"

lemma spec_run_credit:
  "spec_run pairing_spec v outs = Some v' \<Longrightarrow>
     length (filter is_pin outs) + credit v' \<le> length (filter is_issue outs) + credit v"
proof (induction outs arbitrary: v)
  case Nil
  then show ?case by simp
next
  case (Cons o' outs)
  then obtain v1 where v1: "pairing_spec v o' = Some v1" "spec_run pairing_spec v1 outs = Some v'"
    by (auto split: option.splits)
  have "(if is_pin o' then 1 else 0) + credit v1 \<le> (if is_issue o' then 1 else 0) + credit v"
    using v1(1) by (cases o') (auto simp: is_pin_def is_issue_def credit_def split: option.splits if_splits)
  with Cons.IH [OF v1(2)] show ?case
    by (auto split: if_splits)
qed

lemma boot_inv:
  assumes "canonical (load from_str fs (join dir ''devices.json''))"
  shows "daemon_inv (boot from_str i n a dir b fs)"
  using assms
  by (simp add: boot_def Let_def daemon_inv_def pins_agree_def channels_ok_def trust_new_def known_def)

lemma pairing_abs_boot:
  "pairing_abs (boot from_str i n a dir b fs) =
     \<lparr>pv_token = None, pv_waiting = None, pv_pinned = set (device_ids (load from_str fs (join dir ''devices.json'')))\<rparr>"
  by (simp add: pairing_abs_def boot_def Let_def trust_new_def)

lemma pin_accepted:
  assumes "canonical (load from_str fs (join dir ''devices.json''))"
    and "run_daemon env (boot from_str ident name addr dir backend fs) inputs = Some (pre @ DevicePinned i n # post, d')"
  shows "human_accepted pre i"
proof -
  let ?d = "boot from_str ident name addr dir backend fs"
  have "spec_run pairing_spec (pairing_abs ?d) (pre @ DevicePinned i n # post) = Some (pairing_abs d')"
    using pairing.run_refines [OF boot_inv [OF assms(1)] assms(2)] .
  then obtain v where v: "spec_run pairing_spec (pairing_abs ?d) pre = Some v"
      "spec_run pairing_spec v (DevicePinned i n # post) = Some (pairing_abs d')"
    by (rule spec_run_appendE)
  then have "pv_waiting v = Some (i, Some True)"
    by (auto split: if_splits)
  moreover have "remembers [] (pairing_abs ?d)"
    by (simp add: remembers_def pairing_abs_boot)
  from spec_run_remembers [OF v(1) this] have "remembers pre v"
    by simp
  ultimately show ?thesis
    by (simp add: remembers_def)
qed

text \<open>
  C1. Nobody is pinned without a token and a human. In every run of the daemon from start-up,
  whatever the network sends and however D-Bus calls, timeouts and disk failures interleave:
  before any device is pinned a token was issued, that device presented its bytes less than
  sixty seconds later, and after that a human accepted that very device; a token pins at most
  one device; and every device trusted in the end was in the state file at start or was pinned
  in this way.
\<close>

theorem pinning_needs_token_and_human:
  assumes "canonical (load from_str fs (join dir ''devices.json''))"
    and "run_daemon env (boot from_str ident name addr dir backend fs) inputs = Some (outs, d')"
  shows "(\<forall>pre i n post. outs = pre @ DevicePinned i n # post \<longrightarrow> human_accepted pre i) \<and>
    length (filter is_pin outs) \<le> length (filter is_issue outs) \<and>
    paired (sh_trust d') \<subseteq>
      set (device_ids (load from_str fs (join dir ''devices.json''))) \<union> {i. \<exists>n. DevicePinned i n \<in> set outs}"
proof -
  let ?d = "boot from_str ident name addr dir backend fs"
  have run: "spec_run pairing_spec (pairing_abs ?d) outs = Some (pairing_abs d')"
    using pairing.run_refines [OF boot_inv [OF assms(1)] assms(2)] .
  have "human_accepted pre i" if pinned: "outs = pre @ DevicePinned i n # post" for pre i n post
    using pin_accepted [OF assms(1) assms(2) [unfolded pinned]] .
  moreover have "length (filter is_pin outs) \<le> length (filter is_issue outs)"
    using spec_run_credit [OF run] by (simp add: credit_def pairing_abs_boot)
  moreover have "paired (sh_trust d') \<subseteq>
      set (device_ids (load from_str fs (join dir ''devices.json''))) \<union> {i. \<exists>n. DevicePinned i n \<in> set outs}"
    using spec_run_pinned [OF run] by (simp add: pairing_abs_boot) (simp add: pairing_abs_def)
  ultimately show ?thesis by blast
qed

section \<open>A small run\<close>

text \<open>A daemon with an empty disk that cannot be written, and one phone, to evaluate runs on.\<close>

definition demo_env :: "(string \<times> string) list env" where
  "demo_env = \<lparr>env_url = demo_url, env_umode = 420, env_to_vec = (\<lambda>_. Inl ''unsupported''), env_blake3 = (\<lambda>bs. bs)\<rparr>"

definition demo_daemon :: daemon where
  "demo_daemon = boot (\<lambda>_. Inl ''unsupported'') (replicate 32 0) ''desk'' (SocketV4 0 0 0 0 58210) [''data''] True (\<lambda>_. None)"

definition phone :: device_id where
  "phone = replicate 32 1"

definition phone_addr :: socket_addr where
  "phone_addr = SocketV4 10 0 0 7 4000"

definition demo_routes :: route_lookup where
  "demo_routes = \<lparr>rl_bind = True, rl_connect = True, rl_local_addr = Some (SocketV4 10 0 0 1 9)\<rparr>"

definition demo_uri :: string where
  "demo_uri = the (encode_qr_uri demo_url
     \<lparr>qr_version = protocol_version, qr_device_id = replicate 32 0, qr_name = ''desk'',
      qr_addrs = candidate_addrs demo_routes (SocketV4 0 0 0 0 58210), qr_token = [5]\<rparr>)"

lemma device_id_ok_phone [simp]: "device_id_ok phone"
  by (simp add: phone_def device_id_ok_replicate)

lemma from_hex_phone [simp]: "from_hex (to_hex phone) = Some phone"
  by (simp add: from_hex_to_hex phone_def device_id_len_def)

lemma encode_qr_uri_total: "url_ok api \<Longrightarrow> \<exists>uri. encode_qr_uri api p = Some uri"
  by (auto simp: url_ok_def encode_qr_uri_def scheme_def)

lemma demo_encode [simp]:
  "encode_qr_uri demo_url
     \<lparr>qr_version = protocol_version, qr_device_id = replicate 32 0, qr_name = ''desk'',
      qr_addrs = candidate_addrs demo_routes (SocketV4 0 0 0 0 58210), qr_token = [5]\<rparr> = Some demo_uri"
  using encode_qr_uri_total [OF demo_url_ok] by (auto simp: demo_uri_def)

lemma demo_save [simp]: "save 420 (\<lambda>_. Inl ''unsupported'') st p [] fs = (Finished (Inl ''unsupported''), fs)"
  by (simp add: save_def save_json_def split: option.splits)

lemma demo_load [simp]: "load (\<lambda>_. Inl ''unsupported'') (\<lambda>_. None) p = empty_state"
  by (simp add: load_def load_json_def read_to_string_def contents_def)

lemmas demo_boot = demo_daemon_def boot_def Let_def empty_state_def device_ids_def entry_ids_def
  List.map_filter_def trust_new_def

lemmas demo_steps = start_pairing_def is_paired_def open_pairing_window_def close_pairing_window_def pin_def
  upsert_def upsert_entry_def

definition pairing_inputs :: "daemon_input list" where
  "pairing_inputs =
     [StartPairing demo_routes [5] 0, NetEvent (LConnected phone_addr 1),
      NetEvent (LSession phone_addr (EvPeerHandshake phone ''pixel'' [] (Some [5]))),
      OrchestratorTurn 1, OrchestratorTurn 2, ConfirmPairing (to_hex phone) True, ConfirmationTurn 3 []]"

definition pairing_outputs :: "daemon_output list" where
  "pairing_outputs =
     [TokenIssued [5] 0, QrReply demo_uri (short_fingerprint (replicate 32 0)), TokenRedeemed phone [5] 2,
      PairingRequested (to_hex phone) (short_fingerprint phone) ''pixel'', Answered phone True,
      DevicePinned phone ''pixel'', StateSaved False, ConnectedChanged (device_path phone) True]"

text \<open>The daemon with the phone paired and connected.\<close>

definition paired_daemon :: daemon where
  "paired_daemon = snd (the (run_daemon demo_env demo_daemon pairing_inputs))"

lemma pairing_run: "run_daemon demo_env demo_daemon pairing_inputs = Some (pairing_outputs, paired_daemon)"
  unfolding paired_daemon_def pairing_inputs_def pairing_outputs_def
  by (simp add: demo_boot run_defs demo_steps demo_env_def from_secs_def)

lemma paired_daemon_phone:
  "is_paired (sh_trust paired_daemon) phone" "sh_connected_devices paired_daemon = [(phone, 1)]"
  "sh_last_hash paired_daemon = None" "sh_remote_to_device paired_daemon = [phone_addr \<mapsto> phone]"
  "sh_remote_handles paired_daemon = [phone_addr \<mapsto> 1]" "sh_backend paired_daemon" "dm_alive paired_daemon"
  "paired (sh_trust paired_daemon) = {phone}"
  "dm_objects paired_daemon = [device_path phone \<mapsto> \<lparr>d1_name = ''pixel'', d1_device_id = to_hex phone, d1_connected = True\<rparr>]"
  unfolding paired_daemon_def pairing_inputs_def
  by (simp_all add: demo_boot run_defs demo_steps demo_env_def from_secs_def)

lemma paired_daemon_idle: "dm_queue paired_daemon = []" "dm_confirming paired_daemon = None"
  unfolding paired_daemon_def pairing_inputs_def
  by (simp_all add: demo_boot run_defs demo_steps demo_env_def from_secs_def)

lemma canonical_demo: "canonical (load (\<lambda>_. Inl ''unsupported'') (\<lambda>_. None) (join [''data''] ''devices.json''))"
  by (simp add: canonical_empty)

theorem pinning_needs_token_and_human_witness:
  "human_accepted [TokenIssued [5] 0, QrReply demo_uri (short_fingerprint (replicate 32 0)), TokenRedeemed phone [5] 2,
     PairingRequested (to_hex phone) (short_fingerprint phone) ''pixel'', Answered phone True] phone"
proof -
  have "pairing_outputs = [TokenIssued [5] 0, QrReply demo_uri (short_fingerprint (replicate 32 0)),
      TokenRedeemed phone [5] 2, PairingRequested (to_hex phone) (short_fingerprint phone) ''pixel'', Answered phone True]
      @ DevicePinned phone ''pixel'' # [StateSaved False, ConnectedChanged (device_path phone) True]"
    by (simp add: pairing_outputs_def)
  with pinning_needs_token_and_human [OF canonical_demo pairing_run [unfolded demo_daemon_def]]
  show ?thesis by blast
qed

section \<open>The code on the screen\<close>

lemma start_pairing_shows:
  assumes "url_ok (env_url env)" and "length (sh_device_id d) = device_id_len" and "is_rust_string (sh_name d)"
    and "length random = token_len" and "\<forall>a \<in> set (candidate_addrs os (sh_listen_addr d)). text_faithful a"
  obtains uri where "start_pairing env os random now d
      = Some ([TokenIssued random now, QrReply uri (short_fingerprint (sh_device_id d))],
          d\<lparr>sh_trust := open_pairing_window (sh_trust d) (now + token_ttl), sh_current_token := Some (issue random now)\<rparr>)"
    "decode_qr_uri (env_url env) uri
      = Inr \<lparr>qr_version = protocol_version, qr_device_id = sh_device_id d, qr_name = sh_name d,
             qr_addrs = candidate_addrs os (sh_listen_addr d), qr_token = random\<rparr>"
proof -
  define p where "p = \<lparr>qr_version = protocol_version, qr_device_id = sh_device_id d, qr_name = sh_name d,
      qr_addrs = candidate_addrs os (sh_listen_addr d), qr_token = random\<rparr>"
  have "payload_ok p"
    using assms(2-5) by (simp add: payload_ok_def p_def)
  then obtain uri where "encode_qr_uri (env_url env) p = Some uri" "decode_qr_uri (env_url env) uri = Inr p"
    using decode_encode_qr [OF assms(1)] by blast
  then show thesis
    by (intro that [of uri]) (simp_all add: start_pairing_def Let_def p_def)
qed



section \<open>Waiting for the human\<close>

text \<open>
  Inputs that neither answer the question about \<open>i\<close> nor reach its deadline. Everything else may
  come: network events, calls of any client (other answers included), clipboard changes.
\<close>

fun unanswered :: "device_id \<Rightarrow> instant \<Rightarrow> daemon_input \<Rightarrow> bool" where
  "unanswered i deadline (ConfirmationTurn now fates) = (now < deadline)"
| "unanswered i deadline (ConfirmPairing hex accept) = (from_hex hex \<noteq> Some i)"
| "unanswered i deadline _ = True"

definition net_events :: "daemon_input list \<Rightarrow> listener_event list" where
  "net_events inputs = List.map_filter (\<lambda>i. case i of NetEvent ev \<Rightarrow> Some ev | _ \<Rightarrow> None) inputs"

text \<open>The question is open, and its answer would reach it.\<close>

definition asking :: "confirmation \<Rightarrow> daemon \<Rightarrow> bool" where
  "asking c d \<longleftrightarrow>
     dm_confirming d = Some c \<and> cf_answer c = None \<and> sh_pending_confirmations d (cf_device c) = Some (cf_channel c) \<and>
     (\<forall>i. sh_pending_confirmations d i = Some (cf_channel c) \<longrightarrow> i = cf_device c)"

lemma asking_cong:
  "asking c d \<Longrightarrow> dm_confirming d' = dm_confirming d \<Longrightarrow> sh_pending_confirmations d' = sh_pending_confirmations d \<Longrightarrow> asking c d'"
  by (simp add: asking_def)

lemma answer_elsewhere:
  assumes "confirm_pairing hex accept d = (out, d')" and "from_hex hex \<noteq> Some (cf_device c)" and "asking c d"
  shows "asking c d' \<and> dm_queue d' = dm_queue d"
proof (cases "\<exists>i ch. from_hex hex = Some i \<and> sh_pending_confirmations d i = Some ch")
  case False
  then have "d' = d"
    using assms(1) by (auto simp: confirm_pairing_def split: option.splits)
  then show ?thesis using assms(3) by simp
next
  case True
  then obtain i ch where i: "from_hex hex = Some i" "sh_pending_confirmations d i = Some ch" "i \<noteq> cf_device c"
    using assms(2) by auto
  then have "ch \<noteq> cf_channel c" and "dm_confirming d = Some c"
    using assms(3) unfolding asking_def by blast+
  then have "d' = d\<lparr>sh_pending_confirmations := (sh_pending_confirmations d)(i := None)\<rparr>"
    using assms(1) i by (simp add: confirm_pairing_def Let_def)
  then show ?thesis
    using assms(3) i(3) by (simp add: asking_def)
qed

lemma unanswered_step:
  assumes "typed_step env d j = Some (out, d')" and "unanswered (cf_device c) (cf_deadline c) j" and "asking c d"
    and "dm_alive d"
  shows "asking c d' \<and> dm_queue d' = dm_queue d @ net_events [j]"
proof -
  note silent = net_events_def List.map_filter_def
  have open_question: "dm_confirming d = Some c" "cf_answer c = None"
    using assms(3) by (simp_all add: asking_def)
  note same = asking_cong [OF assms(3), of d']
  from assms(1) show ?thesis
  proof (cases rule: typed_stepE)
    case dead
    then show ?thesis using assms(4) by simp
  next
    case (net ev)
    then show ?thesis
      using same by (simp add: silent)
  next
    case (orchestrator now)
    then have "d' = d"
      using open_question by (simp add: orchestrator_turn_def)
    then show ?thesis
      using orchestrator(2) assms(3) by (simp add: silent)
  next
    case (confirmation now fates)
    then have "d' = d"
      using assms(2) open_question by (simp add: confirmation_turn_def confirmation_result_def)
    then show ?thesis
      using confirmation(2) assms(3) by (simp add: silent)
  next
    case (start os random now)
    then have "dm_confirming d' = dm_confirming d" "sh_pending_confirmations d' = sh_pending_confirmations d" "dm_queue d' = dm_queue d"
      by (auto simp: start_pairing_def Let_def split: option.splits)
    then show ?thesis
      using same start(2) by (simp add: silent)
  next
    case (answer hex accept)
    then show ?thesis
      using answer_elsewhere [OF answer(3) _ assms(3)] assms(2) by (simp add: silent)
  next
    case (revoke hex fates)
    then have "dm_confirming d' = dm_confirming d" "sh_pending_confirmations d' = sh_pending_confirmations d" "dm_queue d' = dm_queue d"
      by (auto simp: dbus_unpair_def Let_def core_def split: option.splits prod.splits if_splits dest!: persist_state_frame)
    then show ?thesis
      using same revoke(2) by (simp add: silent)
  next
    case (change ch r)
    then have "dm_confirming d' = dm_confirming d" "sh_pending_confirmations d' = sh_pending_confirmations d" "dm_queue d' = dm_queue d"
      by (auto simp: watch_and_broadcast_def split: if_splits sum.splits prod.splits bool.splits)
    then show ?thesis
      using same change(2) by (simp add: silent)
  qed
qed

lemma unanswered_run:
  "run_daemon env d inputs = Some (outs, d') \<Longrightarrow> dm_alive d' \<Longrightarrow> asking c d \<Longrightarrow>
     \<forall>j \<in> set inputs. unanswered (cf_device c) (cf_deadline c) j \<Longrightarrow>
     asking c d' \<and> dm_queue d' = dm_queue d @ net_events inputs"
proof (induction inputs arbitrary: d outs)
  case Nil
  then show ?case by (simp add: net_events_def List.map_filter_def)
next
  case (Cons i inputs)
  from Cons.prems(1) obtain os1 d1 os2 where s: "typed_step env d i = Some (os1, d1)" "run_daemon env d1 inputs = Some (os2, d')"
    by (rule run_steps_ConsE)
  have "asking c d1 \<and> dm_queue d1 = dm_queue d @ net_events [i]"
    using unanswered_step [OF s(1) _ Cons.prems(3) alive_before [OF Cons.prems(1,2)]] Cons.prems(4) by simp
  moreover have "net_events (i # inputs) = net_events [i] @ net_events inputs"
    by (simp add: net_events_def List.map_filter_def)
  ultimately show ?case
    using Cons.IH [OF s(2) Cons.prems(2)] Cons.prems(4) by simp
qed

lemma handshake_asks:
  assumes "handle_handshake remote i name tok now d = (out, d1)" and "dm_confirming d = None" and "dm_confirming d1 = Some c"
    and "daemon_inv d"
  shows "asking c d1" and "cf_device c = i" and "cf_name c = name" and "cf_deadline c = now + from_secs 65"
    and "dm_alive d1 = dm_alive d"
proof -
  have unused: "sh_pending_confirmations d j \<noteq> Some (dm_next_channel d)" for j
    using assms(4) by (auto simp: daemon_inv_def channels_ok_def)
  have "\<not> is_paired (sh_trust d) i"
    using assms(1-3) mark_connected_frame [of remote i name d out d1]
    by (auto simp: handle_handshake_def core_def split: if_splits)
  then have "\<exists>d0. d1 = await_confirmation remote i name now d0 \<and> sh_pending_confirmations d0 = sh_pending_confirmations d \<and>
      dm_next_channel d0 = dm_next_channel d \<and> dm_alive d0 = dm_alive d"
    using assms(1-3) by (auto simp: handle_handshake_def split: option.splits prod.splits bool.splits elim!: redeem_current_cases)
  then obtain d0 where d0: "d1 = await_confirmation remote i name now d0" "sh_pending_confirmations d0 = sh_pending_confirmations d"
    "dm_next_channel d0 = dm_next_channel d" "dm_alive d0 = dm_alive d"
    by blast
  with assms(3) unused show "asking c d1" and "cf_device c = i" and "cf_name c = name" and "cf_deadline c = now + from_secs 65"
    and "dm_alive d1 = dm_alive d"
    by (auto simp: await_confirmation_def Let_def asking_def token_ttl_def from_secs_def)
qed

text \<open>The answer ends the wait.\<close>

lemma answer_ends_wait:
  assumes "asking c d" and "dm_alive d" and "from_hex hex = Some (cf_device c)"
  obtains out d' where "run_daemon env d [ConfirmPairing hex accept, ConfirmationTurn t fates]
      = Some (Answered (cf_device c) accept # (if accept then DevicePinned (cf_device c) (cf_name c) else PairingDeclined (cf_device c)) # out, d')"
    "dm_confirming d' = None" "dm_queue d' = dm_queue d"
proof -
  let ?c = "c\<lparr>cf_answer := Some accept\<rparr>"
  let ?d = "d\<lparr>sh_pending_confirmations := (sh_pending_confirmations d)(cf_device c := None), dm_confirming := Some ?c\<rparr>"
  have answered: "typed_step env d (ConfirmPairing hex accept) = Some ([Answered (cf_device c) accept], ?d)"
    using assms by (simp add: typed_step_def daemon_step_def confirm_pairing_def asking_def Let_def)
  obtain out2 d2 where turn: "confirmation_turn env fates t ?d = (out2, d2)"
    by (metis surj_pair)
  have "\<exists>out. out2 = (if accept then DevicePinned (cf_device c) (cf_name c) else PairingDeclined (cf_device c)) # out"
    and "dm_confirming d2 = None" and "dm_queue d2 = dm_queue d"
    using turn
    by (auto simp: confirmation_turn_def confirmation_result_def finish_pairing_def Let_def core_def
        split: if_splits prod.splits dest!: persist_state_frame mark_connected_frame)
  moreover have "typed_step env ?d (ConfirmationTurn t fates) = Some (out2, d2)"
    using turn assms(2) by (simp add: typed_step_def daemon_step_def)
  ultimately show thesis
    using that answered by auto
qed

text \<open>
  C37. The wait for a human holds everything up, but not for ever. A redeemed token makes the
  daemon's event loop ask a human. While nobody answers and sixty-five seconds have not passed,
  whatever comes (events of every device, calls of any client, clipboard changes, failing
  saves), no network event is handled: each one is only queued, in order. From every such moment
  on: the answer of a client ends the wait in the turn after it, whatever the time, and the
  device is pinned or declined as it says; and without an answer the turn at the deadline
  declines. Either way the loop is free again and the queue is what it was.
\<close>

theorem human_wait_blocks_and_ends:
  assumes "daemon_inv d" and "dm_alive d" and "dm_confirming d = None"
    and "handle_handshake remote i name tok now d = (out, d1)" and "dm_confirming d1 = Some c"
    and "run_daemon env d1 inputs = Some (outs, d2)" and "dm_alive d2"
    and "\<forall>j \<in> set inputs. unanswered i (now + from_secs 65) j"
    and "from_hex hex = Some i" and "now + from_secs 65 \<le> later"
  shows "dm_confirming d2 = Some c \<and> dm_queue d2 = dm_queue d1 @ net_events inputs \<and>
    (\<forall>accept t fates. \<exists>out3 d3. run_daemon env d2 [ConfirmPairing hex accept, ConfirmationTurn t fates]
        = Some (Answered i accept # (if accept then DevicePinned i name else PairingDeclined i) # out3, d3) \<and>
       dm_confirming d3 = None \<and> dm_queue d3 = dm_queue d2) \<and>
    run_daemon env d2 [ConfirmationTurn later []] = Some ([PairingDeclined i], d2\<lparr>dm_confirming := None\<rparr>)"
proof -
  note c = handshake_asks [OF assms(4,3,5,1)]
  have d2: "asking c d2" "dm_queue d2 = dm_queue d1 @ net_events inputs"
    using unanswered_run [OF assms(6,7) c(1)] assms(8) c(2,4) by simp_all
  have "\<exists>out3 d3. run_daemon env d2 [ConfirmPairing hex accept, ConfirmationTurn t fates]
      = Some (Answered i accept # (if accept then DevicePinned i name else PairingDeclined i) # out3, d3) \<and>
     dm_confirming d3 = None \<and> dm_queue d3 = dm_queue d2" for accept t fates
    using answer_ends_wait [OF d2(1) assms(7), of hex env accept t fates] assms(9) unfolding c(2,3) by metis
  moreover have "run_daemon env d2 [ConfirmationTurn later []] = Some ([PairingDeclined i], d2\<lparr>dm_confirming := None\<rparr>)"
    using d2(1) assms(7,10) c(2,4)
    by (simp add: asking_def typed_step_def daemon_step_def confirmation_turn_def confirmation_result_def Let_def)
  ultimately show ?thesis
    using d2 by (simp add: asking_def)
qed

definition asking_daemon :: daemon where
  "asking_daemon = snd (handle_handshake phone_addr phone ''pixel'' (Some [5]) 2
     (demo_daemon\<lparr>sh_current_token := Some (issue [5] 0)\<rparr>))"

text \<open>Another device closes, another client answers for it, and the question stays until it is answered.\<close>

theorem human_wait_blocks_and_ends_witness:
  "\<exists>d2. run_daemon demo_env asking_daemon
      [NetEvent (LSession (SocketV4 10 0 0 8 4000) (EvClosed CloseKeepaliveTimedOut)), OrchestratorTurn 3,
       ConfirmPairing ''zz'' True, ConfirmationTurn (2 + from_secs 64) []] = Some ([InvalidArgs], d2) \<and>
     dm_queue d2 = [LSession (SocketV4 10 0 0 8 4000) (EvClosed CloseKeepaliveTimedOut)] \<and>
     run_daemon demo_env d2 [ConfirmationTurn (2 + from_secs 65) []] = Some ([PairingDeclined phone], d2\<lparr>dm_confirming := None\<rparr>)"
proof -
  let ?d = "demo_daemon\<lparr>sh_current_token := Some (issue [5] 0)\<rparr>"
  let ?inputs = "[NetEvent (LSession (SocketV4 10 0 0 8 4000) (EvClosed CloseKeepaliveTimedOut)), OrchestratorTurn 3,
       ConfirmPairing ''zz'' True, ConfirmationTurn (2 + from_secs 64) []]"
  obtain out d1 where h: "handle_handshake phone_addr phone ''pixel'' (Some [5]) 2 ?d = (out, d1)"
    by (metis surj_pair)
  then obtain c where c: "dm_confirming d1 = Some c" and q: "dm_queue d1 = []" and alive: "dm_alive d1"
    and unanswered: "cf_answer c = None" "cf_deadline c = 2 + from_secs 65"
    by (auto simp: demo_boot run_defs demo_steps from_secs_def)
  have zz: "from_hex ''zz'' = None"
    by (simp add: from_hex_def)
  have d: "daemon_inv ?d" "dm_alive ?d" "dm_confirming ?d = None"
    using boot_inv [OF canonical_demo] by (simp_all add: demo_boot demo_daemon_def daemon_inv_def pins_agree_def channels_ok_def)
  obtain d2 where run: "run_daemon demo_env d1 ?inputs = Some ([InvalidArgs], d2)" "dm_alive d2"
    using alive c q unanswered zz
    by (auto simp: typed_step_def daemon_step_def orchestrator_turn_def confirm_pairing_def confirmation_turn_def confirmation_result_def)
  have waits: "\<forall>j \<in> set ?inputs. unanswered phone (2 + from_secs 65) j"
    by (simp add: zz)
  have hex: "from_hex (to_hex phone) = Some phone"
    by (simp add: from_hex_to_hex device_id_ok_phone [unfolded device_id_ok_def])
  note wait = human_wait_blocks_and_ends [OF d h c run waits hex order_refl]
  have "asking_daemon = d1"
    using h by (simp add: asking_daemon_def)
  moreover have "net_events ?inputs = [LSession (SocketV4 10 0 0 8 4000) (EvClosed CloseKeepaliveTimedOut)]"
    by (simp add: net_events_def List.map_filter_def)
  ultimately show ?thesis
    using conjunct1 [OF conjunct2 [OF wait]] conjunct2 [OF conjunct2 [OF conjunct2 [OF wait]]] run(1) q by auto
qed

end
