(* ===== verification/Daemon_Objects.thy ===== *)
theory Daemon_Objects
  imports Daemon_Pairing
begin

text \<open>
  The \<open>Device1\<close> objects on the bus against the devices the daemon trusts: what every client (the
  terminal interface, the command line, the file manager extension) sees of the daemon is
  exactly what it has pinned and written down.
\<close>

section \<open>What the bus shows\<close>

text \<open>The id and the name of the object at a path, without the \<open>Connected\<close> property.\<close>

definition shown :: "daemon \<Rightarrow> string \<Rightarrow> (string \<times> string) option" where
  "shown d p = map_option (\<lambda>ob. (d1_device_id ob, d1_name ob)) (dm_objects d p)"

definition objects_match :: "daemon \<Rightarrow> bool" where
  "objects_match d \<longleftrightarrow>
     (\<forall>i. device_id_ok i \<longrightarrow> shown d (device_path i) = map_option (\<lambda>n. (to_hex i, n)) (names (sh_state d) i)) \<and>
     (\<forall>p. shown d p \<noteq> None \<longrightarrow> (\<exists>i. device_id_ok i \<and> p = device_path i))"

lemma objects_match_cong:
  "shown d' = shown d \<Longrightarrow> sh_state d' = sh_state d \<Longrightarrow> objects_match d' = objects_match d"
  by (simp add: objects_match_def)

lemma objects_matchD:
  assumes "objects_match d"
  shows "device_id_ok i \<Longrightarrow> shown d (device_path i) = map_option (\<lambda>n. (to_hex i, n)) (names (sh_state d) i)"
    and "shown d p = Some x \<Longrightarrow> \<exists>i. device_id_ok i \<and> p = device_path i"
  using assms by (auto simp: objects_match_def)

lemma objects_matchI:
  assumes "\<And>i. device_id_ok i \<Longrightarrow> shown d (device_path i) = map_option (\<lambda>n. (to_hex i, n)) (names (sh_state d) i)"
    and "\<And>p x. shown d p = Some x \<Longrightarrow> \<exists>i. device_id_ok i \<and> p = device_path i"
  shows "objects_match d"
  using assms by (auto simp: objects_match_def)

lemma object_exists:
  assumes "objects_match d" and "daemon_inv d" and "i \<in> paired (sh_trust d)" and "device_id_ok i"
  shows "dm_objects d (device_path i) \<noteq> None"
proof -
  have "i \<in> dom (names (sh_state d))"
    using assms(2,3) daemon_invD [OF assms(2)] by (simp add: known_dom)
  with objects_matchD(1) [OF assms(1,4)] show ?thesis
    by (auto simp: shown_def)
qed

section \<open>Each operation\<close>

lemma set_connected_shown: "set_connected i b d = (out, d') \<Longrightarrow> shown d' = shown d \<and> sh_state d' = sh_state d"
  by (auto simp: set_connected_def shown_def fun_eq_iff split: option.splits if_splits)

lemma mark_connected_shown:
  assumes "mark_connected r i n d = (out, d')"
  shows "shown d' = shown (ensure_device_object i n d) \<and> sh_state d' = sh_state (ensure_device_object i n d)"
proof -
  obtain out1 d1 where c: "set_connected i True (ensure_device_object i n d) = (out1, d1)"
    by (metis surj_pair)
  then have "shown d' = shown d1 \<and> sh_state d' = sh_state d1"
    using assms by (auto simp: mark_connected_def shown_def split: option.splits)
  with set_connected_shown [OF c] show ?thesis by simp
qed

lemma mark_paired_match:
  assumes "mark_connected r i n d = (out, d')" and "objects_match d" and "daemon_inv d"
    and "i \<in> paired (sh_trust d)" and "device_id_ok i"
  shows "objects_match d'"
proof -
  have "ensure_device_object i n d = d"
    using object_exists [OF assms(2-5)] by (auto simp: ensure_device_object_def)
  then have "shown d' = shown d" and "sh_state d' = sh_state d"
    using mark_connected_shown [OF assms(1)] by simp_all
  with assms(2) show ?thesis
    by (simp add: objects_match_cong [of d' d])
qed

text \<open>A device that is pinned gets its object, with the name it is remembered by.\<close>

lemma mark_new_match:
  assumes "mark_connected r i n d2 = (out, d')" and "objects_match d" and "device_id_ok i"
    and "names (sh_state d) i = None" and "shown d2 = shown d" and "sh_state d2 = upsert (sh_state d) i n"
  shows "objects_match d'"
proof -
  have "shown d (device_path i) = None"
    using objects_matchD(1) [OF assms(2,3)] assms(4) by simp
  then have "dm_objects d2 (device_path i) = None"
    by (simp add: assms(5) [symmetric] shown_def)
  then have "shown d' = (shown d)(device_path i \<mapsto> (to_hex i, n))" and "sh_state d' = upsert (sh_state d) i n"
    using mark_connected_shown [OF assms(1)] assms(5,6)
    unfolding assms(5) [symmetric] by (auto simp: ensure_device_object_def shown_def fun_eq_iff)
  then show ?thesis
    using assms(3) objects_matchD [OF assms(2)]
    by (intro objects_matchI) (auto simp: names_upsert split: if_splits)
qed

lemma remove_match:
  assumes "objects_match d" and "device_id_ok i" and "shown d' = (shown d)(device_path i := None)"
    and "sh_state d' = remove (sh_state d) i"
  shows "objects_match d'"
  using assms(2-4) objects_matchD [OF assms(1)]
  by (intro objects_matchI) (auto simp: names_remove split: if_splits)

section \<open>Start-up\<close>

lemma canonical_entry:
  assumes "canonical_list pd_device_id (x # ds)"
  obtains j where "device_id_ok j" "pd_device_id x = to_hex j" "from_hex (pd_device_id x) = Some j"
    "to_hex j \<notin> pd_device_id ` set ds" "canonical_list pd_device_id ds"
  using assms by (fastforce simp: canonical_list_def from_hex_to_hex device_id_ok_def)

lemma restored_objects:
  "canonical_list pd_device_id ds \<Longrightarrow> device_id_ok i \<Longrightarrow>
     map_option (\<lambda>ob. (d1_device_id ob, d1_name ob)) (fold restore_object ds objs (device_path i)) =
       (case objs (device_path i) of
          Some ob \<Rightarrow> Some (d1_device_id ob, d1_name ob)
        | None \<Rightarrow> map_option (\<lambda>n. (to_hex i, n)) (lookup_name pd_device_id pd_name ds i))"
proof (induction ds arbitrary: objs)
  case Nil
  then show ?case by (simp add: lookup_name_def split: option.split)
next
  case (Cons x ds)
  from Cons.prems(1) obtain j where j: "device_id_ok j" "pd_device_id x = to_hex j" "from_hex (pd_device_id x) = Some j"
    "to_hex j \<notin> pd_device_id ` set ds" "canonical_list pd_device_id ds"
    by (rule canonical_entry)
  show ?case
    using Cons.IH [OF j(5) Cons.prems(2), of "restore_object x objs"] Cons.prems(2) j
    by (auto simp: restore_object_def lookup_name_def split: option.splits)
qed

lemma restored_paths:
  "fold restore_object ds objs p \<noteq> None \<Longrightarrow> objs p \<noteq> None \<or> (\<exists>i. device_id_ok i \<and> p = device_path i)"
proof (induction ds arbitrary: objs)
  case Nil
  then show ?case by simp
next
  case (Cons x ds)
  have "restore_object x objs p \<noteq> None \<Longrightarrow> objs p \<noteq> None \<or> (\<exists>i. device_id_ok i \<and> p = device_path i)"
    by (auto simp: restore_object_def split: option.splits if_splits dest: from_hex_ok)
  then show ?case
    using Cons by auto
qed

lemma boot_match:
  assumes "canonical (load from_str fs (join dir ''devices.json''))"
  shows "objects_match (boot from_str ident name addr dir backend fs)"
proof (rule objects_matchI)
  fix i assume "device_id_ok i"
  then show "shown (boot from_str ident name addr dir backend fs) (device_path i)
      = map_option (\<lambda>n. (to_hex i, n)) (names (sh_state (boot from_str ident name addr dir backend fs)) i)"
    using restored_objects [OF assms [unfolded canonical_def], of i Map.empty]
    by (simp add: shown_def boot_def Let_def names_def)
next
  fix p x assume "shown (boot from_str ident name addr dir backend fs) p = Some x"
  then show "\<exists>i. device_id_ok i \<and> p = device_path i"
    using restored_paths [of "devices (load from_str fs (join dir ''devices.json''))" Map.empty p]
    by (auto simp: shown_def boot_def Let_def)
qed

section \<open>Every run\<close>

lemma persist_state_shown: "persist_state env fates d = (out, d') \<Longrightarrow> shown d' = shown d \<and> sh_state d' = sh_state d"
  by (auto simp: persist_state_def shown_def fun_eq_iff split: outcome.splits prod.splits)

lemma handle_handshake_match:
  assumes "handle_handshake r i n tok now d = (out, d')" and "objects_match d" and "daemon_inv d" and "device_id_ok i"
  shows "objects_match d'"
proof (cases "is_paired (sh_trust d) i")
  case True
  then have "mark_connected r i n d = (out, d')"
    using assms(1) by (simp add: handle_handshake_def)
  from mark_paired_match [OF this assms(2,3) _ assms(4)] True show ?thesis
    by (simp add: is_paired_def)
next
  case False
  then have "shown d' = shown d \<and> sh_state d' = sh_state d"
    using assms(1)
    by (auto simp: handle_handshake_def redeem_current_def await_confirmation_def Let_def shown_def fun_eq_iff
        split: option.splits prod.splits bool.splits)
  then show ?thesis
    using assms(2) objects_match_cong [of d' d] by simp
qed

lemma orchestrator_turn_match:
  assumes "orchestrator_turn now d = (out, d')" and "objects_match d" and "daemon_inv d"
  shows "objects_match d'"
proof (cases "\<exists>r i n caps tok q. dm_confirming d = None \<and> dm_queue d = LSession r (EvPeerHandshake i n caps tok) # q")
  case True
  then obtain r i n caps tok q where q: "dm_confirming d = None" "dm_queue d = LSession r (EvPeerHandshake i n caps tok) # q"
    by blast
  let ?d1 = "d\<lparr>dm_queue := q, sh_remote_to_device := (sh_remote_to_device d)(r \<mapsto> i)\<rparr>"
  have "handle_handshake r i n tok now ?d1 = (out, d')"
    using assms(1) q by (simp add: orchestrator_turn_def handle_session_event_def)
  moreover have "objects_match ?d1"
    using assms(2) objects_match_cong [of ?d1 d] by (simp add: shown_def fun_eq_iff)
  moreover have "daemon_inv ?d1"
    using daemon_inv_core [of ?d1 d] assms(3) q(2) by (auto simp: core_def)
  moreover have "device_id_ok i"
    using daemon_invD(3) [OF assms(3)] q(2) by fastforce
  ultimately show ?thesis
    by (rule handle_handshake_match)
next
  case False
  then have "shown d' = shown d \<and> sh_state d' = sh_state d"
    using assms(1)
    by (auto simp: orchestrator_turn_def handle_session_event_def handle_received_def handle_closed_def set_connected_def
        shown_def Let_def fun_eq_iff
        split: if_splits list.splits listener_event.splits session_event.splits option.splits prod.splits bool.splits)
  then show ?thesis
    using assms(2) objects_match_cong [of d' d] by simp
qed

lemma finish_pairing_match:
  assumes "finish_pairing env fates c (d\<lparr>dm_confirming := None\<rparr>) = (out, d')" and "objects_match d" and "daemon_inv d"
    and "dm_confirming d = Some c" and "dm_alive d'"
  shows "objects_match d'"
proof -
  define d1 where "d1 = d\<lparr>dm_confirming := None, sh_trust := close_pairing_window (pin (sh_trust d) (cf_device c)),
    sh_state := upsert (sh_state d) (cf_device c) (cf_name c)\<rparr>"
  obtain out2 d2 where p: "persist_state env fates d1 = (out2, d2)"
    by (metis surj_pair)
  obtain out3 d3 where m: "mark_connected (cf_remote c) (cf_device c) (cf_name c) d2 = (out3, d3)"
    by (metis surj_pair)
  have "d' = d3"
    using assms(1,5) p m by (auto simp: finish_pairing_def Let_def d1_def split: if_splits)
  have c: "device_id_ok (cf_device c)" "cf_device c \<notin> paired (sh_trust d)"
    using assms(3,4) by (simp_all add: daemon_inv_def channels_ok_def)
  then have "names (sh_state d) (cf_device c) = None"
    using daemon_invD(1,2) [OF assms(3)] by (auto simp: known_dom)
  moreover have "shown d2 = shown d" and "sh_state d2 = upsert (sh_state d) (cf_device c) (cf_name c)"
    using persist_state_shown [OF p] by (simp_all add: d1_def shown_def fun_eq_iff)
  ultimately show ?thesis
    using mark_new_match [OF m assms(2) c(1)] \<open>d' = d3\<close> by simp
qed

lemma dbus_unpair_match:
  assumes "dbus_unpair env fates hex d = (out, d')" and "objects_match d" and "dm_alive d'"
  shows "objects_match d'"
proof (cases "from_hex hex")
  case None
  then show ?thesis
    using assms(1,2) by (simp add: dbus_unpair_def)
next
  case (Some i)
  define d1 where "d1 = d\<lparr>sh_trust := unpair (sh_trust d) i, sh_state := remove (sh_state d) i\<rparr>"
  obtain out2 d2 where p: "persist_state env fates d1 = (out2, d2)"
    by (metis surj_pair)
  have "d' = d2\<lparr>dm_objects := (dm_objects d2)(device_path i := None)\<rparr>"
    using assms(1,3) p Some by (auto simp: dbus_unpair_def Let_def d1_def split: if_splits)
  moreover have "shown d2 = shown d" and "sh_state d2 = remove (sh_state d) i"
    using persist_state_shown [OF p] by (simp_all add: d1_def shown_def fun_eq_iff)
  ultimately show ?thesis
    by (intro remove_match [OF assms(2) from_hex_ok [OF Some]]) (auto simp: shown_def fun_eq_iff)
qed

lemma typed_step_match:
  assumes "typed_step env d i = Some (out, d')" and "daemon_inv d" and "objects_match d" and "dm_alive d'"
  shows "objects_match d'"
proof -
  have same: "shown d' = shown d \<Longrightarrow> sh_state d' = sh_state d \<Longrightarrow> ?thesis"
    using assms(3) objects_match_cong [of d' d] by simp
  from assms(1) show ?thesis
  proof (cases rule: typed_stepE)
    case (orchestrator now)
    then show ?thesis
      using orchestrator_turn_match assms(2,3) by blast
  next
    case (confirmation now fates)
    from confirmation(3) show ?thesis
    proof (cases rule: confirmation_turnE)
      case (accepted c)
      then show ?thesis
        using finish_pairing_match assms(2-4) by blast
    qed (use same in \<open>auto simp: shown_def fun_eq_iff\<close>)
  next
    case (start os random now)
    then show ?thesis
      by (intro same) (auto simp: start_pairing_def Let_def shown_def fun_eq_iff split: option.splits)
  next
    case (answer hex accept)
    then show ?thesis
      by (intro same) (auto simp: confirm_pairing_def Let_def shown_def fun_eq_iff split: option.splits if_splits)
  next
    case (revoke hex fates)
    then show ?thesis
      using dbus_unpair_match assms(3,4) by blast
  next
    case (change c r)
    then show ?thesis
      by (intro same)
        (auto simp: watch_and_broadcast_def shown_def fun_eq_iff split: if_splits sum.splits prod.splits bool.splits)
  qed (use same in \<open>auto simp: shown_def fun_eq_iff\<close>)
qed

definition bus_inv :: "daemon \<Rightarrow> bool" where
  "bus_inv d \<longleftrightarrow> daemon_inv d \<and> (dm_alive d \<longrightarrow> objects_match d)"

interpretation bus: invariant_machine "typed_step env" bus_inv
proof
  fix d i out d'
  assume inv: "bus_inv d" and step: "typed_step env d i = Some (out, d')"
  have "daemon_inv d'"
    using pairing.step_inv inv step by (auto simp: bus_inv_def)
  moreover have "objects_match d'" if "dm_alive d'"
    using typed_step_match [OF step] inv that dead_stays [OF step] by (cases "dm_alive d") (auto simp: bus_inv_def)
  ultimately show "bus_inv d'"
    by (simp add: bus_inv_def)
qed

lemma bus_objectE:
  assumes "bus_inv d" and "dm_alive d" and "dm_objects d p = Some ob"
  obtains i where "i \<in> paired (sh_trust d)" "device_id_ok i" "p = device_path i" "d1_device_id ob = to_hex i"
    "names (sh_state d) i = Some (d1_name ob)"
proof -
  have inv: "daemon_inv d" "objects_match d"
    using assms(1,2) by (simp_all add: bus_inv_def)
  have sh: "shown d p = Some (d1_device_id ob, d1_name ob)"
    using assms(3) by (simp add: shown_def)
  then obtain i where i: "device_id_ok i" "p = device_path i"
    using objects_matchD(2) [OF inv(2)] by blast
  then have "names (sh_state d) i = Some (d1_name ob)" and "d1_device_id ob = to_hex i"
    using objects_matchD(1) [OF inv(2) i(1)] sh by auto
  moreover have "i \<in> paired (sh_trust d)"
    using calculation(1) daemon_invD(1,2) [OF inv(1)] by (auto simp: known_dom)
  ultimately show thesis
    using i that by blast
qed

lemma paired_device_ids_ok:
  assumes "daemon_inv d" and "i \<in> paired (sh_trust d)"
  shows "device_id_ok i"
proof -
  have "i \<in> dom (names (sh_state d))"
    using assms daemon_invD(1,2) [OF assms(1)] by (simp add: known_dom)
  then show ?thesis
    by (auto simp: names_def lookup_name_def split: if_splits)
qed

text \<open>
  C15. The bus shows exactly the trusted devices. After every run of the daemon from start-up, as
  long as it lives: a \<open>Device1\<close> object exists for a device if and only if the device is pinned,
  it carries that device's id and the name it was paired under (the one on disk), and there is no
  other object. What a client lists is what the daemon trusts, at every moment and not only
  after a restart.
\<close>

theorem bus_shows_trusted_devices:
  assumes "canonical (load from_str fs (join dir ''devices.json''))"
    and "run_daemon env (boot from_str ident name addr dir backend fs) inputs = Some (outs, d')" and "dm_alive d'"
  shows "(\<forall>i. device_id_ok i \<longrightarrow> (dm_objects d' (device_path i) \<noteq> None \<longleftrightarrow> i \<in> paired (sh_trust d'))) \<and>
    (\<forall>p ob. dm_objects d' p = Some ob \<longrightarrow>
       (\<exists>i. p = device_path i \<and> d1_device_id ob = to_hex i \<and> names (sh_state d') i = Some (d1_name ob)))"
proof -
  have "bus_inv (boot from_str ident name addr dir backend fs)"
    using boot_inv [OF assms(1)] boot_match [OF assms(1)] by (simp add: bus_inv_def)
  then have inv: "bus_inv d'"
    using bus.run_inv assms(2) by blast
  have "\<exists>i. i \<in> paired (sh_trust d') \<and> device_id_ok i \<and> p = device_path i \<and> d1_device_id ob = to_hex i \<and>
      names (sh_state d') i = Some (d1_name ob)" if "dm_objects d' p = Some ob" for p ob
    using bus_objectE [OF inv assms(3) that] by blast
  moreover have "dm_objects d' (device_path i) \<noteq> None" if "device_id_ok i" "i \<in> paired (sh_trust d')" for i
    using that object_exists inv assms(3) by (simp add: bus_inv_def)
  ultimately show ?thesis
    by (metis device_path_inject not_None_eq)
qed

theorem bus_shows_trusted_devices_witness:
  "dm_objects paired_daemon (device_path phone) \<noteq> None \<and> dm_objects paired_daemon (device_path (replicate 32 9)) = None"
proof -
  note d = paired_daemon_phone(8,7)
  have "replicate 32 9 \<noteq> phone" "device_id_ok (replicate 32 9)"
    by (simp_all add: phone_def device_id_ok_replicate)
  with d bus_shows_trusted_devices [OF canonical_demo pairing_run [unfolded demo_daemon_def] d(2)]
  show ?thesis by auto
qed

end
