(* ===== verification/Daemon_Tables.thy ===== *)
theory Daemon_Tables
  imports Daemon_Pairing
begin

text \<open>
  The daemon's tables are well-formed: every key that should be a device id is one, the table of
  connected devices is a map, and a wait for a human is registered under one device only.
\<close>

definition tables_ok :: "daemon \<Rightarrow> bool" where
  "tables_ok d \<longleftrightarrow>
     distinct (map fst (sh_connected_devices d)) \<and>
     (\<forall>i \<in> fst ` set (sh_connected_devices d). device_id_ok i) \<and>
     (\<forall>r i. sh_remote_to_device d r = Some i \<longrightarrow> device_id_ok i) \<and>
     (\<forall>i ch. sh_pending_confirmations d i = Some ch \<longrightarrow> device_id_ok i) \<and>
     (\<forall>i j ch. sh_pending_confirmations d i = Some ch \<and> sh_pending_confirmations d j = Some ch \<longrightarrow> i = j)"

text \<open>The part of the state this reads.\<close>

definition tables where
  "tables d = (sh_connected_devices d, sh_remote_to_device d, sh_pending_confirmations d)"

lemma tables_ok_cong: "tables d' = tables d \<Longrightarrow> tables_ok d' = tables_ok d"
  by (simp add: tables_def tables_ok_def)

lemma set_connected_tables: "set_connected i b d = (out, d') \<Longrightarrow> tables d' = tables d"
  by (auto simp: set_connected_def tables_def split: option.splits if_splits)

lemma tables_ok_connect:
  "tables_ok d \<Longrightarrow> device_id_ok i \<Longrightarrow>
     tables_ok (d\<lparr>sh_connected_devices := AList.update i conn (sh_connected_devices d)\<rparr>)"
  by (auto simp: tables_ok_def distinct_update keys_AList_update)

lemma tables_ok_disconnect:
  "tables_ok d \<Longrightarrow> tables_ok (d\<lparr>sh_connected_devices := AList.delete i (sh_connected_devices d)\<rparr>)"
  by (auto simp: tables_ok_def distinct_delete keys_AList_delete)

lemma mark_connected_tables:
  assumes "mark_connected r i n d = (out, d')" and "tables_ok d" and "device_id_ok i"
  shows "tables_ok d'"
proof -
  obtain out1 d1 where c: "set_connected i True (ensure_device_object i n d) = (out1, d1)"
    by (metis surj_pair)
  have "tables (ensure_device_object i n d) = tables d"
    by (simp add: ensure_device_object_def tables_def split: option.split)
  then have "tables_ok d1"
    using set_connected_tables [OF c] tables_ok_cong [of d1 d] assms(2) by simp
  then show ?thesis
    using assms(1,3) c by (auto simp: mark_connected_def tables_ok_connect split: option.splits)
qed

lemma await_confirmation_tables:
  assumes "tables_ok d" and "device_id_ok i" and "channels_ok d"
  shows "tables_ok (await_confirmation r i n now d)"
proof -
  have "sh_pending_confirmations d j \<noteq> Some (dm_next_channel d)" for j
    using assms(3) by (fastforce simp: channels_ok_def)
  then show ?thesis
    using assms(1,2) by (auto simp: tables_ok_def await_confirmation_def Let_def split: if_splits)
qed

lemma handle_handshake_tables:
  assumes "handle_handshake r i n tok now d = (out, d')" and "tables_ok d" and "device_id_ok i" and "channels_ok d"
  shows "tables_ok d'"
proof (cases "is_paired (sh_trust d) i")
  case True
  then have "mark_connected r i n d = (out, d')"
    using assms(1) by (simp add: handle_handshake_def)
  then show ?thesis
    using assms(2,3) by (rule mark_connected_tables)
next
  case False
  have same: "tables_ok (d\<lparr>sh_current_token := t\<rparr>)" "channels_ok (d\<lparr>sh_current_token := t\<rparr>)" for t
    using assms(2,4) by (simp_all add: tables_ok_def channels_ok_def)
  show ?thesis
    using assms(1,2) False same await_confirmation_tables [OF same(1) assms(3) same(2)]
    by (auto simp: handle_handshake_def redeem_current_def split: option.splits prod.splits bool.splits)
qed

lemma handle_closed_tables:
  assumes "handle_closed r d = (out, d')" and "tables_ok d"
  shows "tables_ok d'"
proof -
  let ?d1 = "d\<lparr>sh_remote_handles := (sh_remote_handles d)(r := None), sh_remote_to_device := (sh_remote_to_device d)(r := None)\<rparr>"
  have one: "tables_ok ?d1"
    using assms(2) by (auto simp: tables_ok_def split: if_splits)
  show ?thesis
  proof (cases "sh_remote_to_device d r")
    case None
    then show ?thesis
      using assms(1) one by (simp add: handle_closed_def Let_def)
  next
    case (Some i)
    let ?d2 = "?d1\<lparr>sh_connected_devices := AList.delete i (sh_connected_devices ?d1)\<rparr>"
    have "set_connected i False ?d2 = (out, d')"
      using assms(1) Some by (simp add: handle_closed_def Let_def)
    from tables_ok_cong [OF set_connected_tables [OF this]] show ?thesis
      using tables_ok_disconnect [OF one] by simp
  qed
qed

lemma orchestrator_turn_tables:
  assumes "orchestrator_turn now d = (out, d')" and "tables_ok d" and "daemon_inv d"
  shows "tables_ok d'"
proof (cases "dm_confirming d = None \<and> (\<exists>r ev q. dm_queue d = LSession r ev # q)")
  case True
  then obtain r ev q where q: "dm_confirming d = None" "dm_queue d = LSession r ev # q"
    by blast
  let ?d1 = "d\<lparr>dm_queue := q\<rparr>"
  have one: "tables_ok ?d1" "channels_ok ?d1"
    using assms(2,3) by (simp_all add: tables_ok_def daemon_inv_def channels_ok_def)
  have ev: "event_ok (LSession r ev)"
    using daemon_invD(3) [OF assms(3)] q(2) by simp
  have turn: "handle_session_event r ev now ?d1 = (out, d')"
    using assms(1) q by (simp add: orchestrator_turn_def)
  show ?thesis
  proof (cases ev)
    case (EvPeerHandshake i n caps tok)
    let ?d2 = "?d1\<lparr>sh_remote_to_device := (sh_remote_to_device ?d1)(r \<mapsto> i)\<rparr>"
    have "handle_handshake r i n tok now ?d2 = (out, d')"
      using turn EvPeerHandshake by (simp add: handle_session_event_def)
    moreover have "tables_ok ?d2" "channels_ok ?d2"
      using one ev EvPeerHandshake by (auto simp: tables_ok_def channels_ok_def)
    ultimately show ?thesis
      using ev EvPeerHandshake handle_handshake_tables by simp
  next
    case (EvClipboardReceived clip)
    then have "tables d' = tables ?d1"
      using turn
      by (auto simp: handle_session_event_def handle_received_def tables_def split: option.splits if_splits prod.splits bool.splits)
    then show ?thesis
      using one(1) tables_ok_cong [of d' ?d1] by simp
  next
    case (EvClosed reason)
    then have "handle_closed r ?d1 = (out, d')"
      using turn by (simp add: handle_session_event_def)
    then show ?thesis
      using one(1) by (rule handle_closed_tables)
  qed (use turn one in \<open>simp add: handle_session_event_def\<close>)
next
  case False
  then have "tables d' = tables d"
    using assms(1) by (auto simp: orchestrator_turn_def tables_def split: if_splits list.splits listener_event.splits)
  then show ?thesis
    using assms(2) tables_ok_cong [of d' d] by simp
qed

lemma persist_state_tables: "persist_state env fates d = (out, d') \<Longrightarrow> tables d' = tables d"
  by (auto simp: persist_state_def tables_def split: outcome.splits prod.splits)

lemma finish_pairing_tables:
  assumes "finish_pairing env fates c d = (out, d')" and "tables_ok d" and "device_id_ok (cf_device c)"
  shows "tables_ok d'"
proof -
  define d1 where "d1 = d\<lparr>sh_trust := close_pairing_window (pin (sh_trust d) (cf_device c)),
    sh_state := upsert (sh_state d) (cf_device c) (cf_name c)\<rparr>"
  obtain out2 d2 where p: "persist_state env fates d1 = (out2, d2)"
    by (metis surj_pair)
  have "tables d2 = tables d"
    using persist_state_tables [OF p] by (simp add: d1_def tables_def)
  then have two: "tables_ok d2"
    using assms(2) tables_ok_cong [of d2 d] by simp
  show ?thesis
  proof (cases "dm_alive d2")
    case False
    then show ?thesis
      using assms(1) p two by (simp add: finish_pairing_def Let_def d1_def)
  next
    case True
    obtain out3 d3 where m: "mark_connected (cf_remote c) (cf_device c) (cf_name c) d2 = (out3, d3)"
      by (metis surj_pair)
    then have "d' = d3"
      using assms(1) p True by (simp add: finish_pairing_def Let_def d1_def)
    with mark_connected_tables [OF m two assms(3)] show ?thesis by simp
  qed
qed

lemma confirm_pairing_tables:
  assumes "confirm_pairing hex b d = (out, d')" and "tables_ok d"
  shows "tables_ok d'"
proof -
  have "tables d' = tables d \<or> (\<exists>i. tables d' = tables (d\<lparr>sh_pending_confirmations := (sh_pending_confirmations d)(i := None)\<rparr>))"
    using assms(1) by (auto simp: confirm_pairing_def Let_def tables_def split: option.splits if_splits)
  moreover have "tables_ok (d\<lparr>sh_pending_confirmations := (sh_pending_confirmations d)(i := None)\<rparr>)" for i
    using assms(2) by (auto simp: tables_ok_def split: if_splits)
  ultimately show ?thesis
    using assms(2) tables_ok_cong by blast
qed

lemma dbus_unpair_tables: "dbus_unpair env fates hex d = (out, d') \<Longrightarrow> tables d' = tables d"
  by (auto simp: dbus_unpair_def Let_def tables_def split: option.splits prod.splits if_splits dest!: persist_state_tables)

lemma typed_step_tables:
  assumes "typed_step env d i = Some (out, d')" and "tables_ok d" and "daemon_inv d"
  shows "tables_ok d'"
proof -
  have same: "tables d' = tables d \<Longrightarrow> ?thesis"
    using assms(2) tables_ok_cong [of d' d] by simp
  from assms(1) show ?thesis
  proof (cases rule: typed_stepE)
    case (orchestrator now)
    then show ?thesis
      using orchestrator_turn_tables assms(2,3) by blast
  next
    case (confirmation now fates)
    from confirmation(3) show ?thesis
    proof (cases rule: confirmation_turnE)
      case (accepted c)
      have "tables_ok (d\<lparr>dm_confirming := None\<rparr>)"
        using assms(2) by (simp add: tables_ok_def)
      moreover have "device_id_ok (cf_device c)"
        using assms(3) accepted(1) by (simp add: daemon_inv_def channels_ok_def)
      ultimately show ?thesis
        using finish_pairing_tables [OF accepted(2)] by simp
    qed (use same in \<open>auto simp: tables_def\<close>)
  next
    case (start os random now)
    then show ?thesis
      by (intro same) (auto simp: start_pairing_def Let_def tables_def split: option.splits)
  next
    case (answer hex accept)
    then show ?thesis
      using confirm_pairing_tables assms(2) by blast
  next
    case (revoke hex fates)
    then show ?thesis
      by (intro same dbus_unpair_tables)
  next
    case (change c r)
    then show ?thesis
      by (intro same) (auto simp: watch_and_broadcast_def tables_def split: if_splits sum.splits prod.splits bool.splits)
  qed (use same in \<open>simp_all add: tables_def\<close>)
qed

interpretation tables: invariant_machine "typed_step env" "\<lambda>d. daemon_inv d \<and> tables_ok d"
  by unfold_locales (use pairing.step_inv typed_step_tables in blast)

text \<open>
  The daemon's tables are well-typed, as Rust's types ensure in the source: the model's lists and
  partial functions stand for \<open>[u8; 32]\<close>, \<open>HashMap\<close> and a channel with one sender. In every state a run from start-up reaches, whatever
  connects, introduces itself, closes or is unpaired in whatever order: every device in the trust
  store, among the connected devices, behind a remote address or with an open question has an id
  of exactly thirty-two bytes, no device is connected twice, and an open question belongs to one
  device only.
\<close>

theorem daemon_tables_well_typed:
  assumes "canonical (load from_str fs (join dir ''devices.json''))"
    and "run_daemon env (boot from_str ident name addr dir backend fs) inputs = Some (outs, d)"
  shows "(\<forall>i \<in> paired (sh_trust d) \<union> fst ` set (sh_connected_devices d) \<union> ran (sh_remote_to_device d) \<union>
       dom (sh_pending_confirmations d). length i = 32) \<and>
    distinct (map fst (sh_connected_devices d)) \<and> inj_on (sh_pending_confirmations d) (dom (sh_pending_confirmations d))"
proof -
  have "tables_ok (boot from_str ident name addr dir backend fs)"
    by (simp add: tables_ok_def boot_def Let_def)
  then have inv: "daemon_inv d" "tables_ok d"
    using tables.run_inv [OF _ assms(2)] boot_inv [OF assms(1)] by blast+
  have "device_id_ok i" if "i \<in> paired (sh_trust d)" for i
  proof -
    have "i \<in> dom (names (sh_state d))"
      using that daemon_invD(1,2) [OF inv(1)] by (simp add: known_dom)
    then show ?thesis
      by (auto simp: names_def lookup_name_def split: if_splits)
  qed
  with inv(2) show ?thesis
    by (auto simp: tables_ok_def device_id_ok_def device_id_len_def ran_def dom_def inj_on_def)
qed

theorem daemon_tables_well_typed_witness:
  "distinct (map fst (sh_connected_devices paired_daemon)) \<and> length phone = 32"
proof -
  note ok = daemon_tables_well_typed [OF canonical_demo pairing_run [unfolded demo_daemon_def]]
  have "phone \<in> paired (sh_trust paired_daemon)"
    by (simp add: paired_daemon_phone)
  with ok show ?thesis by blast
qed

end
