(* ===== verification/Daemon_Network.thy ===== *)
theory Daemon_Network
  imports Daemon_Objects Daemon_Tables
begin

text \<open>
  The daemon behind its listener (\<open>crates/net/src/listener.rs\<close> feeding
  \<open>crates/daemon/src/orchestrator.rs\<close>): what the daemon's tables of connections hold, as a function
  of the events it has handled, and what follows when those events are the ones the listener's
  tasks and their sessions really send.
\<close>

section \<open>What the events say\<close>

text \<open>
  The connections that are up by address, and who introduced themselves there, as an observer of
  the channel knows them.
\<close>

type_synonym view = "(socket_addr \<Rightarrow> nat option) \<times> (socket_addr \<Rightarrow> device_id option)"

fun note_event :: "listener_event \<Rightarrow> view \<Rightarrow> view" where
  "note_event (LConnected r conn) (up, who) = (up(r \<mapsto> conn), who)"
| "note_event (LSession r (EvPeerHandshake i n caps tok)) (up, who) = (up, who(r \<mapsto> i))"
| "note_event (LSession r (EvClosed reason)) (up, who) = (up(r := None), who(r := None))"
| "note_event (LSession r (EvPonged rtt)) v = v"
| "note_event (LSession r (EvClipboardReceived clip)) v = v"

definition observed :: "listener_event list \<Rightarrow> view" where
  "observed evs = fold note_event evs (\<lambda>_. None, \<lambda>_. None)"

text \<open>The two tables of \<open>Shared\<close> this is about.\<close>

definition routes :: "daemon \<Rightarrow> view" where
  "routes d = (sh_remote_handles d, sh_remote_to_device d)"

lemma set_connected_routes:
  "set_connected i b d = (out, d') \<Longrightarrow>
     routes d' = routes d \<and> dm_queue d' = dm_queue d \<and> sh_connected_devices d' = sh_connected_devices d \<and>
     dm_confirming d' = dm_confirming d"
  by (auto simp: set_connected_def routes_def split: option.splits if_splits)

lemma ensure_device_object_routes:
  "routes (ensure_device_object i n d) = routes d" "dm_queue (ensure_device_object i n d) = dm_queue d"
  "sh_connected_devices (ensure_device_object i n d) = sh_connected_devices d"
  "dm_confirming (ensure_device_object i n d) = dm_confirming d"
  by (simp_all add: ensure_device_object_def routes_def split: option.split)

lemma mark_connected_routes:
  assumes "mark_connected r i n d = (out, d')"
  shows "routes d' = routes d \<and> dm_queue d' = dm_queue d \<and> dm_confirming d' = dm_confirming d \<and>
    sh_connected_devices d' =
      (case sh_remote_handles d r of None \<Rightarrow> sh_connected_devices d
       | Some conn \<Rightarrow> AList.update i conn (sh_connected_devices d))"
proof -
  obtain out1 d1 where c: "set_connected i True (ensure_device_object i n d) = (out1, d1)"
    by (metis surj_pair)
  note same = set_connected_routes [OF c, unfolded ensure_device_object_routes]
  then have "sh_remote_handles d1 r = sh_remote_handles d r"
    by (simp add: routes_def)
  with same show ?thesis
    using assms c by (auto simp: mark_connected_def routes_def split: option.splits)
qed

lemma persist_state_routes:
  "persist_state env fates d = (out, d') \<Longrightarrow>
     routes d' = routes d \<and> dm_queue d' = dm_queue d \<and> sh_connected_devices d' = sh_connected_devices d \<and>
     dm_confirming d' = dm_confirming d"
  by (auto simp: persist_state_def routes_def split: outcome.splits prod.splits)

lemma handle_handshake_routes:
  assumes "handle_handshake r i n tok now d = (out, d')"
  shows "routes d' = routes d \<and> dm_queue d' = dm_queue d"
proof (cases "is_paired (sh_trust d) i")
  case True
  then show ?thesis
    using assms mark_connected_routes by (simp add: handle_handshake_def)
next
  case False
  then show ?thesis
    using assms
    by (auto simp: handle_handshake_def redeem_current_def await_confirmation_def Let_def routes_def
        split: option.splits prod.splits bool.splits)
qed

lemma handle_closed_routes:
  assumes "handle_closed r d = (out, d')"
  shows "routes d' = note_event (LSession r (EvClosed reason)) (routes d) \<and> dm_queue d' = dm_queue d \<and>
    dm_confirming d' = dm_confirming d \<and>
    sh_connected_devices d' =
      (case sh_remote_to_device d r of None \<Rightarrow> sh_connected_devices d
       | Some i \<Rightarrow> AList.delete i (sh_connected_devices d))"
  using assms
  by (auto simp: handle_closed_def Let_def routes_def split: option.splits dest!: set_connected_routes)

lemma handle_received_routes:
  "handle_received sender clip d = (out, d') \<Longrightarrow>
     routes d' = routes d \<and> dm_queue d' = dm_queue d \<and> sh_connected_devices d' = sh_connected_devices d \<and>
     dm_confirming d' = dm_confirming d"
  by (auto simp: handle_received_def routes_def split: option.splits if_splits prod.splits bool.splits)

lemma handle_session_event_routes:
  assumes "handle_session_event r ev now d = (out, d')"
  shows "routes d' = note_event (LSession r ev) (routes d) \<and> dm_queue d' = dm_queue d"
proof (cases ev)
  case (EvPeerHandshake i n caps tok)
  then show ?thesis
    using assms handle_handshake_routes by (fastforce simp: handle_session_event_def routes_def)
next
  case (EvClosed reason)
  then show ?thesis
    using assms handle_closed_routes by (simp add: handle_session_event_def)
next
  case (EvClipboardReceived clip)
  then show ?thesis
    using assms handle_received_routes by (auto simp: handle_session_event_def split: option.splits)
qed (use assms in \<open>simp add: handle_session_event_def\<close>)

text \<open>A turn of the event loop handles the next event, or none.\<close>

lemma orchestrator_turn_routes:
  assumes "orchestrator_turn now d = (out, d')"
  obtains (idle) "out = []" "d' = d" "dm_confirming d \<noteq> None \<or> dm_queue d = []"
    | (up) r conn q where "dm_confirming d = None" "dm_queue d = LConnected r conn # q"
        "d' = d\<lparr>dm_queue := q, sh_remote_handles := (sh_remote_handles d)(r \<mapsto> conn)\<rparr>"
    | (session) r ev q where "dm_confirming d = None" "dm_queue d = LSession r ev # q"
        "handle_session_event r ev now (d\<lparr>dm_queue := q\<rparr>) = (out, d')"
  using assms by (auto simp: orchestrator_turn_def split: if_splits list.splits listener_event.splits)

definition follows :: "listener_event list \<Rightarrow> daemon \<Rightarrow> daemon \<Rightarrow> bool" where
  "follows new d d' \<longleftrightarrow>
     (\<exists>handled. dm_queue d @ new = handled @ dm_queue d' \<and> routes d' = fold note_event handled (routes d))"

lemma follows_same: "routes d' = routes d \<Longrightarrow> dm_queue d' = dm_queue d \<Longrightarrow> follows [] d d'"
  by (simp add: follows_def)

lemma follows_trans: "follows xs d d1 \<Longrightarrow> follows ys d1 d2 \<Longrightarrow> follows (xs @ ys) d d2"
  unfolding follows_def
proof (elim exE conjE)
  fix h1 h2
  assume 1: "dm_queue d @ xs = h1 @ dm_queue d1" "routes d1 = fold note_event h1 (routes d)"
    and 2: "dm_queue d1 @ ys = h2 @ dm_queue d2" "routes d2 = fold note_event h2 (routes d1)"
  have "dm_queue d @ xs @ ys = (h1 @ h2) @ dm_queue d2"
    using 1(1) 2(1) by (metis append.assoc)
  with 1(2) 2(2) show "\<exists>h. dm_queue d @ xs @ ys = h @ dm_queue d2 \<and> routes d2 = fold note_event h (routes d)"
    by (intro exI [of _ "h1 @ h2"]) simp
qed

lemma orchestrator_turn_follows: "orchestrator_turn now d = (out, d') \<Longrightarrow> follows [] d d'"
proof (erule orchestrator_turn_routes)
  assume "d' = d"
  then show ?thesis by (simp add: follows_same)
next
  fix r conn q assume "dm_queue d = LConnected r conn # q"
    "d' = d\<lparr>dm_queue := q, sh_remote_handles := (sh_remote_handles d)(r \<mapsto> conn)\<rparr>"
  then show ?thesis
    unfolding follows_def by (intro exI [of _ "[LConnected r conn]"]) (simp add: routes_def)
next
  fix r ev q assume "dm_queue d = LSession r ev # q" "handle_session_event r ev now (d\<lparr>dm_queue := q\<rparr>) = (out, d')"
  with handle_session_event_routes [OF this(2)] show ?thesis
    unfolding follows_def by (intro exI [of _ "[LSession r ev]"]) (simp add: routes_def)
qed

lemma finish_pairing_routes:
  assumes "finish_pairing env fates c (d\<lparr>dm_confirming := None\<rparr>) = (out, d')"
  shows "routes d' = routes d \<and> dm_queue d' = dm_queue d \<and> dm_confirming d' = None \<and>
    (sh_connected_devices d' = sh_connected_devices d \<or>
     (\<exists>conn. sh_remote_handles d (cf_remote c) = Some conn \<and>
        sh_connected_devices d' = AList.update (cf_device c) conn (sh_connected_devices d)))"
proof -
  define d1 where "d1 = d\<lparr>dm_confirming := None, sh_trust := close_pairing_window (pin (sh_trust d) (cf_device c)),
    sh_state := upsert (sh_state d) (cf_device c) (cf_name c)\<rparr>"
  obtain out2 d2 where p: "persist_state env fates d1 = (out2, d2)"
    by (metis surj_pair)
  have d2: "routes d2 = routes d" "dm_queue d2 = dm_queue d" "dm_confirming d2 = None"
    "sh_connected_devices d2 = sh_connected_devices d"
    using persist_state_routes [OF p] by (simp_all add: d1_def routes_def)
  then have handles: "sh_remote_handles d2 = sh_remote_handles d"
    by (simp add: routes_def)
  obtain out3 d3 where m: "mark_connected (cf_remote c) (cf_device c) (cf_name c) d2 = (out3, d3)"
    by (metis surj_pair)
  have "d' = d2 \<or> d' = d3"
    using assms p m by (auto simp: finish_pairing_def Let_def d1_def split: if_splits)
  with d2 handles mark_connected_routes [OF m] show ?thesis
    by (auto split: option.splits)
qed

lemma typed_step_follows:
  assumes "typed_step env d i = Some (out, d')" and "dm_alive d"
  shows "follows (net_events [i]) d d'"
proof -
  have same: "follows (net_events [i]) d d'"
    if "routes d' = routes d" "dm_queue d' = dm_queue d" "net_events [i] = []"
    using that by (simp add: follows_same)
  note silent = net_events_def List.map_filter_def
  from assms(1) show ?thesis
  proof (cases rule: typed_stepE)
    case dead
    then show ?thesis using assms(2) by simp
  next
    case (net ev)
    then show ?thesis
      unfolding follows_def by (intro exI [of _ "[]"]) (simp add: silent routes_def)
  next
    case (orchestrator now)
    then show ?thesis
      using orchestrator_turn_follows [OF orchestrator(3)] by (simp add: silent)
  next
    case (confirmation now fates)
    have none: "net_events [i] = []"
      using confirmation(2) by (simp add: silent)
    from confirmation(3) show ?thesis
    proof (cases rule: confirmation_turnE)
      case (accepted c)
      with finish_pairing_routes [OF accepted(2)] none show ?thesis
        by (intro same) simp_all
    qed (use none in \<open>auto intro!: follows_same simp: routes_def\<close>)
  next
    case (start os random now)
    then show ?thesis
      by (intro same) (auto simp: start_pairing_def Let_def routes_def silent split: option.splits)
  next
    case (answer hex accept)
    then show ?thesis
      by (intro same) (auto simp: confirm_pairing_def Let_def routes_def silent split: option.splits if_splits)
  next
    case (revoke hex fates)
    then show ?thesis
      by (intro same)
        (auto simp: dbus_unpair_def Let_def routes_def silent split: option.splits prod.splits if_splits
          dest!: persist_state_routes)
  next
    case (change c r)
    then show ?thesis
      by (intro same)
        (auto simp: watch_and_broadcast_def routes_def silent split: if_splits sum.splits prod.splits bool.splits)
  qed
qed

lemma net_events_Cons: "net_events (i # inputs) = net_events [i] @ net_events inputs"
  by (simp add: net_events_def List.map_filter_def)

lemma run_follows:
  "run_daemon env d inputs = Some (outs, d') \<Longrightarrow> dm_alive d' \<Longrightarrow> follows (net_events inputs) d d'"
proof (induction inputs arbitrary: d outs)
  case Nil
  then show ?case by (simp add: net_events_def List.map_filter_def follows_same)
next
  case (Cons i inputs)
  from Cons.prems(1) obtain os1 d1 os2 where s: "typed_step env d i = Some (os1, d1)" "run_daemon env d1 inputs = Some (os2, d')"
    by (rule run_steps_ConsE)
  have "follows (net_events [i]) d d1"
    using typed_step_follows [OF s(1)] alive_before [OF Cons.prems] by simp
  then have "follows (net_events [i] @ net_events inputs) d d'"
    using Cons.IH [OF s(2) Cons.prems(2)] by (rule follows_trans)
  then show ?case
    by (simp only: net_events_Cons [of i inputs])
qed

lemma boot_routes:
  "routes (boot from_str ident name addr dir backend fs) = (\<lambda>_. None, \<lambda>_. None)"
  "dm_queue (boot from_str ident name addr dir backend fs) = []"
  by (simp_all add: boot_def Let_def routes_def)

lemma run_observed:
  assumes "run_daemon env (boot from_str ident name addr dir backend fs) inputs = Some (outs, d')" and "dm_alive d'"
  obtains handled where "net_events inputs = handled @ dm_queue d'" "routes d' = observed handled"
  using run_follows [OF assms] by (auto simp: follows_def boot_routes observed_def)

text \<open>
  C17. The connection tables are the event log. Whatever else happens to a living daemon (questions
  to a human that hold events up, D-Bus calls, clipboard changes, failing saves): its table of
  handles and its table of identities are at every moment exactly what the network events it
  has handled so far say, it has handled them in the order in which they were sent, and the
  rest is still in its queue. No event is lost, repeated or reordered.
\<close>

theorem tables_follow_events:
  assumes "run_daemon env (boot from_str ident name addr dir backend fs) inputs = Some (outs, d')" and "dm_alive d'"
  shows "\<exists>handled. net_events inputs = handled @ dm_queue d' \<and>
    (sh_remote_handles d', sh_remote_to_device d') = observed handled"
  using run_observed [OF assms] by (metis routes_def)

theorem tables_follow_events_witness:
  "(sh_remote_handles paired_daemon, sh_remote_to_device paired_daemon) = observed (net_events pairing_inputs)"
proof -
  have "length (dm_queue paired_daemon) = 0"
    unfolding paired_daemon_def pairing_inputs_def
    by (simp add: demo_boot run_defs demo_steps demo_env_def from_secs_def)
  with tables_follow_events [OF pairing_run [unfolded demo_daemon_def] paired_daemon_phone(7)]
  show ?thesis by simp
qed

end
