(* ===== verification/Daemon_Log.thy ===== *)
theory Daemon_Log
  imports Daemon_Network
begin

text \<open>
  Who the daemon sends clips to and whom it shows as connected, told from the events it has
  handled: nothing is assumed of the order in which the listener's tasks send them. The code
  keeps the table of recipients and the \<open>Connected\<close> properties apart and updates them one after
  the other (\<open>crates/daemon/src/orchestrator.rs\<close>, \<open>dbus.rs\<close>).
\<close>

section \<open>Reading the log\<close>

text \<open>
  The event closes device \<open>i\<close>: it is the end of a connection from the address under which \<open>i\<close> was
  the last to introduce itself.
\<close>

fun closes :: "listener_event list \<Rightarrow> listener_event \<Rightarrow> device_id \<Rightarrow> bool" where
  "closes before (LSession r (EvClosed reason)) i \<longleftrightarrow> snd (observed before) r = Some i"
| "closes before _ i \<longleftrightarrow> False"

text \<open>
  Device \<open>i\<close> introduced itself at an address where \<open>conn\<close> was the connection that was up (or
  none), and no event since then closed it.
\<close>

definition met :: "listener_event list \<Rightarrow> device_id \<Rightarrow> nat option \<Rightarrow> bool" where
  "met log i conn \<longleftrightarrow>
     (\<exists>pre r n caps tok post. log = pre @ LSession r (EvPeerHandshake i n caps tok) # post \<and> fst (observed pre) r = conn \<and>
        (\<forall>a ev b. post = a @ ev # b \<longrightarrow> \<not> closes (pre @ LSession r (EvPeerHandshake i n caps tok) # a) ev i))"

lemma observed_snoc: "observed (log @ [ev]) = note_event ev (observed log)"
  by (simp add: observed_def)

lemma met_now: "met (pre @ [LSession r (EvPeerHandshake i n caps tok)]) i (fst (observed pre) r)"
  unfolding met_def by (intro exI [of _ pre] exI [of _ "[]"] exI conjI) (rule refl, rule refl, simp)

lemma met_snoc:
  assumes "met log i conn" and "\<not> closes log ev i"
  shows "met (log @ [ev]) i conn"
proof -
  from assms(1) obtain pre r n caps tok post where
    log: "log = pre @ LSession r (EvPeerHandshake i n caps tok) # post" "fst (observed pre) r = conn"
    and since: "\<forall>a e b. post = a @ e # b \<longrightarrow> \<not> closes (pre @ LSession r (EvPeerHandshake i n caps tok) # a) e i"
    unfolding met_def by blast
  have "\<not> closes (pre @ LSession r (EvPeerHandshake i n caps tok) # a) e i" if "post @ [ev] = a @ e # b" for a e b
  proof (cases b rule: rev_cases)
    case Nil
    then have "a = post" "e = ev"
      using that by simp_all
    then show ?thesis
      using assms(2) log(1) by simp
  next
    case (snoc b' z)
    then have "post = a @ e # b'"
      using that by (metis append_Cons append_assoc butlast_snoc)
    then show ?thesis
      using since by blast
  qed
  then show ?thesis
    unfolding met_def using log
    by (intro exI [of _ pre] exI [of _ r] exI [of _ n] exI [of _ caps] exI [of _ tok] exI [of _ "post @ [ev]"]) simp
qed

section \<open>What the operations do to the objects\<close>

lemma mark_connected_objects:
  assumes "mark_connected r i n d = (out, d')"
  shows "\<exists>ob. dm_objects d' = (dm_objects d)(device_path i \<mapsto> ob) \<and> d1_connected ob"
proof -
  obtain ob where ob: "dm_objects (ensure_device_object i n d) = (dm_objects d)(device_path i \<mapsto> ob)"
  proof (cases "dm_objects d (device_path i)")
    case None
    then show thesis using that by (auto simp: ensure_device_object_def)
  next
    case (Some a)
    then show thesis using that [of a] by (simp add: ensure_device_object_def fun_upd_idem)
  qed
  obtain out1 d1 where c: "set_connected i True (ensure_device_object i n d) = (out1, d1)"
    by (metis surj_pair)
  then have "dm_objects d1 = (dm_objects d)(device_path i \<mapsto> ob\<lparr>d1_connected := True\<rparr>)"
    using ob by (auto simp: set_connected_def split: if_splits)
  moreover have "dm_objects d' = dm_objects d1"
    using assms c by (auto simp: mark_connected_def split: option.splits)
  ultimately show ?thesis by auto
qed

lemma handle_closed_objects:
  assumes "handle_closed r d = (out, d')"
  shows "dm_objects d' =
    (case sh_remote_to_device d r of
       None \<Rightarrow> dm_objects d
     | Some i \<Rightarrow> (dm_objects d)(device_path i := map_option (\<lambda>ob. ob\<lparr>d1_connected := False\<rparr>) (dm_objects d (device_path i))))"
  using assms
  by (auto simp: handle_closed_def Let_def set_connected_def fun_upd_idem split: option.splits if_splits)

section \<open>The invariant of the log\<close>

text \<open>
  The recipients have been met on their connection; they are shown as connected; whoever else is
  has been met where no connection was up; a question is about the device met last, which is
  why the event loop waits.
\<close>

definition log_inv :: "listener_event list \<Rightarrow> daemon \<Rightarrow> bool" where
  "log_inv log d \<longleftrightarrow>
     routes d = observed log \<and>
     (\<forall>i conn. map_of (sh_connected_devices d) i = Some conn \<longrightarrow> met log i (Some conn)) \<and>
     (\<forall>i ob. device_id_ok i \<longrightarrow> dm_objects d (device_path i) = Some ob \<longrightarrow>
        (if i \<in> dom (map_of (sh_connected_devices d)) then d1_connected ob else d1_connected ob \<longrightarrow> met log i None)) \<and>
     (\<forall>c. dm_confirming d = Some c \<longrightarrow>
        (\<exists>pre n caps tok. log = pre @ [LSession (cf_remote c) (EvPeerHandshake (cf_device c) n caps tok)]))"

lemma log_invD:
  assumes "log_inv log d"
  shows "routes d = observed log"
    and "map_of (sh_connected_devices d) i = Some conn \<Longrightarrow> met log i (Some conn)"
    and "device_id_ok i \<Longrightarrow> dm_objects d (device_path i) = Some ob \<Longrightarrow> map_of (sh_connected_devices d) i = Some conn \<Longrightarrow> d1_connected ob"
    and "device_id_ok i \<Longrightarrow> dm_objects d (device_path i) = Some ob \<Longrightarrow> map_of (sh_connected_devices d) i = None \<Longrightarrow>
      d1_connected ob \<Longrightarrow> met log i None"
  using assms unfolding log_inv_def by (fastforce split: if_splits)+

text \<open>An event that closes nobody, and a step that keeps what the invariant reads.\<close>

lemma log_inv_quiet:
  assumes "log_inv log d" and "\<forall>i. \<not> closes log ev i" and "routes d' = note_event ev (routes d)"
    and "sh_connected_devices d' = sh_connected_devices d" and "dm_objects d' = dm_objects d"
    and "\<forall>c. dm_confirming d' = Some c \<longrightarrow>
      (\<exists>n caps tok. ev = LSession (cf_remote c) (EvPeerHandshake (cf_device c) n caps tok))"
  shows "log_inv (log @ [ev]) d'"
  using assms met_snoc [of log _ _ ev] unfolding log_inv_def by (simp add: observed_snoc)

lemma log_inv_same:
  assumes "log_inv log d" and "routes d' = routes d" and "sh_connected_devices d' = sh_connected_devices d"
    and "\<forall>p. dm_objects d' p = dm_objects d p \<or> dm_objects d' p = None"
    and "\<forall>c'. dm_confirming d' = Some c' \<longrightarrow>
        (\<exists>c. dm_confirming d = Some c \<and> cf_remote c' = cf_remote c \<and> cf_device c' = cf_device c)"
  shows "log_inv log d'"
proof -
  have "dm_objects d' p = Some ob \<Longrightarrow> dm_objects d p = Some ob" for p ob
    using assms(4) by (metis option.distinct(1))
  then show ?thesis
    using assms(1-3,5) unfolding log_inv_def by fastforce
qed

text \<open>A device is marked as connected right after its introduction.\<close>

lemma log_inv_mark:
  assumes "mark_connected r i n d = (out, d')" and "device_id_ok i" and "dm_confirming d = None"
    and "routes d = observed log" and "log = pre @ [LSession r (EvPeerHandshake i n' caps tok)]"
    and "\<forall>j conn. map_of (sh_connected_devices d) j = Some conn \<longrightarrow> met log j (Some conn)"
    and "\<forall>j ob. device_id_ok j \<longrightarrow> dm_objects d (device_path j) = Some ob \<longrightarrow>
        (if j \<in> dom (map_of (sh_connected_devices d)) then d1_connected ob else d1_connected ob \<longrightarrow> met log j None)"
  shows "log_inv log d'"
proof -
  note m = mark_connected_routes [OF assms(1)]
  obtain ob where ob: "dm_objects d' = (dm_objects d)(device_path i \<mapsto> ob)" "d1_connected ob"
    using mark_connected_objects [OF assms(1)] by blast
  have "fst (observed log) r = fst (observed pre) r"
    unfolding assms(5) observed_snoc by (cases "observed pre") simp
  moreover have "sh_remote_handles d r = fst (observed log) r"
    using assms(4) by (auto simp: routes_def dest: arg_cong [of _ _ fst])
  ultimately have now: "met log i (sh_remote_handles d r)"
    unfolding assms(5) using met_now by metis
  have table: "map_of (sh_connected_devices d') j =
      (if j = i \<and> sh_remote_handles d r \<noteq> None then sh_remote_handles d r else map_of (sh_connected_devices d) j)" for j
    using m by (auto simp: update_conv' split: option.splits)
  have objects: "(if j \<in> dom (map_of (sh_connected_devices d')) then d1_connected ob' else d1_connected ob' \<longrightarrow> met log j None)"
    if j: "device_id_ok j" and ob': "dm_objects d' (device_path j) = Some ob'" for j ob'
  proof (cases "j = i")
    case True
    then show ?thesis
      using ob ob' now table [of i] by (cases "sh_remote_handles d r") (auto simp: dom_def)
  next
    case False
    then have "dm_objects d (device_path j) = Some ob'"
      using ob(1) ob' j assms(2) by simp
    then show ?thesis
      using assms(7) j table [of j] False by (simp add: dom_def)
  qed
  moreover have "met log j (Some conn)" if "map_of (sh_connected_devices d') j = Some conn" for j conn
    using that table [of j] now assms(6) by (auto split: if_splits)
  moreover have "routes d' = observed log" "dm_confirming d' = None"
    using m assms(3,4) by simp_all
  ultimately show ?thesis
    unfolding log_inv_def by auto
qed

lemma handle_handshake_log:
  assumes "handle_handshake r i n tok now d = (out, d')" and "dm_confirming d = None" and "device_id_ok i"
    and "log_inv log (d\<lparr>sh_remote_to_device := who\<rparr>)"
    and "routes d = observed (log @ [LSession r (EvPeerHandshake i n caps tok)])"
  shows "log_inv (log @ [LSession r (EvPeerHandshake i n caps tok)]) d'" (is "log_inv ?log d'")
proof -
  have "met log j conn \<Longrightarrow> met ?log j conn" for j conn
    by (rule met_snoc) simp_all
  then have kept: "\<forall>j conn. map_of (sh_connected_devices d) j = Some conn \<longrightarrow> met ?log j (Some conn)"
    "\<forall>j ob. device_id_ok j \<longrightarrow> dm_objects d (device_path j) = Some ob \<longrightarrow>
        (if j \<in> dom (map_of (sh_connected_devices d)) then d1_connected ob else d1_connected ob \<longrightarrow> met ?log j None)"
    using assms(4) unfolding log_inv_def by (auto split: if_splits)
  show ?thesis
  proof (cases "is_paired (sh_trust d) i")
    case True
    then have "mark_connected r i n d = (out, d')"
      using assms(1) by (simp add: handle_handshake_def)
    then show ?thesis
      using assms(3,2,5) refl kept by (rule log_inv_mark)
  next
    case False
    then have "routes d' = routes d" "sh_connected_devices d' = sh_connected_devices d" "dm_objects d' = dm_objects d"
      "\<forall>c. dm_confirming d' = Some c \<longrightarrow> cf_remote c = r \<and> cf_device c = i"
      using assms(1,2)
      by (auto simp: handle_handshake_def redeem_current_def await_confirmation_def Let_def routes_def
          split: option.splits prod.splits bool.splits)
    then show ?thesis
      using kept assms(5) unfolding log_inv_def by auto
  qed
qed

lemma handle_closed_log:
  assumes "handle_closed r d = (out, d')" and "dm_confirming d = None" and "tables_ok d" and "log_inv log d"
  shows "log_inv (log @ [LSession r (EvClosed reason)]) d'" (is "log_inv ?log d'")
proof (cases "sh_remote_to_device d r")
  case None
  then have "\<not> closes log (LSession r (EvClosed reason)) i" for i
    using log_invD(1) [OF assms(4)] by (auto simp: routes_def dest: arg_cong [of _ _ snd])
  then show ?thesis
    using handle_closed_routes [OF assms(1)] handle_closed_objects [OF assms(1)] assms(2) None
    by (intro log_inv_quiet [OF assms(4)]) auto
next
  case (Some i)
  have closed: "closes log (LSession r (EvClosed reason)) j \<longleftrightarrow> j = i" for j
    using log_invD(1) [OF assms(4)] Some by (auto simp: routes_def dest: arg_cong [of _ _ snd])
  then have kept: "j \<noteq> i \<Longrightarrow> met log j conn \<Longrightarrow> met ?log j conn" for j conn
    by (intro met_snoc) simp_all
  have i: "device_id_ok i"
    using assms(3) Some by (auto simp: tables_ok_def)
  note c = handle_closed_routes [OF assms(1)] handle_closed_objects [OF assms(1)]
  have table: "map_of (sh_connected_devices d') j = (if j = i then None else map_of (sh_connected_devices d) j)" for j
    using c(1) Some by (auto simp: delete_conv')
  have objects: "(if j \<in> dom (map_of (sh_connected_devices d')) then d1_connected ob else d1_connected ob \<longrightarrow> met ?log j None)"
    if j: "device_id_ok j" and ob: "dm_objects d' (device_path j) = Some ob" for j ob
  proof (cases "j = i")
    case True
    then show ?thesis
      using c(2) Some ob table [of i] by (auto simp: dom_def)
  next
    case False
    then have "dm_objects d (device_path j) = Some ob"
      using c(2) Some ob i j by simp
    then show ?thesis
      using log_invD(3,4) [OF assms(4) j] kept [OF False] table [of j] False
      by (cases "map_of (sh_connected_devices d) j") (simp_all add: dom_def)
  qed
  have "met ?log j (Some conn)" if "map_of (sh_connected_devices d') j = Some conn" for j conn
    using that table [of j] log_invD(2) [OF assms(4)] kept by (simp split: if_splits)
  moreover have "routes d' = observed ?log" "dm_confirming d' = None"
    using c(1) assms(2) log_invD(1) [OF assms(4)] by (simp_all add: observed_snoc)
  ultimately show ?thesis
    using objects unfolding log_inv_def by auto
qed

section \<open>Every run\<close>

lemma orchestrator_turn_log:
  assumes "orchestrator_turn now d = (out, d')" and "daemon_inv d" and "tables_ok d" and "log_inv log d"
  shows "\<exists>handled. dm_queue d = handled @ dm_queue d' \<and> log_inv (log @ handled) d'"
  using assms(1)
proof (cases rule: orchestrator_turn_routes)
  case idle
  then show ?thesis using assms(4) by simp
next
  case (up r conn q)
  then have "log_inv (log @ [LConnected r conn]) d'"
    by (intro log_inv_quiet [OF assms(4)]) (simp_all add: routes_def)
  with up(2,3) show ?thesis by auto
next
  case (session r ev q)
  let ?d1 = "d\<lparr>dm_queue := q\<rparr>"
  have one: "log_inv log ?d1" "dm_confirming ?d1 = None" "tables_ok ?d1"
    using assms(3,4) session(1) by (simp_all add: log_inv_def routes_def tables_ok_def)
  have "log_inv (log @ [LSession r ev]) d'"
  proof (cases ev)
    case (EvPeerHandshake i n caps tok)
    let ?d2 = "?d1\<lparr>sh_remote_to_device := (sh_remote_to_device ?d1)(r \<mapsto> i)\<rparr>"
    have "handle_handshake r i n tok now ?d2 = (out, d')"
      using session(3) EvPeerHandshake by (simp add: handle_session_event_def)
    moreover have "device_id_ok i"
      using daemon_invD(3) [OF assms(2)] session(2) EvPeerHandshake by fastforce
    moreover have "routes ?d2 = observed (log @ [LSession r (EvPeerHandshake i n caps tok)])"
      using log_invD(1) [OF assms(4), symmetric] by (simp add: observed_snoc routes_def)
    moreover have "log_inv log (?d2\<lparr>sh_remote_to_device := sh_remote_to_device d\<rparr>)"
      using one(1) by (simp add: log_inv_def routes_def)
    moreover have "dm_confirming ?d2 = None"
      using session(1) by simp
    ultimately show ?thesis
      unfolding EvPeerHandshake by (blast intro: handle_handshake_log)
  next
    case (EvClosed reason)
    then have "handle_closed r ?d1 = (out, d')"
      using session(3) by (simp add: handle_session_event_def)
    then show ?thesis
      using one EvClosed handle_closed_log by blast
  next
    case (EvPonged rtt)
    then show ?thesis
      using session(3) one by (intro log_inv_quiet [OF one(1)]) (auto simp: handle_session_event_def routes_def)
  next
    case (EvClipboardReceived clip)
    have "dm_objects d' = dm_objects d"
      using session(3) EvClipboardReceived
      by (auto simp: handle_session_event_def handle_received_def split: option.splits if_splits prod.splits bool.splits)
    then show ?thesis
      using session(3) one(2) EvClipboardReceived handle_received_routes
      by (intro log_inv_quiet [OF one(1)]) (auto simp: handle_session_event_def routes_def split: option.splits)
  qed
  moreover have "dm_queue d' = q"
    using handle_session_event_routes [OF session(3)] by simp
  ultimately show ?thesis
    using session(2) by auto
qed

lemma finish_pairing_log:
  assumes "finish_pairing env fates c (d\<lparr>dm_confirming := None\<rparr>) = (out, d')" and "dm_confirming d = Some c"
    and "device_id_ok (cf_device c)" and "log_inv log d"
  shows "log_inv log d'"
proof -
  define d1 where "d1 = d\<lparr>dm_confirming := None, sh_trust := close_pairing_window (pin (sh_trust d) (cf_device c)),
    sh_state := upsert (sh_state d) (cf_device c) (cf_name c)\<rparr>"
  obtain out2 d2 where p: "persist_state env fates d1 = (out2, d2)"
    by (metis surj_pair)
  have "dm_objects d2 = dm_objects d1"
    using p by (auto simp: persist_state_def split: outcome.splits prod.splits)
  then have d2: "routes d2 = routes d" "dm_confirming d2 = None" "sh_connected_devices d2 = sh_connected_devices d"
    "dm_objects d2 = dm_objects d"
    using persist_state_routes [OF p] by (simp_all add: d1_def routes_def)
  then have quiet: "log_inv log d2"
    by (intro log_inv_same [OF assms(4)]) simp_all
  obtain out3 d3 where m: "mark_connected (cf_remote c) (cf_device c) (cf_name c) d2 = (out3, d3)"
    by (metis surj_pair)
  obtain pre n caps tok where log: "log = pre @ [LSession (cf_remote c) (EvPeerHandshake (cf_device c) n caps tok)]"
    using assms(2,4) unfolding log_inv_def by blast
  have "log_inv log d3"
    using quiet by (intro log_inv_mark [OF m assms(3) d2(2) _ log]) (simp_all add: log_inv_def)
  moreover have "d' = d2 \<or> d' = d3"
    using assms(1) p m by (auto simp: finish_pairing_def Let_def d1_def split: if_splits)
  ultimately show ?thesis
    using quiet by auto
qed

lemma dbus_unpair_log:
  assumes "dbus_unpair env fates hex d = (out, d')" and "log_inv log d"
  shows "log_inv log d' \<and> dm_queue d' = dm_queue d"
proof -
  have objects: "persist_state env fates e = (os, e') \<Longrightarrow> dm_objects e' = dm_objects e" for e os e'
    by (auto simp: persist_state_def split: outcome.splits prod.splits)
  have "routes d' = routes d" "sh_connected_devices d' = sh_connected_devices d" "dm_confirming d' = dm_confirming d"
    "dm_queue d' = dm_queue d"
    using assms(1)
    by (auto simp: dbus_unpair_def Let_def routes_def split: option.splits prod.splits if_splits dest!: persist_state_routes)
  moreover have "\<forall>p. dm_objects d' p = dm_objects d p \<or> dm_objects d' p = None"
    using assms(1) by (auto simp: dbus_unpair_def Let_def split: option.splits prod.splits if_splits dest!: objects)
  ultimately show ?thesis
    using log_inv_same [OF assms(2)] by simp
qed

lemma typed_step_log:
  assumes "typed_step env d i = Some (out, d')" and "dm_alive d" and "daemon_inv d" and "tables_ok d" and "log_inv log d"
  shows "\<exists>handled. dm_queue d @ net_events [i] = handled @ dm_queue d' \<and> log_inv (log @ handled) d'"
proof -
  note silent = net_events_def List.map_filter_def
  have same: ?thesis if "log_inv log d'" "dm_queue d' = dm_queue d" "net_events [i] = []"
    using that by (intro exI [of _ "[]"]) simp
  note kept = log_inv_same [OF assms(5), of d']
  from assms(1) show ?thesis
  proof (cases rule: typed_stepE)
    case dead
    then show ?thesis using assms(2) by simp
  next
    case (net ev)
    then have "log_inv log d'"
      by (intro kept) (simp_all add: routes_def)
    with net show ?thesis
      by (intro exI [of _ "[]"]) (simp add: silent)
  next
    case (orchestrator now)
    then show ?thesis
      using orchestrator_turn_log [OF orchestrator(3) assms(3-5)] by (simp add: silent)
  next
    case (confirmation now fates)
    have none: "net_events [i] = []"
      using confirmation(2) by (simp add: silent)
    from confirmation(3) show ?thesis
    proof (cases rule: confirmation_turnE)
      case (accepted c)
      then have "device_id_ok (cf_device c)"
        using assms(3) by (auto simp: daemon_inv_def channels_ok_def)
      then have "log_inv log d'"
        using finish_pairing_log [OF accepted(2,1)] assms(5) by blast
      then show ?thesis
        using finish_pairing_routes [OF accepted(2)] none by (intro same) simp_all
    qed (use none in \<open>intro same kept; simp add: routes_def\<close>)+
  next
    case (start os random now)
    then show ?thesis
      by (intro same kept) (auto simp: start_pairing_def Let_def routes_def silent split: option.splits)
  next
    case (answer hex accept)
    then show ?thesis
      by (intro same kept) (auto simp: confirm_pairing_def Let_def routes_def silent split: option.splits if_splits)
  next
    case (revoke hex fates)
    then show ?thesis
      using dbus_unpair_log [OF revoke(3) assms(5)] by (intro same) (simp_all add: silent)
  next
    case (change c r)
    then show ?thesis
      by (intro same kept)
        (auto simp: watch_and_broadcast_def routes_def silent split: if_splits sum.splits prod.splits bool.splits)
  qed
qed

lemma run_log:
  "run_daemon env d inputs = Some (outs, d') \<Longrightarrow> dm_alive d' \<Longrightarrow> daemon_inv d \<Longrightarrow> tables_ok d \<Longrightarrow> log_inv log d \<Longrightarrow>
     \<exists>handled. dm_queue d @ net_events inputs = handled @ dm_queue d' \<and> log_inv (log @ handled) d'"
proof (induction inputs arbitrary: d outs log)
  case Nil
  then show ?case by (simp add: net_events_def List.map_filter_def)
next
  case (Cons i inputs)
  from Cons.prems(1) obtain os1 d1 os2 where s: "typed_step env d i = Some (os1, d1)" "run_daemon env d1 inputs = Some (os2, d')"
    by (rule run_steps_ConsE)
  obtain h1 where h1: "dm_queue d @ net_events [i] = h1 @ dm_queue d1" "log_inv (log @ h1) d1"
    using typed_step_log [OF s(1) alive_before [OF Cons.prems(1,2)] Cons.prems(3-5)] by blast
  have "daemon_inv d1" "tables_ok d1"
    using tables.step_inv [of d env i os1 d1] s(1) Cons.prems(3,4) by simp_all
  then obtain h2 where h2: "dm_queue d1 @ net_events inputs = h2 @ dm_queue d'" "log_inv ((log @ h1) @ h2) d'"
    using Cons.IH [OF s(2) Cons.prems(2) _ _ h1(2)] by blast
  have "dm_queue d @ net_events (i # inputs) = (h1 @ h2) @ dm_queue d'"
    using h1(1) h2(1) net_events_Cons [of i inputs] by (metis append.assoc)
  then show ?case
    using h2(2) by (intro exI [of _ "h1 @ h2"]) simp
qed

lemma restored_disconnected:
  "fold restore_object ds objs p = Some ob \<Longrightarrow> \<forall>ob'. objs p = Some ob' \<longrightarrow> \<not> d1_connected ob' \<Longrightarrow> \<not> d1_connected ob"
proof (induction ds arbitrary: objs)
  case Nil
  then show ?case by simp
next
  case (Cons x ds)
  have "\<forall>ob'. restore_object x objs p = Some ob' \<longrightarrow> \<not> d1_connected ob'"
    using Cons.prems(2) by (auto simp: restore_object_def split: option.splits)
  with Cons.IH [of "restore_object x objs"] Cons.prems(1) show ?case
    by simp
qed

lemma boot_log: "log_inv [] (boot from_str ident name addr dir backend fs)"
proof -
  let ?d = "boot from_str ident name addr dir backend fs"
  have start: "sh_connected_devices ?d = []" "dm_confirming ?d = None" "routes ?d = observed []"
    by (simp_all add: boot_def Let_def routes_def observed_def)
  have "\<not> d1_connected ob" if "dm_objects ?d p = Some ob" for p ob
  proof (rule restored_disconnected)
    show "fold restore_object (devices (load from_str fs (join dir ''devices.json''))) Map.empty p = Some ob"
      using that by (simp add: boot_def Let_def)
  qed simp
  then show ?thesis
    unfolding log_inv_def start by auto
qed

lemma run_logged:
  assumes "canonical (load from_str fs (join dir ''devices.json''))"
    and "run_daemon env (boot from_str ident name addr dir backend fs) inputs = Some (outs, d')" and "dm_alive d'"
  obtains handled where "net_events inputs = handled @ dm_queue d'" "log_inv handled d'" "distinct (map fst (sh_connected_devices d'))"
proof -
  let ?boot = "boot from_str ident name addr dir backend fs"
  have tables: "tables_ok ?boot"
    by (simp add: tables_ok_def boot_def Let_def)
  have inv: "daemon_inv ?boot"
    using boot_inv [OF assms(1)] by blast
  obtain handled where h: "net_events inputs = handled @ dm_queue d'" "log_inv handled d'"
    using run_log [OF assms(2,3) inv tables boot_log] unfolding boot_routes(2) append_Nil by blast
  have "tables_ok d'"
    using tables.run_inv [OF _ assms(2)] inv tables by blast
  then have "distinct (map fst (sh_connected_devices d'))"
    by (simp add: tables_ok_def)
  with h show thesis by (rule that)
qed

section \<open>From start-up\<close>

text \<open>
  C11. Whom clips go to. After every run of the daemon from start-up, whatever events arrive in
  whatever order (also when a phone redials from the address of a connection that is not yet
  seen to be over) and whatever else happens in between: every entry of the table that clips are
  sent along goes back to a handled introduction of that very device; the connection it names
  was the one up at that address at that moment, announced and not closed since; and after the
  introduction no close has been handled of a connection from an address under which this device
  was the last to introduce itself. A device that was never introduced, or whose close has been
  handled, gets no clips.
\<close>

theorem clips_go_to_live_connections:
  assumes "canonical (load from_str fs (join dir ''devices.json''))"
    and "run_daemon env (boot from_str ident name addr dir backend fs) inputs = Some (outs, d')" and "dm_alive d'"
  shows "\<exists>handled. net_events inputs = handled @ dm_queue d' \<and>
    (\<forall>i conn. (i, conn) \<in> set (sh_connected_devices d') \<longrightarrow>
       (\<exists>pre r n caps tok post. handled = pre @ LSession r (EvPeerHandshake i n caps tok) # post \<and>
          fst (observed pre) r = Some conn \<and>
          (\<forall>a r' reason b. post = a @ LSession r' (EvClosed reason) # b \<longrightarrow>
             snd (observed (pre @ LSession r (EvPeerHandshake i n caps tok) # a)) r' \<noteq> Some i)))"
proof -
  obtain handled where h: "net_events inputs = handled @ dm_queue d'" "log_inv handled d'"
    "distinct (map fst (sh_connected_devices d'))"
    using run_logged [OF assms] .
  have "\<exists>pre r n caps tok post. handled = pre @ LSession r (EvPeerHandshake i n caps tok) # post \<and>
      fst (observed pre) r = Some conn \<and>
      (\<forall>a r' reason b. post = a @ LSession r' (EvClosed reason) # b \<longrightarrow>
         snd (observed (pre @ LSession r (EvPeerHandshake i n caps tok) # a)) r' \<noteq> Some i)"
    if "(i, conn) \<in> set (sh_connected_devices d')" for i conn
    using log_invD(2) [OF h(2) map_of_is_SomeI [OF h(3) that]] unfolding met_def by (metis closes.simps(1))
  then show ?thesis
    using h(1) by blast
qed

text \<open>
  C16. What the \<open>Connected\<close> property says. After every run of the daemon from start-up, whatever
  events arrive in whatever order: a device on the bus that clips are sent to is shown as
  connected; and the only way for another one to be shown as connected is that it introduced
  itself when no connection was up at its address, as when the close of an old connection took
  the handle of the redial away, and no close of it has been handled since. In particular, when
  every handled introduction came at an address that was up, \<open>Connected\<close> is exactly the table.
\<close>

theorem bus_connected_flag:
  assumes "canonical (load from_str fs (join dir ''devices.json''))"
    and "run_daemon env (boot from_str ident name addr dir backend fs) inputs = Some (outs, d')" and "dm_alive d'"
  shows "\<exists>handled. net_events inputs = handled @ dm_queue d' \<and>
    (\<forall>i ob. device_id_ok i \<and> dm_objects d' (device_path i) = Some ob \<longrightarrow>
       (i \<in> fst ` set (sh_connected_devices d') \<longrightarrow> d1_connected ob) \<and>
       (d1_connected ob \<and> i \<notin> fst ` set (sh_connected_devices d') \<longrightarrow>
          (\<exists>pre r n caps tok post. handled = pre @ LSession r (EvPeerHandshake i n caps tok) # post \<and>
             fst (observed pre) r = None \<and>
             (\<forall>a r' reason b. post = a @ LSession r' (EvClosed reason) # b \<longrightarrow>
                snd (observed (pre @ LSession r (EvPeerHandshake i n caps tok) # a)) r' \<noteq> Some i))))"
proof -
  obtain handled where h: "net_events inputs = handled @ dm_queue d'" "log_inv handled d'"
    "distinct (map fst (sh_connected_devices d'))"
    using run_logged [OF assms] .
  have met: "\<exists>pre r n caps tok post. handled = pre @ LSession r (EvPeerHandshake i n caps tok) # post \<and>
      fst (observed pre) r = None \<and>
      (\<forall>a r' reason b. post = a @ LSession r' (EvClosed reason) # b \<longrightarrow>
         snd (observed (pre @ LSession r (EvPeerHandshake i n caps tok) # a)) r' \<noteq> Some i)"
    if "met handled i None" for i
    using that unfolding met_def by (metis closes.simps(1))
  have "(i \<in> fst ` set (sh_connected_devices d') \<longrightarrow> d1_connected ob) \<and>
      (d1_connected ob \<and> i \<notin> fst ` set (sh_connected_devices d') \<longrightarrow> met handled i None)"
    if "device_id_ok i" "dm_objects d' (device_path i) = Some ob" for i ob
    using log_invD(3,4) [OF h(2) that] map_of_eq_None_iff [of "sh_connected_devices d'" i]
    by (cases "map_of (sh_connected_devices d') i") simp_all
  then show ?thesis
    using h(1) met by (metis (no_types, lifting))
qed

text \<open>An example: the phone of \<open>pairing_inputs\<close>, and its redial from the same socket.\<close>

lemma pairing_events:
  "net_events pairing_inputs = [LConnected phone_addr 1, LSession phone_addr (EvPeerHandshake phone ''pixel'' [] (Some [5]))]"
  by (simp add: pairing_inputs_def net_events_def List.map_filter_def)

theorem clips_go_to_live_connections_witness:
  "\<exists>pre r n caps tok post. net_events pairing_inputs = pre @ LSession r (EvPeerHandshake phone n caps tok) # post \<and>
     fst (observed pre) r = Some 1"
proof -
  have "(phone, 1) \<in> set (sh_connected_devices paired_daemon)"
    by (simp add: paired_daemon_phone)
  then show ?thesis
    using clips_go_to_live_connections [OF canonical_demo pairing_run [unfolded demo_daemon_def] paired_daemon_phone(7)]
    unfolding paired_daemon_idle append_Nil2 by metis
qed

text \<open>
  The exception is real: the handle of a connection is kept under its address alone. The phone
  redials from the socket it dialed from before; if the redial arrives before the daemon has
  noticed that the old connection is gone, the old one's close takes the new one's handle away.
  The new handshake is then answered by showing the device as connected, and no clip is sent to
  it.
\<close>

definition redial_inputs :: "daemon_input list" where
  "redial_inputs =
     [NetEvent (LConnected phone_addr 2), NetEvent (LSession phone_addr (EvClosed CloseKeepaliveTimedOut)),
      NetEvent (LSession phone_addr (EvPeerHandshake phone ''pixel'' [] None)),
      OrchestratorTurn 4, OrchestratorTurn 5, OrchestratorTurn 6]"

lemma redial_while_old_is_up:
  "\<exists>outs d. run_daemon demo_env paired_daemon redial_inputs = Some (outs, d) \<and> dm_alive d \<and> dm_queue d = [] \<and>
    sh_connected_devices d = [] \<and>
    dm_objects d (device_path phone) = Some \<lparr>d1_name = ''pixel'', d1_device_id = to_hex phone, d1_connected = True\<rparr>"
  using paired_daemon_phone(1)
  by (simp add: redial_inputs_def run_defs handle_closed_def Let_def paired_daemon_idle paired_daemon_phone(2,4,5,7,9) is_paired_def)

theorem bus_connected_flag_witness:
  "\<exists>pre r n caps tok post. net_events (pairing_inputs @ redial_inputs) = pre @ LSession r (EvPeerHandshake phone n caps tok) # post \<and>
     fst (observed pre) r = None"
proof -
  obtain outs d where d: "run_daemon demo_env paired_daemon redial_inputs = Some (outs, d)" "dm_alive d" "dm_queue d = []"
    "sh_connected_devices d = []"
    "dm_objects d (device_path phone) = Some \<lparr>d1_name = ''pixel'', d1_device_id = to_hex phone, d1_connected = True\<rparr>"
    using redial_while_old_is_up by blast
  have run: "run_daemon demo_env demo_daemon (pairing_inputs @ redial_inputs) = Some (pairing_outputs @ outs, d)"
    using pairing_run d(1) by (simp add: run_steps_append)
  obtain handled where "net_events (pairing_inputs @ redial_inputs) = handled @ dm_queue d"
    "\<forall>i ob. device_id_ok i \<and> dm_objects d (device_path i) = Some ob \<longrightarrow>
       (d1_connected ob \<and> i \<notin> fst ` set (sh_connected_devices d) \<longrightarrow>
          (\<exists>pre r n caps tok post. handled = pre @ LSession r (EvPeerHandshake i n caps tok) # post \<and> fst (observed pre) r = None))"
    using bus_connected_flag [OF canonical_demo run [unfolded demo_daemon_def] d(2)] by metis
  then show ?thesis
    using d(3-5) device_id_ok_phone by fastforce
qed

end
