(* ===== verification/Daemon_Recipients.thy ===== *)
theory Daemon_Recipients
  imports Daemon_Log
begin

text \<open>
  Who the daemon sends clips to, when its events come from real sessions behind the listener and
  the connections from one address do not overlap: the composition of \<open>session.rs\<close>, \<open>listener.rs\<close>
  and \<open>orchestrator.rs\<close>. That they do not overlap is an assumption (\<open>in_turn\<close>) that the code does not
  ensure, since a phone redials from the socket it dialed from before; what holds without it is
  in \<open>Daemon_Log\<close>.
\<close>

section \<open>An orderly channel\<close>

text \<open>
  An address comes up when it is down; what is up introduces itself once, talks only after that,
  and goes down.
\<close>

fun allowed :: "listener_event \<Rightarrow> view \<Rightarrow> bool" where
  "allowed (LConnected r conn) (up, who) \<longleftrightarrow> up r = None"
| "allowed (LSession r (EvPeerHandshake i n caps tok)) (up, who) \<longleftrightarrow> up r \<noteq> None \<and> who r = None"
| "allowed (LSession r (EvClosed reason)) (up, who) \<longleftrightarrow> up r \<noteq> None"
| "allowed (LSession r (EvPonged rtt)) (up, who) \<longleftrightarrow> up r \<noteq> None \<and> who r \<noteq> None"
| "allowed (LSession r (EvClipboardReceived clip)) (up, who) \<longleftrightarrow> up r \<noteq> None \<and> who r \<noteq> None"

fun orderly :: "view \<Rightarrow> listener_event list \<Rightarrow> bool" where
  "orderly v [] = True"
| "orderly v (ev # evs) = (allowed ev v \<and> orderly (note_event ev v) evs)"

lemma orderly_append: "orderly v (xs @ ys) \<longleftrightarrow> orderly v xs \<and> orderly (fold note_event xs v) ys"
  by (induction xs arbitrary: v) auto

text \<open>What is orderly at every address is orderly: the addresses do not interfere.\<close>

definition at_addr :: "view \<Rightarrow> socket_addr \<Rightarrow> nat option \<times> device_id option" where
  "at_addr v r = (fst v r, snd v r)"

lemma allowed_local: "at_addr v (event_remote ev) = at_addr v' (event_remote ev) \<Longrightarrow> allowed ev v = allowed ev v'"
  by (cases v; cases v'; cases "(ev, v)" rule: allowed.cases) (auto simp: at_addr_def)

lemma note_local:
  "at_addr v r = at_addr v' r \<Longrightarrow> at_addr (note_event ev v) r = at_addr (note_event ev v') r"
  by (cases v; cases v'; cases "(ev, v)" rule: allowed.cases) (auto simp: at_addr_def)

lemma note_elsewhere: "event_remote ev \<noteq> r \<Longrightarrow> at_addr (note_event ev v) r = at_addr v r"
  by (cases v; cases "(ev, v)" rule: allowed.cases) (auto simp: at_addr_def)

lemma orderly_local:
  "at_addr v r = at_addr v' r \<Longrightarrow> \<forall>ev \<in> set evs. event_remote ev = r \<Longrightarrow> orderly v evs = orderly v' evs"
proof (induction evs arbitrary: v v')
  case Nil
  then show ?case by simp
next
  case (Cons ev evs)
  have "at_addr (note_event ev v) r = at_addr (note_event ev v') r"
    using Cons.prems(1) by (rule note_local)
  then have "orderly (note_event ev v) evs = orderly (note_event ev v') evs"
    using Cons.prems(2) by (intro Cons.IH) simp_all
  moreover have "allowed ev v = allowed ev v'"
    using Cons.prems by (intro allowed_local) simp
  ultimately show ?case by simp
qed

lemma orderly_split: "orderly v evs \<longleftrightarrow> (\<forall>r. orderly v (filter (\<lambda>ev. event_remote ev = r) evs))"
proof (induction evs arbitrary: v)
  case Nil
  then show ?case by simp
next
  case (Cons ev evs)
  have elsewhere: "orderly (note_event ev v) (filter (\<lambda>e. event_remote e = r) evs) =
      orderly v (filter (\<lambda>e. event_remote e = r) evs)" if "event_remote ev \<noteq> r" for r
    using note_elsewhere [OF that] by (intro orderly_local [where r = r]) auto
  have "orderly v (filter (\<lambda>e. event_remote e = r) (ev # evs)) \<longleftrightarrow>
      (event_remote ev = r \<longrightarrow> allowed ev v) \<and> orderly (note_event ev v) (filter (\<lambda>e. event_remote e = r) evs)" for r
    using elsewhere by auto
  then show ?case
    using Cons.IH [of "note_event ev v"] by auto
qed

section \<open>The channel of a real listener\<close>

text \<open>
  \<open>cs\<close> are the accepted connections. At one address their events follow each other: the end of a
  connection has been sent on before another one from the same address is announced. Different
  addresses are scheduled in any way. Nothing in \<open>listener.rs\<close> ensures this when one address dials
  again while its old connection is up; then it is an assumption about the network.
\<close>

definition in_turn :: "incoming list \<Rightarrow> listener_event list \<Rightarrow> bool" where
  "in_turn cs trace \<longleftrightarrow>
     (\<forall>r. filter (\<lambda>ev. event_remote ev = r) trace =
        concat (map (\<lambda>c. fst (snd (accept_and_drain c True))) (filter (\<lambda>c. in_remote c = r) cs)))"

lemma interleaving_member: "interleaving tasks trace \<Longrightarrow> ev \<in> set trace \<Longrightarrow> \<exists>task \<in> set tasks. ev \<in> set task"
proof (induction rule: interleaving.induct)
  case (all_done tasks)
  then show ?case by simp
next
  case (task_sends i tasks x xs ys)
  have this_task: "x # xs \<in> set tasks"
    using task_sends.hyps(1,2) by (metis nth_mem)
  show ?case
  proof (cases "ev = x")
    case True
    then show ?thesis using this_task by (intro bexI [of _ "x # xs"]) simp_all
  next
    case False
    then obtain task where "task \<in> set (tasks[i := xs])" "ev \<in> set task"
      using task_sends.IH task_sends.prems by auto
    moreover from this(1) have "task = xs \<or> task \<in> set tasks"
      using set_update_subset_insert [of tasks i xs] by blast
    ultimately show ?thesis
      using this_task by (auto intro: bexI [of _ "x # xs"])
  qed
qed

lemma filter_eq_single: "distinct xs \<Longrightarrow> x \<in> set xs \<Longrightarrow> filter (\<lambda>y. y = x) xs = [x]"
  by (induction xs) (auto simp: filter_empty_conv)

lemma any_schedule_in_turn:
  assumes "interleaving (listener_tasks (map Some cs)) trace" and "distinct (map in_remote cs)"
  shows "in_turn cs trace"
  unfolding in_turn_def
proof
  fix r
  have owned: "owned (map in_remote cs) (listener_tasks (map Some cs))"
    using assms(2) by (auto simp: owned_def length_listener_tasks nth_listener_tasks dest: accept_and_drain_remote)
  show "filter (\<lambda>ev. event_remote ev = r) trace =
    concat (map (\<lambda>c. fst (snd (accept_and_drain c True))) (filter (\<lambda>c. in_remote c = r) cs))"
  proof (cases "r \<in> in_remote ` set cs")
    case True
    then obtain i where i: "i < length cs" "r = in_remote (cs ! i)"
      by (auto simp: in_set_conv_nth)
    have inj: "inj_on in_remote (set cs)"
      using assms(2) by (simp add: distinct_map)
    have "in_remote c = r \<longleftrightarrow> c = cs ! i" if "c \<in> set cs" for c
      unfolding i(2) using inj_on_eq_iff [OF inj that nth_mem [OF i(1)]] .
    then have "filter (\<lambda>c. in_remote c = r) cs = filter (\<lambda>c. c = cs ! i) cs"
      by (intro filter_cong) simp_all
    also have "\<dots> = [cs ! i]"
      using assms(2) i(1) by (intro filter_eq_single) (simp_all add: distinct_map)
    finally show ?thesis
      using interleaving_projection [OF assms(1) owned, of i] i by (simp add: nth_listener_tasks)
  next
    case False
    have "event_remote ev \<noteq> r" if member: "ev \<in> set trace" for ev
    proof -
      obtain task where "task \<in> set (listener_tasks (map Some cs))" "ev \<in> set task"
        using interleaving_member [OF assms(1) member] by blast
      then obtain i where "i < length cs" "ev \<in> set (listener_tasks (map Some cs) ! i)"
        by (auto simp: in_set_conv_nth length_listener_tasks)
      then have "event_remote ev = in_remote (cs ! i)" "cs ! i \<in> set cs"
        by (auto simp: nth_listener_tasks dest: accept_and_drain_remote)
      with False show ?thesis by auto
    qed
    moreover have "filter (\<lambda>c. in_remote c = r) cs = []"
      using False by (auto simp: filter_empty_conv)
    ultimately show ?thesis by simp
  qed
qed

text \<open>What a session that has ended reported.\<close>

definition whole_story :: "session_event list \<Rightarrow> bool" where
  "whole_story evs \<longleftrightarrow> spec_run session_spec Handshaking evs = Some Over"

lemma finished_session_story:
  assumes "drive io (new_driver loc interval tok s r) start ws = Some (evs, d')" and "\<not> dr_running d'"
  shows "whole_story evs"
  using drive_refines [OF assms(1)] assms(2)
  by (simp add: whole_story_def session_abs_def new_driver_def new_machine_def)

lemma session_orderly:
  assumes "spec_run session_spec s evs = Some Over" and "s \<noteq> Over"
    and "fst v r \<noteq> None" and "snd v r = None \<longleftrightarrow> s = Handshaking"
  shows "orderly v (map (LSession r) evs) \<and> at_addr (fold note_event (map (LSession r) evs) v) r = (None, None) \<and>
    fst (drain evs) = evs"
  using assms
proof (induction evs arbitrary: s v)
  case Nil
  then show ?case by simp
next
  case (Cons ev evs)
  obtain up who where v: "v = (up, who)" by (cases v)
  show ?case
  proof (cases ev)
    case (EvClosed reason)
    then have "spec_run session_spec Over evs = Some Over"
      using Cons.prems(1,2) by (cases s) simp_all
    then have "evs = []"
      using session_spec_over by blast
    then show ?thesis
      using EvClosed Cons.prems(3) v by (simp add: at_addr_def)
  next
    case (EvPeerHandshake i n caps tok)
    then have "s = Handshaking" "spec_run session_spec Established evs = Some Over"
      using Cons.prems(1,2) by (cases s; simp)+
    then show ?thesis
      using EvPeerHandshake Cons.prems(3,4) Cons.IH [of Established "(up, who(r \<mapsto> i))"] v
      by (auto split: prod.splits)
  next
    case (EvPonged rtt)
    then have "s = Established" "spec_run session_spec Established evs = Some Over"
      using Cons.prems(1,2) by (cases s; simp)+
    then show ?thesis
      using EvPonged Cons.prems(3,4) Cons.IH [of Established v] v by (auto split: prod.splits)
  next
    case (EvClipboardReceived clip)
    then have "s = Established" "spec_run session_spec Established evs = Some Over"
      using Cons.prems(1,2) by (cases s; simp)+
    then show ?thesis
      using EvClipboardReceived Cons.prems(3,4) Cons.IH [of Established v] v by (auto split: prod.splits)
  qed
qed

lemma connection_orderly:
  assumes "whole_story (in_events c)" and "at_addr v (in_remote c) = (None, None)"
  shows "orderly v (fst (snd (accept_and_drain c True))) \<and>
    at_addr (fold note_event (fst (snd (accept_and_drain c True))) v) (in_remote c) = (None, None)"
proof -
  obtain up who where v: "v = (up, who)" by (cases v)
  let ?v1 = "(up(in_remote c \<mapsto> in_conn c), who)"
  have "orderly ?v1 (map (LSession (in_remote c)) (in_events c)) \<and>
      at_addr (fold note_event (map (LSession (in_remote c)) (in_events c)) ?v1) (in_remote c) = (None, None) \<and>
      fst (drain (in_events c)) = in_events c"
    using assms v by (intro session_orderly [where s = Handshaking]) (simp_all add: whole_story_def at_addr_def)
  then show ?thesis
    using assms(2) v by (auto simp: accept_and_drain_def at_addr_def split: sum.split)
qed

lemma connections_orderly:
  "\<forall>c \<in> set cs. whole_story (in_events c) \<and> in_remote c = r \<Longrightarrow> at_addr v r = (None, None) \<Longrightarrow>
     orderly v (concat (map (\<lambda>c. fst (snd (accept_and_drain c True))) cs))"
proof (induction cs arbitrary: v)
  case Nil
  then show ?case by simp
next
  case (Cons c cs)
  then show ?case
    using connection_orderly [of c v] by (simp add: orderly_append)
qed

lemma in_turn_orderly:
  assumes "in_turn cs trace" and "\<forall>c \<in> set cs. whole_story (in_events c)"
  shows "orderly (\<lambda>_. None, \<lambda>_. None) trace"
proof (rule orderly_split [THEN iffD2], rule allI)
  fix r
  show "orderly (\<lambda>_. None, \<lambda>_. None) (filter (\<lambda>ev. event_remote ev = r) trace)"
    unfolding assms(1) [unfolded in_turn_def, rule_format]
    using assms(2) by (intro connections_orderly [where r = r]) (simp_all add: at_addr_def)
qed

section \<open>The recipients\<close>

text \<open>The connection is up and the device the one that introduced itself on it.\<close>

definition reaches :: "view \<Rightarrow> device_id \<Rightarrow> nat \<Rightarrow> bool" where
  "reaches v i conn \<longleftrightarrow> (\<exists>r. fst v r = Some conn \<and> snd v r = Some i)"

lemma at_addr_kept:
  assumes "at_addr v r = (Some conn, Some i)" and "allowed ev v" and "\<forall>reason. ev \<noteq> LSession r (EvClosed reason)"
  shows "at_addr (note_event ev v) r = (Some conn, Some i)"
  using assms by (cases v; cases "(ev, v)" rule: allowed.cases) (auto simp: at_addr_def)

text \<open>In an orderly channel, what was met is still there.\<close>

lemma orderly_met:
  assumes "orderly (\<lambda>_. None, \<lambda>_. None) log" and "met log i u"
  obtains conn where "u = Some conn" "reaches (observed log) i conn"
proof -
  obtain pre r n caps tok post where log: "log = pre @ LSession r (EvPeerHandshake i n caps tok) # post"
    and u: "fst (observed pre) r = u"
    and since: "\<forall>a ev b. post = a @ ev # b \<longrightarrow> \<not> closes (pre @ LSession r (EvPeerHandshake i n caps tok) # a) ev i"
    using assms(2) unfolding met_def by blast
  let ?pre = "pre @ [LSession r (EvPeerHandshake i n caps tok)]"
  have "allowed (LSession r (EvPeerHandshake i n caps tok)) (observed pre)"
    using assms(1) unfolding log by (simp add: orderly_append observed_def)
  then obtain conn where conn: "u = Some conn"
    using u by (cases "observed pre") auto
  then have met: "at_addr (observed ?pre) r = (Some conn, Some i)"
    using u by (cases "observed pre") (simp add: observed_snoc at_addr_def)
  have "at_addr (observed (?pre @ a)) r = (Some conn, Some i)" if "post = a @ b" for a b
    using that
  proof (induction a arbitrary: b rule: rev_induct)
    case Nil
    then show ?case using met by simp
  next
    case (snoc ev a)
    then have b: "post = a @ ev # b"
      by simp
    then have before: "at_addr (observed (?pre @ a)) r = (Some conn, Some i)"
      by (rule snoc.IH)
    have "allowed ev (observed (?pre @ a))"
      using assms(1) unfolding log b by (simp add: orderly_append observed_def)
    moreover have "\<not> closes (?pre @ a) ev i"
      using since b by simp
    then have "\<forall>reason. ev \<noteq> LSession r (EvClosed reason)"
      using before by (auto simp: at_addr_def)
    ultimately show ?case
      using at_addr_kept [OF before] observed_snoc [of "?pre @ a" ev] by simp
  qed
  from this [of post "[]"] have "reaches (observed log) i conn"
    unfolding log reaches_def by (auto simp: at_addr_def)
  with conn show thesis by (rule that)
qed

text \<open>
  The daemon runs behind its listener; every accepted connection is driven by a session that
  eventually ends (its peer, its clock and its streams doing anything), connections from
  different addresses are scheduled in any way, and those from one address do not overlap. As
  long as the daemon lives, every entry of the table it sends clips to names a connection that is
  up and whose peer introduced itself as that device; a device the bus shows as connected has
  such a connection; and the branch that drops a clip of a peer that has not introduced itself
  is never taken.
\<close>

lemma recipients_in_turn:
  assumes "canonical (load from_str fs (join dir ''devices.json''))"
    and "run_daemon env (boot from_str ident name addr dir backend fs) inputs = Some (outs, d')" and "dm_alive d'"
    and "in_turn cs (net_events inputs @ later)"
    and "\<forall>c \<in> set cs. \<exists>s r start ws fin.
      drive io (new_driver loc interval None s r) start ws = Some (in_events c, fin) \<and> \<not> dr_running fin"
  shows "\<exists>handled. net_events inputs = handled @ dm_queue d' \<and>
    (\<forall>i conn. (i, conn) \<in> set (sh_connected_devices d') \<longrightarrow> reaches (observed handled) i conn) \<and>
    (\<forall>i ob. device_id_ok i \<and> dm_objects d' (device_path i) = Some ob \<and> d1_connected ob \<longrightarrow>
       (\<exists>conn. reaches (observed handled) i conn)) \<and>
    (\<forall>r clip q. dm_queue d' = LSession r (EvClipboardReceived clip) # q \<longrightarrow> sh_remote_to_device d' r \<noteq> None)"
proof -
  obtain handled where h: "net_events inputs = handled @ dm_queue d'" "log_inv handled d'"
    "distinct (map fst (sh_connected_devices d'))"
    using run_logged [OF assms(1-3)] .
  have "\<forall>c \<in> set cs. whole_story (in_events c)"
    using assms(5) by (auto dest: finished_session_story)
  with assms(4) have "orderly (\<lambda>_. None, \<lambda>_. None) (net_events inputs @ later)"
    by (rule in_turn_orderly)
  then have order: "orderly (\<lambda>_. None, \<lambda>_. None) handled" "orderly (observed handled) (dm_queue d')"
    unfolding h(1) by (simp_all add: orderly_append observed_def)
  have entry: "reaches (observed handled) i conn" if "(i, conn) \<in> set (sh_connected_devices d')" for i conn
    using orderly_met [OF order(1) log_invD(2) [OF h(2) map_of_is_SomeI [OF h(3) that]]] by auto
  moreover have "\<exists>conn. reaches (observed handled) i conn"
    if "device_id_ok i" "dm_objects d' (device_path i) = Some ob" "d1_connected ob" for i ob
  proof (cases "map_of (sh_connected_devices d') i")
    case None
    then show ?thesis
      using orderly_met [OF order(1)] log_invD(4) [OF h(2) that(1,2) None that(3)] by blast
  next
    case (Some conn)
    then show ?thesis
      using entry map_of_SomeD by fast
  qed
  moreover have "sh_remote_to_device d' r \<noteq> None"
    if "dm_queue d' = LSession r (EvClipboardReceived clip) # q" for r clip q
    using order(2) log_invD(1) [OF h(2), symmetric] that by (simp add: routes_def)
  ultimately show ?thesis
    using h(1) by blast
qed

text \<open>A session with the phone, from its introduction with the code's token to the end of the connection.\<close>

definition phone_io :: "(u8 list, u8 list, string, string) io_api" where
  "phone_io = pipe_io\<lparr>io_from_bytes := (\<lambda>bs. Inr (Handshake
     \<lparr>hs_version = protocol_version, hs_device_id = phone, hs_name = ''pixel'', hs_capabilities = [],
      hs_pairing_token = Some [5]\<rparr>))\<rparr>"

definition phone_connection :: incoming where
  "phone_connection =
     \<lparr>in_accept = Inr (), in_handshake = Inr (), in_remote = phone_addr, in_stream = Inr (), in_conn = 1,
      in_events = [EvPeerHandshake phone ''pixel'' [] (Some [5]), EvClosed (ConnectionLost ''bye'')]\<rparr>"

lemma phone_session:
  "\<exists>fin. drive phone_io (new_driver demo_identity 20 None [] [1, 0, 0, 0, 0]) (0, 0)
     [(ReadCompletes, 0, 0), (ConnectionCloses ''bye'', 0, 0)] = Some (in_events phone_connection, fin) \<and> \<not> dr_running fin"
proof -
  have "read_message pipe_read (io_from_bytes phone_io) [1, 0, 0, 0, 0] =
      (Inr (Handshake \<lparr>hs_version = protocol_version, hs_device_id = phone, hs_name = ''pixel'', hs_capabilities = [],
         hs_pairing_token = Some [5]\<rparr>), [])"
    by (simp add: read_message_def pipe_read_def from_le_bytes_def max_frame_len_def phone_io_def decode_def)
  then show ?thesis
    by (simp add: drive_def feed_def new_driver_def new_machine_def drive_step_def close_with_def phone_connection_def
        write_message_def encode_def pipe_io_def pipe_write_def phone_io_def protocol_version_def)
qed

text \<open>The hypotheses can hold.\<close>

lemma recipients_in_turn_example:
  "reaches (observed [LConnected phone_addr 1, LSession phone_addr (EvPeerHandshake phone ''pixel'' [] (Some [5]))]) phone 1"
proof -
  have "in_turn [phone_connection] (net_events pairing_inputs @ [LSession phone_addr (EvClosed (ConnectionLost ''bye''))])"
    by (simp add: in_turn_def pairing_events accept_and_drain_def phone_connection_def)
  moreover have "\<forall>c \<in> set [phone_connection]. \<exists>s r start ws fin.
      drive phone_io (new_driver demo_identity 20 None s r) start ws = Some (in_events c, fin) \<and> \<not> dr_running fin"
    using phone_session by (simp only: list.set ball_simps simp_thms) blast
  ultimately show ?thesis
    using recipients_in_turn [OF canonical_demo pairing_run [unfolded demo_daemon_def] paired_daemon_phone(7)]
      paired_daemon_idle(1) paired_daemon_phone(2) pairing_events by fastforce
qed

end
