(* ===== verification/Verifier.thy ===== *)
theory Verifier
  imports Trust
begin

text \<open>
  \<open>PinningVerifier\<close> of \<open>crates/net/src/tls.rs\<close> as \<open>rustls\<close> sees it: the two traits it implements, one
  per side, with all their methods. The functions of \<open>rustls\<close> and of its crypto provider are the
  fields of \<open>rustls_api\<close>; \<open>'alg\<close> are the provider's algorithms, \<open>'sch\<close> its signature schemes and
  \<open>'dss\<close> a signature with its scheme. The store is shared with the rest of the program, so the
  verifier holds it as it is at the time of a handshake.
\<close>

record ('alg, 'sch, 'dss) rustls_api =
  ra_default_algorithms :: 'alg
  ra_verify_tls12 :: "u8 list \<Rightarrow> u8 list \<Rightarrow> 'dss \<Rightarrow> 'alg \<Rightarrow> tls_error + unit"
  ra_verify_tls13 :: "u8 list \<Rightarrow> u8 list \<Rightarrow> 'dss \<Rightarrow> 'alg \<Rightarrow> tls_error + unit"
  ra_schemes :: "'alg \<Rightarrow> 'sch list"

record 'alg pinning_verifier =
  pv_trust :: trust_store
  pv_algorithms :: 'alg

definition verifier_new :: "('alg, 'sch, 'dss) rustls_api \<Rightarrow> trust_store \<Rightarrow> 'alg pinning_verifier" where
  "verifier_new ra trust = \<lparr>pv_trust = trust, pv_algorithms = ra_default_algorithms ra\<rparr>"

section \<open>As a \<open>ServerCertVerifier\<close>\<close>

definition server_verify_tls12_signature ::
  "('alg, 'sch, 'dss) rustls_api \<Rightarrow> 'alg pinning_verifier \<Rightarrow> u8 list \<Rightarrow> u8 list \<Rightarrow> 'dss \<Rightarrow> tls_error + unit" where
  "server_verify_tls12_signature ra v message cert dss = ra_verify_tls12 ra message cert dss (pv_algorithms v)"

definition server_verify_tls13_signature ::
  "('alg, 'sch, 'dss) rustls_api \<Rightarrow> 'alg pinning_verifier \<Rightarrow> u8 list \<Rightarrow> u8 list \<Rightarrow> 'dss \<Rightarrow> tls_error + unit" where
  "server_verify_tls13_signature ra v message cert dss = ra_verify_tls13 ra message cert dss (pv_algorithms v)"

definition server_supported_verify_schemes ::
  "('alg, 'sch, 'dss) rustls_api \<Rightarrow> 'alg pinning_verifier \<Rightarrow> 'sch list" where
  "server_supported_verify_schemes ra v = ra_schemes ra (pv_algorithms v)"

section \<open>As a \<open>ClientCertVerifier\<close>\<close>

definition root_hint_subjects :: "u8 list list" where
  "root_hint_subjects = []"

definition client_verify_tls12_signature ::
  "('alg, 'sch, 'dss) rustls_api \<Rightarrow> 'alg pinning_verifier \<Rightarrow> u8 list \<Rightarrow> u8 list \<Rightarrow> 'dss \<Rightarrow> tls_error + unit" where
  "client_verify_tls12_signature ra v message cert dss = ra_verify_tls12 ra message cert dss (pv_algorithms v)"

definition client_verify_tls13_signature ::
  "('alg, 'sch, 'dss) rustls_api \<Rightarrow> 'alg pinning_verifier \<Rightarrow> u8 list \<Rightarrow> u8 list \<Rightarrow> 'dss \<Rightarrow> tls_error + unit" where
  "client_verify_tls13_signature ra v message cert dss = ra_verify_tls13 ra message cert dss (pv_algorithms v)"

definition client_supported_verify_schemes ::
  "('alg, 'sch, 'dss) rustls_api \<Rightarrow> 'alg pinning_verifier \<Rightarrow> 'sch list" where
  "client_supported_verify_schemes ra v = ra_schemes ra (pv_algorithms v)"

section \<open>A completed handshake\<close>

text \<open>
  What the callbacks of a side have said when \<open>rustls\<close> completes a TLS 1.3 handshake with a peer
  that showed \<open>cert\<close> and signed the handshake \<open>message\<close>: it takes both for an answer.
\<close>

definition admits_client where
  "admits_client ra spki_of sha256 v cert message dss now \<longleftrightarrow>
     verify_client_cert spki_of sha256 (pv_trust v) cert now = Inr () \<and>
     client_verify_tls13_signature ra v message cert dss = Inr ()"

definition admits_server where
  "admits_server ra spki_of sha256 v cert message dss now \<longleftrightarrow>
     verify_server_cert spki_of sha256 (pv_trust v) cert now = Inr () \<and>
     server_verify_tls13_signature ra v message cert dss = Inr ()"

text \<open>
  What \<open>rustls\<close> documents of its signature check: it succeeds only for a signature of the message
  made with the private key that belongs to the certificate's public key.
\<close>

definition signatures_sound ::
  "('alg, 'sch, 'dss) rustls_api \<Rightarrow> (u8 list \<Rightarrow> u8 list option) \<Rightarrow> (u8 list \<Rightarrow> u8 list \<Rightarrow> 'dss \<Rightarrow> bool) \<Rightarrow> bool" where
  "signatures_sound ra spki_of signed_by \<longleftrightarrow>
     (\<forall>message cert dss algs spki.
        ra_verify_tls13 ra message cert dss algs = Inr () \<longrightarrow> spki_of cert = Some spki \<longrightarrow> signed_by spki message dss)"

text \<open>
  Both sides ask for the same: a certificate that parses, a key that is pinned or an open window,
  and the proof that the peer holds the key.
\<close>

lemma admits_clientE:
  assumes "admits_client ra spki_of sha256 v cert message dss now" and "signatures_sound ra spki_of signed_by"
  obtains spki where "spki_of cert = Some spki" "signed_by spki message dss"
    "is_paired (pv_trust v) (sha256 spki) \<or> pairing_open (pv_trust v) now"
proof -
  have "check spki_of sha256 (pv_trust v) cert now = Inr ()"
    using assms(1) by (simp add: admits_client_def verify_client_cert_eq)
  then obtain spki where "spki_of cert = Some spki" "is_paired (pv_trust v) (sha256 spki) \<or> pairing_open (pv_trust v) now"
    by (auto simp: check_def device_id_of_def device_id_from_spki_def split: option.splits if_splits)
  moreover from this(1) have "signed_by spki message dss"
    using assms unfolding admits_client_def client_verify_tls13_signature_def signatures_sound_def by blast
  ultimately show thesis by (intro that)
qed

lemma admits_server_eq: "admits_server = admits_client"
  by (intro ext) (simp add: admits_server_def admits_client_def verify_server_cert_eq verify_client_cert_eq
      server_verify_tls13_signature_def client_verify_tls13_signature_def)

end
