(* ===== verification/Daemon_Admission.thy ===== *)
theory Daemon_Admission
  imports Daemon_Pairing Verifier
begin

text \<open>
  Who gets past the daemon's TLS: the trust store is shared between the verifier
  (\<open>crates/net/src/tls.rs\<close>) and the pairing of \<open>crates/daemon/src/dbus.rs\<close> and \<open>orchestrator.rs\<close>, and
  what it holds at any moment is exactly what the daemon has announced so far.
\<close>

section \<open>The trust store as a history\<close>

fun trust_ops :: "daemon_output \<Rightarrow> trust_op list" where
  "trust_ops (TokenIssued r t) = [OpenWindow (t + token_ttl)]"
| "trust_ops (DevicePinned i n) = [Pin i, CloseWindow]"
| "trust_ops (DeviceUnpinned i) = [Unpair i]"
| "trust_ops _ = []"

definition trust_history :: "daemon_output list \<Rightarrow> trust_op list" where
  "trust_history outs = concat (map trust_ops outs)"

lemma trust_history_simps [simp]:
  "trust_history [] = []" "trust_history (x # xs) = trust_ops x @ trust_history xs"
  "trust_history (xs @ ys) = trust_history xs @ trust_history ys"
  by (simp_all add: trust_history_def)

lemma apply_ops_simps [simp]:
  "apply_ops [] t = t" "apply_ops (op # ops) t = apply_ops ops (apply_op op t)"
  "apply_ops (xs @ ys) t = apply_ops ys (apply_ops xs t)"
  by (simp_all add: apply_ops_def)

text \<open>Outputs that are not about trust.\<close>

definition no_trust :: "daemon_output list \<Rightarrow> bool" where
  "no_trust outs \<longleftrightarrow> (\<forall>o' \<in> set outs. trust_ops o' = [])"

lemma no_trust_history: "no_trust outs \<Longrightarrow> trust_history outs = []"
  by (simp add: no_trust_def trust_history_def)

lemma trust_core: "core d' = core d \<Longrightarrow> sh_trust d' = sh_trust d"
  by (simp add: core_def)

lemma mark_connected_trust: "mark_connected r i n d = (out, d') \<Longrightarrow> no_trust out \<and> sh_trust d' = sh_trust d"
  by (auto simp: no_trust_def dest!: mark_connected_frame trust_core)

lemma persist_state_trust: "persist_state env fates d = (out, d') \<Longrightarrow> no_trust out \<and> sh_trust d' = sh_trust d"
  by (auto simp: no_trust_def dest!: persist_state_frame trust_core)

lemma handle_handshake_trust:
  assumes "handle_handshake r i n tok now d = (out, d')"
  shows "no_trust out \<and> sh_trust d' = sh_trust d"
proof (cases "is_paired (sh_trust d) i")
  case True
  then show ?thesis
    using assms mark_connected_trust by (simp add: handle_handshake_def)
next
  case False
  then show ?thesis
    using assms
    by (auto simp: handle_handshake_def redeem_current_def await_confirmation_def Let_def no_trust_def
        split: option.splits prod.splits bool.splits)
qed

lemma orchestrator_turn_trust:
  assumes "orchestrator_turn now d = (out, d')"
  shows "no_trust out \<and> sh_trust d' = sh_trust d"
proof (cases "dm_confirming d = None \<and> (\<exists>r ev q. dm_queue d = LSession r ev # q)")
  case True
  then obtain r ev q where "handle_session_event r ev now (d\<lparr>dm_queue := q\<rparr>) = (out, d')"
    using assms by (auto simp: orchestrator_turn_def)
  then show ?thesis
    by (cases ev)
      (auto simp: handle_session_event_def no_trust_def split: option.splits
        dest!: handle_handshake_trust handle_received_frame handle_closed_frame trust_core)
next
  case False
  then show ?thesis
    using assms by (auto simp: orchestrator_turn_def no_trust_def split: if_splits list.splits listener_event.splits)
qed

lemma finish_pairing_trust:
  assumes "finish_pairing env fates c d = (out, d')"
  shows "sh_trust d' = apply_ops (trust_history out) (sh_trust d)"
proof -
  define d1 where "d1 = d\<lparr>sh_trust := close_pairing_window (pin (sh_trust d) (cf_device c)),
    sh_state := upsert (sh_state d) (cf_device c) (cf_name c)\<rparr>"
  obtain out2 d2 where p: "persist_state env fates d1 = (out2, d2)"
    by (metis surj_pair)
  obtain out3 d3 where m: "mark_connected (cf_remote c) (cf_device c) (cf_name c) d2 = (out3, d3)"
    by (metis surj_pair)
  show ?thesis
    using assms p m persist_state_trust [OF p] mark_connected_trust [OF m]
    by (auto simp: finish_pairing_def Let_def d1_def no_trust_history split: if_splits)
qed

lemma dbus_unpair_trust:
  assumes "dbus_unpair env fates hex d = (out, d')"
  shows "sh_trust d' = apply_ops (trust_history out) (sh_trust d)"
  using assms
  by (auto simp: dbus_unpair_def Let_def no_trust_history split: option.splits prod.splits if_splits
      dest!: persist_state_trust)

lemma typed_step_trust:
  assumes "typed_step env d i = Some (out, d')"
  shows "sh_trust d' = apply_ops (trust_history out) (sh_trust d)"
  using assms
proof (cases rule: typed_stepE)
  case (orchestrator now)
  then show ?thesis
    using orchestrator_turn_trust no_trust_history by fastforce
next
  case (confirmation now fates)
  from confirmation(3) show ?thesis
  proof (cases rule: confirmation_turnE)
    case (accepted c)
    then show ?thesis using finish_pairing_trust by fastforce
  qed simp_all
next
  case (start os random now)
  then show ?thesis
    by (auto simp: start_pairing_def Let_def split: option.splits)
next
  case (answer hex accept)
  then show ?thesis
    by (auto simp: confirm_pairing_def Let_def split: option.splits if_splits)
next
  case (revoke hex fates)
  then show ?thesis using dbus_unpair_trust by blast
next
  case (change c r)
  then have "core d' = core d" and "no_trust out"
    by (auto simp: no_trust_def dest!: watch_frame)
  then show ?thesis
    using no_trust_history trust_core by simp
qed simp_all

lemma run_trust:
  "run_daemon env d inputs = Some (outs, d') \<Longrightarrow> sh_trust d' = apply_ops (trust_history outs) (sh_trust d)"
proof (induction inputs arbitrary: d outs)
  case Nil
  then show ?case by simp
next
  case (Cons i inputs)
  from Cons.prems obtain os1 d1 os2 where "typed_step env d i = Some (os1, d1)"
    and "run_daemon env d1 inputs = Some (os2, d')" and "outs = os1 @ os2"
    by (rule run_steps_ConsE)
  then show ?case
    using Cons.IH typed_step_trust by fastforce
qed

lemma boot_trust:
  "sh_trust (boot from_str ident name addr dir backend fs) =
     trust_new (device_ids (load from_str fs (join dir ''devices.json'')))"
  by (simp add: boot_def Let_def)

text \<open>
  C18. The trust store is its announced history. After every run of the daemon from start-up, the
  store the TLS verifier consults, pins and pairing window both, is the one read from the device
  file with exactly these changes, in the order in which they were announced: the window opened
  with each issued token until the token's expiry, closed and the device pinned by each
  pairing, the device removed by each unpairing. Nothing else ever touches it.
\<close>

theorem trust_store_is_history:
  assumes "run_daemon env (boot from_str ident name addr dir backend fs) inputs = Some (outs, d')"
  shows "sh_trust d' =
    apply_ops (trust_history outs) (trust_new (device_ids (load from_str fs (join dir ''devices.json''))))"
  using run_trust [OF assms] by (simp add: boot_trust)

theorem trust_store_is_history_witness:
  "sh_trust paired_daemon = \<lparr>paired = {phone}, pairing_deadline = None\<rparr>"
proof -
  have "sh_trust paired_daemon = apply_ops (trust_history pairing_outputs)
      (trust_new (device_ids (load (\<lambda>_. Inl ''unsupported'') (\<lambda>_. None) (join [''data''] ''devices.json''))))"
    using pairing_run unfolding demo_daemon_def by (rule trust_store_is_history)
  then show ?thesis
    by (simp add: pairing_outputs_def trust_defs device_ids_def entry_ids_def empty_state_def List.map_filter_def)
qed

section \<open>Who gets in\<close>

lemma history_pinned:
  "i \<in> paired (apply_ops (trust_history outs) t) \<Longrightarrow>
     (i \<in> paired t \<and> DeviceUnpinned i \<notin> set outs) \<or>
     (\<exists>pre n post. outs = pre @ DevicePinned i n # post \<and> DeviceUnpinned i \<notin> set post)"
proof (induction outs rule: rev_induct)
  case Nil
  then show ?case by simp
next
  case (snoc x outs)
  let ?t = "apply_ops (trust_history outs) t"
  show ?case
  proof (cases "\<exists>n. x = DevicePinned i n")
    case True
    then obtain n where "outs @ [x] = outs @ DevicePinned i n # []"
      by blast
    then show ?thesis
      by (intro disjI2 exI [of _ outs] exI [of _ n] exI [of _ "[]"]) simp
  next
    case False
    then have old: "i \<in> paired ?t" and x: "x \<noteq> DeviceUnpinned i"
      using snoc.prems by (cases x; auto simp: trust_defs)+
    from snoc.IH [OF old] show ?thesis
    proof (elim disjE exE conjE)
      assume "i \<in> paired t" "DeviceUnpinned i \<notin> set outs"
      then show ?thesis using x by simp
    next
      fix pre n post assume "outs = pre @ DevicePinned i n # post" "DeviceUnpinned i \<notin> set post"
      then show ?thesis
        using x by (intro disjI2 exI [of _ pre] exI [of _ n] exI [of _ "post @ [x]"]) auto
    qed
  qed
qed

lemma history_window:
  "pairing_deadline (apply_ops (trust_history outs) t) = Some dl \<Longrightarrow> pairing_deadline t = None \<Longrightarrow>
     \<exists>pre r issued post. outs = pre @ TokenIssued r issued # post \<and> dl = issued + token_ttl \<and>
       (\<forall>o' \<in> set post. \<not> is_issue o' \<and> \<not> is_pin o')"
proof (induction outs rule: rev_induct)
  case Nil
  then show ?case by simp
next
  case (snoc x outs)
  show ?case
  proof (cases "is_issue x \<or> is_pin x")
    case True
    then obtain r issued where "x = TokenIssued r issued" "dl = issued + token_ttl"
      using snoc.prems(1) by (cases x) (auto simp: is_issue_def is_pin_def trust_defs)
    then show ?thesis
      by (intro exI [of _ outs] exI [of _ r] exI [of _ issued] exI [of _ "[]"]) simp
  next
    case False
    then have "pairing_deadline (apply_ops (trust_history outs) t) = Some dl"
      using snoc.prems(1) by (cases x) (auto simp: is_issue_def is_pin_def trust_defs)
    then obtain pre r issued post where "outs = pre @ TokenIssued r issued # post" "dl = issued + token_ttl"
      "\<forall>o' \<in> set post. \<not> is_issue o' \<and> \<not> is_pin o'"
      using snoc.IH snoc.prems(2) by blast
    then show ?thesis
      using False by (intro exI [of _ pre] exI [of _ r] exI [of _ issued] exI [of _ "post @ [x]"]) auto
  qed
qed

text \<open>
  C3. Nobody gets in uninvited. Take any run of the daemon from start-up and any peer its TLS then
  admits, on the word of both callbacks. That peer holds the private key of the certificate it
  showed, and the device of that key was trusted in the device file at start and has not been
  unpaired, or a human accepted that very device after it had presented a live token, and it has
  not been unpaired since; or else the pairing window is open: a token was issued less than
  sixty seconds ago, and since then no other was issued and no device was paired.
\<close>

theorem only_invited_peers_get_in:
  assumes "canonical (load from_str fs (join dir ''devices.json''))"
    and "run_daemon env (boot from_str ident name addr dir backend fs) inputs = Some (outs, d')"
    and "signatures_sound ra spki_of signed_by"
    and "admits_client ra spki_of sha256 (verifier_new ra (sh_trust d')) cert message dss now"
  shows "\<exists>spki i. spki_of cert = Some spki \<and> i = sha256 spki \<and> signed_by spki message dss \<and>
    ((i \<in> set (device_ids (load from_str fs (join dir ''devices.json''))) \<and> DeviceUnpinned i \<notin> set outs) \<or>
     (\<exists>pre n post. outs = pre @ DevicePinned i n # post \<and> human_accepted pre i \<and> DeviceUnpinned i \<notin> set post) \<or>
     (\<exists>pre r issued post. outs = pre @ TokenIssued r issued # post \<and> now < issued + token_ttl \<and>
        (\<forall>o' \<in> set post. \<not> is_issue o' \<and> \<not> is_pin o')))"
proof -
  let ?ids = "device_ids (load from_str fs (join dir ''devices.json''))"
  obtain spki where spki: "spki_of cert = Some spki" "signed_by spki message dss"
    and ok: "is_paired (sh_trust d') (sha256 spki) \<or> pairing_open (sh_trust d') now"
    using admits_clientE [OF assms(4,3)] by (auto simp: verifier_new_def)
  have t: "sh_trust d' = apply_ops (trust_history outs) (trust_new ?ids)"
    using run_trust [OF assms(2)] by (simp add: boot_trust)
  let ?known = "sha256 spki \<in> set ?ids \<and> DeviceUnpinned (sha256 spki) \<notin> set outs"
  let ?accepted = "\<exists>pre n post. outs = pre @ DevicePinned (sha256 spki) n # post \<and> human_accepted pre (sha256 spki) \<and>
      DeviceUnpinned (sha256 spki) \<notin> set post"
  let ?invited = "\<exists>pre r issued post. outs = pre @ TokenIssued r issued # post \<and> now < issued + token_ttl \<and>
      (\<forall>o' \<in> set post. \<not> is_issue o' \<and> \<not> is_pin o')"
  from ok have "?known \<or> ?accepted \<or> ?invited"
  proof
    assume "is_paired (sh_trust d') (sha256 spki)"
    then have "sha256 spki \<in> paired (apply_ops (trust_history outs) (trust_new ?ids))"
      using t by (simp add: is_paired_def)
    from history_pinned [OF this] show ?thesis
    proof (elim disjE exE conjE)
      assume "sha256 spki \<in> paired (trust_new ?ids)" "DeviceUnpinned (sha256 spki) \<notin> set outs"
      then show ?thesis by (simp add: trust_new_def)
    next
      fix pre n post assume pinned: "outs = pre @ DevicePinned (sha256 spki) n # post"
        and kept: "DeviceUnpinned (sha256 spki) \<notin> set post"
      have "human_accepted pre (sha256 spki)"
        using pin_accepted [OF assms(1) assms(2) [unfolded pinned]] .
      with pinned kept show ?thesis by blast
    qed
  next
    assume "pairing_open (sh_trust d') now"
    then obtain dl where dl: "pairing_deadline (apply_ops (trust_history outs) (trust_new ?ids)) = Some dl" "now < dl"
      using t by (auto simp: pairing_open_def split: option.splits)
    from history_window [OF dl(1)] obtain pre r issued post where
      "outs = pre @ TokenIssued r issued # post" "dl = issued + token_ttl" "\<forall>o' \<in> set post. \<not> is_issue o' \<and> \<not> is_pin o'"
      by (auto simp: trust_new_def)
    with dl(2) have ?invited
      by (intro exI [of _ pre] exI [of _ r] exI [of _ issued] exI [of _ post]) simp
    then show ?thesis by (intro disjI2)
  qed
  with spki show ?thesis
    by (intro exI [of _ spki] exI [of _ "sha256 spki"] conjI refl)
qed

text \<open>A signature scheme in which the signature is the key, to evaluate an admission with.\<close>

definition demo_rustls :: "(unit, unit, u8 list) rustls_api" where
  "demo_rustls =
     \<lparr>ra_default_algorithms = (), ra_verify_tls12 = (\<lambda>_ _ _ _. Inl (General ''no tls 1.2'')),
      ra_verify_tls13 = (\<lambda>_ cert dss _. if dss = cert then Inr () else Inl (General ''bad signature'')),
      ra_schemes = (\<lambda>_. [()])\<rparr>"

theorem only_invited_peers_get_in_witness:
  "\<exists>pre n post. pairing_outputs = pre @ DevicePinned phone n # post \<and> human_accepted pre phone"
proof -
  have sound: "signatures_sound demo_rustls Some (\<lambda>spki _ dss. dss = spki)"
    by (simp add: signatures_sound_def demo_rustls_def)
  have "admits_client demo_rustls Some (\<lambda>s. s) (verifier_new demo_rustls (sh_trust paired_daemon)) phone [] phone (from_secs 1000)"
    using paired_daemon_phone(1)
    by (simp add: admits_client_def verify_client_cert_eq check_def device_id_of_def device_id_from_spki_def
        verifier_new_def client_verify_tls13_signature_def demo_rustls_def)
  note in_ok = only_invited_peers_get_in [OF canonical_demo pairing_run [unfolded demo_daemon_def] sound this]
  have "\<not> from_secs 1000 < issued + token_ttl" if last: "pairing_outputs = pre @ TokenIssued r issued # post" for pre r issued post
  proof -
    have "TokenIssued r issued \<in> set pairing_outputs"
      unfolding last by simp
    then show ?thesis
      by (simp add: pairing_outputs_def token_ttl_def from_secs_def)
  qed
  with in_ok show ?thesis
    by (auto simp: device_ids_def entry_ids_def empty_state_def List.map_filter_def)
qed

end
