(* ===== verification/Startup.thy ===== *)
theory Startup
  imports Daemon_Objects Identity
begin

text \<open>
  \<open>main\<close> of the daemon (\<open>crates/daemon/src/main.rs\<close>), from the environment to a serving daemon.
  What the operating system and the libraries answer is the record \<open>host\<close>; the socket, the bus
  and the tasks themselves are not part of the state. Logging is left out.
\<close>

section \<open>Directories\<close>

text \<open>A missing \<open>HOME\<close> panics (\<open>None\<close>) if it is needed.\<close>

definition xdg_dir :: "path option \<Rightarrow> path option \<Rightarrow> path \<Rightarrow> path option" where
  "xdg_dir xdg home under_home =
     (case xdg of
        Some dir \<Rightarrow> Some (join dir ''penguinsync'')
      | None \<Rightarrow>
          (case home of
             None \<Rightarrow> None
           | Some h \<Rightarrow> Some (join (h @ under_home) ''penguinsync'')))"

definition xdg_config_dir :: "path option \<Rightarrow> path option \<Rightarrow> path option" where
  "xdg_config_dir xdg home = xdg_dir xdg home [''.config'']"

definition xdg_data_dir :: "path option \<Rightarrow> path option \<Rightarrow> path option" where
  "xdg_data_dir xdg home = xdg_dir xdg home [''.local'', ''share'']"

section \<open>Start-up\<close>

record ('k, 'p, 'c) host =
  ho_xdg_config :: "path option"
  ho_xdg_data :: "path option"
  ho_home :: "path option"
  ho_hostname :: "string option"
  ho_umode :: nat
  ho_rcgen :: "('k, 'p, 'c) rcgen_api"
  ho_sha256 :: "u8 list \<Rightarrow> u8 list"
  ho_fresh_key :: "string + 'k"
  ho_from_toml :: "string \<Rightarrow> string + config"
  ho_from_json :: "string \<Rightarrow> string + persisted_state"
  ho_bind :: "socket_addr \<Rightarrow> string + socket_addr option"
  ho_bus_configure :: "string + unit"
  ho_bus_connect :: "string + unit"
  ho_dbus_proxy :: bool
  ho_extension_owned :: "string + bool"
  ho_extension_proxy :: bool

datatype startup =
    HomeNotSet
  | KilledSavingIdentity
  | NoIdentity identity_error
  | CannotBind string socket_addr
  | NoBus string
  | Serving daemon local_identity duration

definition main_start :: "('k, 'p, 'c) host \<Rightarrow> fate list \<Rightarrow> fs \<Rightarrow> startup \<times> fs" where
  "main_start h fates fs =
     (case xdg_config_dir (ho_xdg_config h) (ho_home h) of
        None \<Rightarrow> (HomeNotSet, fs)
      | Some config_dir \<Rightarrow>
     (case xdg_data_dir (ho_xdg_data h) (ho_home h) of
        None \<Rightarrow> (HomeNotSet, fs)
      | Some data_dir \<Rightarrow>
     (let config = load_config (ho_from_toml h) fs (join config_dir ''config.toml'') in
      case load_or_generate (ho_umode h) (ho_rcgen h) (ho_sha256 h) data_dir (ho_fresh_key h) fates fs of
        (Crashed, fs1) \<Rightarrow> (KilledSavingIdentity, fs1)
      | (Finished (Inl e), fs1) \<Rightarrow> (NoIdentity e, fs1)
      | (Finished (Inr ident), fs1) \<Rightarrow>
          (let listen_addr = SocketV4 0 0 0 0 (cfg_listen_port config) in
           case ho_bind h listen_addr of
             Inl e \<Rightarrow> (CannotBind e listen_addr, fs1)
           | Inr local_addr \<Rightarrow>
               (let bound_addr = (case local_addr of Some a \<Rightarrow> a | None \<Rightarrow> listen_addr);
                    name = device_name config fs1 (ho_hostname h);
                    d = boot (ho_from_json h) (ident_device_id ident) name bound_addr data_dir False fs1 in
                case ho_bus_configure h of
                  Inl e \<Rightarrow> (NoBus e, fs1)
                | Inr _ \<Rightarrow>
                    (case ho_bus_connect h of
                       Inl e \<Rightarrow> (NoBus e, fs1)
                     | Inr _ \<Rightarrow>
                         (Serving
                            (d\<lparr>sh_backend := gnome_probe (ho_dbus_proxy h) (ho_extension_owned h) (ho_extension_proxy h)\<rparr>)
                            \<lparr>li_device_id = ident_device_id ident, li_name = name, li_capabilities = []\<rparr>
                            (from_secs 20), fs1)))))))"

section \<open>What start-up needs\<close>

text \<open>The essentials: a place for the data, an identity in it, a socket, the session bus.\<close>

definition essentials :: "('k, 'p, 'c) host \<Rightarrow> fate list \<Rightarrow> fs \<Rightarrow> bool" where
  "essentials h fates fs \<longleftrightarrow>
     (case (xdg_config_dir (ho_xdg_config h) (ho_home h), xdg_data_dir (ho_xdg_data h) (ho_home h)) of
        (Some config_dir, Some data_dir) \<Rightarrow>
          (\<exists>ident. fst (load_or_generate (ho_umode h) (ho_rcgen h) (ho_sha256 h) data_dir (ho_fresh_key h) fates fs)
             = Finished (Inr ident)) \<and>
          (\<forall>port. \<exists>a. ho_bind h (SocketV4 0 0 0 0 port) = Inr a) \<and>
          ho_bus_configure h = Inr () \<and> ho_bus_connect h = Inr ()
      | _ \<Rightarrow> False)"

lemma load_or_generate_existing:
  "exists_path fs (join dir cert_file) \<Longrightarrow> exists_path fs (join dir key_file) \<Longrightarrow>
     load_or_generate umode rc sha256 dir fresh fates fs = (Finished (identity_load rc sha256 dir fs), fs)"
  by (simp add: load_or_generate_def)

lemma main_start_disk:
  assumes "main_start h fates fs = (r, fs1)" and "xdg_data_dir (ho_xdg_data h) (ho_home h) = Some data_dir"
    and "exists_path fs (join data_dir cert_file)" and "exists_path fs (join data_dir key_file)"
  shows "fs1 = fs"
  using assms(1,2)
  by (auto simp: main_start_def load_or_generate_existing [OF assms(3,4)] Let_def split: option.splits sum.splits)

lemma boot_simps:
  "sh_device_id (boot fj i n a dir b fs) = i" "sh_name (boot fj i n a dir b fs) = n"
  "sh_state_path (boot fj i n a dir b fs) = join dir ''devices.json''"
  "sh_state (boot fj i n a dir b fs) = load fj fs (join dir ''devices.json'')"
  "sh_trust (boot fj i n a dir b fs) = trust_new (device_ids (load fj fs (join dir ''devices.json'')))"
  by (simp_all add: boot_def Let_def)

text \<open>
  C38. Start-up needs only the essentials. Given a data directory, an identity that can be loaded
  or made, a free socket and the session bus, the daemon serves: whatever is or is not in the
  configuration file and the device file, and whether or not the GNOME extension answers. It
  then trusts exactly the devices the file names (none if it is missing or malformed),
  introduces itself to its peers under the identity and the name it keeps, and has a clipboard
  exactly if the extension is there. A start that finds an identity writes nothing, whatever becomes of it.
\<close>

theorem startup_needs_only_essentials:
  assumes "main_start h fates fs = (r, fs1)"
  shows "(essentials h fates fs \<longrightarrow>
      (\<exists>d l. r = Serving d l (from_secs 20) \<and>
         paired (sh_trust d) = set (device_ids (load (ho_from_json h) fs1 (sh_state_path d))) \<and>
         li_device_id l = sh_device_id d \<and> li_name l = sh_name d \<and>
         sh_backend d = (ho_dbus_proxy h \<and> ho_extension_owned h = Inr True \<and> ho_extension_proxy h))) \<and>
    (\<forall>data_dir. xdg_data_dir (ho_xdg_data h) (ho_home h) = Some data_dir \<and>
       exists_path fs (join data_dir cert_file) \<and> exists_path fs (join data_dir key_file) \<longrightarrow> fs1 = fs)"
proof (intro conjI impI allI)
  assume ess: "essentials h fates fs"
  then obtain config_dir data_dir ident where dirs: "xdg_config_dir (ho_xdg_config h) (ho_home h) = Some config_dir"
      "xdg_data_dir (ho_xdg_data h) (ho_home h) = Some data_dir"
    and ident: "fst (load_or_generate (ho_umode h) (ho_rcgen h) (ho_sha256 h) data_dir (ho_fresh_key h) fates fs)
      = Finished (Inr ident)"
    and bus: "ho_bus_configure h = Inr ()" "ho_bus_connect h = Inr ()"
    by (auto simp: essentials_def split: option.splits)
  obtain fs' where load: "load_or_generate (ho_umode h) (ho_rcgen h) (ho_sha256 h) data_dir (ho_fresh_key h) fates fs
      = (Finished (Inr ident), fs')"
    using ident by (metis prod.collapse)
  obtain a where "ho_bind h (SocketV4 0 0 0 0
      (cfg_listen_port (load_config (ho_from_toml h) fs (join config_dir ''config.toml'')))) = Inr a"
    using ess dirs by (auto simp: essentials_def)
  with assms dirs load bus show "\<exists>d l. r = Serving d l (from_secs 20) \<and>
         paired (sh_trust d) = set (device_ids (load (ho_from_json h) fs1 (sh_state_path d))) \<and>
         li_device_id l = sh_device_id d \<and> li_name l = sh_name d \<and>
         sh_backend d = (ho_dbus_proxy h \<and> ho_extension_owned h = Inr True \<and> ho_extension_proxy h)"
    by (auto simp: main_start_def Let_def boot_simps trust_new_def gnome_probe_def split: sum.splits)
next
  fix data_dir
  assume "xdg_data_dir (ho_xdg_data h) (ho_home h) = Some data_dir \<and>
       exists_path fs (join data_dir cert_file) \<and> exists_path fs (join data_dir key_file)"
  then show "fs1 = fs"
    using main_start_disk [OF assms] by blast
qed

definition demo_host :: "(string, unit, string) host" where
  "demo_host =
     \<lparr>ho_xdg_config = None, ho_xdg_data = None, ho_home = Some [''home'', ''tux''], ho_hostname = Some ''desk'',
      ho_umode = 420, ho_rcgen = demo_rcgen, ho_sha256 = (\<lambda>s. s), ho_fresh_key = Inr ''k'',
      ho_from_toml = (\<lambda>_. Inl ''malformed''), ho_from_json = (\<lambda>_. Inl ''malformed''), ho_bind = (\<lambda>a. Inr (Some a)),
      ho_bus_configure = Inr (), ho_bus_connect = Inr (), ho_dbus_proxy = True, ho_extension_owned = Inr False,
      ho_extension_proxy = True\<rparr>"

theorem startup_needs_only_essentials_witness:
  "\<exists>d l fs1. main_start demo_host [] (\<lambda>_. None) = (Serving d l (from_secs 20), fs1) \<and> \<not> sh_backend d"
proof -
  obtain r fs1 where start: "main_start demo_host [] (\<lambda>_. None) = (r, fs1)"
    by (metis surj_pair)
  have "essentials demo_host [] (\<lambda>_. None)"
    by (simp add: essentials_def demo_host_def xdg_config_dir_def xdg_data_dir_def xdg_dir_def load_or_generate_def
        exists_path_def generate_def with_key_def demo_rcgen_def identity_save_def perform_all_completes)
  with startup_needs_only_essentials [OF start] start show ?thesis
    by (auto simp: demo_host_def)
qed

end
