(* ===== verification/Daemon_Restart.thy ===== *)
theory Daemon_Restart
  imports Daemon_Pairing
begin

text \<open>
  The daemon's disk: what a restart finds is what the daemon knew, unless saving failed.
\<close>

definition disk where
  "disk d = (dm_fs d, sh_state d, sh_state_path d)"

definition saved :: "(string \<Rightarrow> string + persisted_state) \<Rightarrow> path \<Rightarrow> daemon \<Rightarrow> bool" where
  "saved from_str p d \<longleftrightarrow>
     names_a_file p \<and> sh_state_path d = p \<and> load from_str (dm_fs d) p = sh_state d"

lemma saved_disk: "disk d' = disk d \<Longrightarrow> saved from_str p d' = saved from_str p d"
  by (simp add: disk_def saved_def)

lemma mark_connected_disk: "mark_connected r i n d = (out, d') \<Longrightarrow> disk d' = disk d"
  by (drule mark_connected_frame) (simp add: disk_def core_def)

lemma handle_handshake_disk:
  assumes "handle_handshake r i n tok now d = (out, d')"
  shows "disk d' = disk d"
proof (cases "is_paired (sh_trust d) i")
  case True
  then show ?thesis
    using assms by (simp add: handle_handshake_def mark_connected_disk)
next
  case False
  then show ?thesis
    using assms
    by (auto simp: handle_handshake_def redeem_current_def await_confirmation_def Let_def disk_def
        split: option.splits prod.splits bool.splits)
qed

lemma orchestrator_turn_disk:
  assumes "orchestrator_turn now d = (out, d')"
  shows "disk d' = disk d"
proof -
  have "handle_session_event r ev now e = (out, d') \<Longrightarrow> disk d' = disk e" for r ev e
    by (cases ev)
      (auto simp: handle_session_event_def disk_def core_def split: option.splits
        dest!: handle_handshake_disk handle_received_frame handle_closed_frame)
  then show ?thesis
    using assms by (fastforce simp: orchestrator_turn_def disk_def split: if_splits list.splits listener_event.splits)
qed

lemma persist_state_saved:
  assumes "persist_state env fates d = (out, d')" and "names_a_file p" and "sh_state_path d = p"
    and "json_ok (env_to_vec env) from_str (sh_state d)" and "StateSaved False \<notin> set out" and "dm_alive d'"
    and "dm_alive d"
  shows "saved from_str p d'"
proof -
  obtain r fs' where s: "save (env_umode env) (env_to_vec env) (sh_state d) (sh_state_path d) fates (dm_fs d) = (r, fs')"
    by (metis surj_pair)
  then have "r = Finished (Inr ())" and d': "d' = d\<lparr>dm_fs := fs'\<rparr>"
    using assms(1,5,6) by (auto simp: persist_state_def split: outcome.splits)
  then have "load from_str fs' p = sh_state d"
    using save_json_crash_safe [OF assms(2,4) s [unfolded save_def assms(3)], of empty_state] by (simp add: load_def)
  with assms(2,3) d' show ?thesis
    by (simp add: saved_def)
qed

lemma finish_pairing_saved:
  assumes "finish_pairing env fates c d = (out, d')" and "saved from_str p d" and "dm_alive d" and "dm_alive d'"
    and "\<And>st. json_ok (env_to_vec env) from_str st" and "StateSaved False \<notin> set out"
  shows "saved from_str p d'"
proof -
  define d1 where "d1 = d\<lparr>sh_trust := close_pairing_window (pin (sh_trust d) (cf_device c)),
    sh_state := upsert (sh_state d) (cf_device c) (cf_name c)\<rparr>"
  obtain out2 d2 where p: "persist_state env fates d1 = (out2, d2)"
    by (metis surj_pair)
  obtain out3 d3 where m: "mark_connected (cf_remote c) (cf_device c) (cf_name c) d2 = (out3, d3)"
    by (metis surj_pair)
  have alive2: "dm_alive d2" and "d' = d3" and "set out2 \<subseteq> set out"
    using assms(1,4) p m by (auto simp: finish_pairing_def Let_def d1_def split: if_splits)
  have "saved from_str p d2"
    using assms(2,3,5,6) alive2 \<open>set out2 \<subseteq> set out\<close>
    by (intro persist_state_saved [OF p]) (auto simp: d1_def saved_def)
  then show ?thesis
    using saved_disk [OF mark_connected_disk [OF m]] \<open>d' = d3\<close> by simp
qed

lemma dbus_unpair_saved:
  assumes "dbus_unpair env fates hex d = (out, d')" and "saved from_str p d" and "dm_alive d" and "dm_alive d'"
    and "\<And>st. json_ok (env_to_vec env) from_str st" and "StateSaved False \<notin> set out"
  shows "saved from_str p d'"
proof (cases "from_hex hex")
  case None
  then show ?thesis
    using assms(1,2) by (simp add: dbus_unpair_def)
next
  case (Some i)
  define d1 where "d1 = d\<lparr>sh_trust := unpair (sh_trust d) i, sh_state := remove (sh_state d) i\<rparr>"
  obtain out2 d2 where p: "persist_state env fates d1 = (out2, d2)"
    by (metis surj_pair)
  have "dm_alive d2" and "disk d' = disk d2" and "set out2 \<subseteq> set out"
    using assms(1,4) p Some by (auto simp: dbus_unpair_def Let_def d1_def disk_def split: if_splits)
  moreover from this have "saved from_str p d2"
    using assms(2,3,5,6) by (intro persist_state_saved [OF p]) (auto simp: d1_def saved_def)
  ultimately show ?thesis
    using saved_disk by blast
qed

lemma typed_step_saved:
  assumes "typed_step env d i = Some (out, d')" and "saved from_str p d" and "dm_alive d'"
    and "\<And>st. json_ok (env_to_vec env) from_str st" and "StateSaved False \<notin> set out"
  shows "saved from_str p d'"
  using assms(1)
proof (cases rule: typed_stepE)
  case (orchestrator now)
  then show ?thesis
    using assms(2) saved_disk [OF orchestrator_turn_disk] by blast
next
  case (confirmation now fates)
  from confirmation(3) show ?thesis
  proof (cases rule: confirmation_turnE)
    case (accepted c)
    have "saved from_str p (d\<lparr>dm_confirming := None\<rparr>)"
      using assms(2) by (simp add: saved_def)
    from finish_pairing_saved [OF accepted(2) this _ assms(3) assms(4,5)] show ?thesis
      using confirmation(1) by simp
  qed (use assms(2) in \<open>simp_all add: saved_def\<close>)
next
  case (start os random now)
  then show ?thesis
    using assms(2) by (auto simp: start_pairing_def Let_def saved_def split: option.splits)
next
  case (answer hex accept)
  then have "disk d' = disk d"
    by (auto simp: confirm_pairing_def Let_def disk_def split: option.splits if_splits)
  then show ?thesis
    using saved_disk assms(2) by blast
next
  case (revoke hex fates)
  from dbus_unpair_saved [OF revoke(3) assms(2) revoke(1) assms(3-5)] show ?thesis .
next
  case (change c r)
  then have "disk d' = disk d"
    by (auto simp: disk_def core_def dest!: watch_frame)
  then show ?thesis
    using saved_disk assms(2) by blast
qed (use assms(2) in \<open>simp_all add: saved_def\<close>)

lemma run_saved:
  "run_daemon env d inputs = Some (outs, d') \<Longrightarrow> saved from_str p d \<Longrightarrow> dm_alive d' \<Longrightarrow>
     (\<And>st. json_ok (env_to_vec env) from_str st) \<Longrightarrow> StateSaved False \<notin> set outs \<Longrightarrow> saved from_str p d'"
proof (induction inputs arbitrary: d outs)
  case Nil
  then show ?case by simp
next
  case (Cons i inputs)
  from Cons.prems(1) obtain os1 d1 os2 where s: "typed_step env d i = Some (os1, d1)"
    and r: "run_daemon env d1 inputs = Some (os2, d')" and os: "outs = os1 @ os2"
    by (rule run_steps_ConsE)
  have "saved from_str p d1"
    using Cons.prems(2,4,5) alive_before [OF r Cons.prems(3)] os by (intro typed_step_saved [OF s]) auto
  then show ?case
    using Cons.IH [OF r] Cons.prems(3-5) os by simp
qed

lemma names_a_state_file: "names_a_file (join dir ''devices.json'')"
  by (simp add: names_a_file_def join_def)

text \<open>
  C8. A restart changes nothing about trust. After any run of the daemon in which no save was
  reported to have failed, stopping it and starting it again on the disk it leaves behind
  gives a daemon that trusts exactly the devices the old one trusted, knows them by the same
  names, and has no pairing in progress.
\<close>

theorem restart_keeps_trust:
  assumes "canonical (load from_str fs (join dir ''devices.json''))"
    and "\<forall>st. json_ok (env_to_vec env) from_str st"
    and "run_daemon env (boot from_str ident name addr dir backend fs) inputs = Some (outs, d')"
    and "dm_alive d'" and "StateSaved False \<notin> set outs"
  shows "let d2 = boot from_str ident name addr dir backend (dm_fs d')
         in paired (sh_trust d2) = paired (sh_trust d') \<and> sh_state d2 = sh_state d' \<and>
            dm_confirming d2 = None \<and> sh_current_token d2 = None"
proof -
  let ?d = "boot from_str ident name addr dir backend fs" and ?p = "join dir ''devices.json''"
  have "saved from_str ?p ?d"
    by (simp add: saved_def boot_def Let_def names_a_state_file)
  then have "saved from_str ?p d'"
    using assms(2) by (intro run_saved [OF assms(3) _ assms(4) _ assms(5)]) simp_all
  then have "load from_str (dm_fs d') ?p = sh_state d'"
    by (simp add: saved_def)
  moreover have "daemon_inv d'"
    using pairing.run_inv [OF boot_inv [OF assms(1)] assms(3)] .
  then have "paired (sh_trust d') = set (device_ids (sh_state d'))"
    by (simp add: daemon_inv_def pins_agree_def known_def)
  ultimately show ?thesis
    by (simp add: boot_def Let_def trust_new_def)
qed

text \<open>A format that represents every state, and the small run of pairing one phone, as an instance.\<close>

definition hex_to_vec :: "persisted_state \<Rightarrow> string + u8 list" where
  "hex_to_vec st = Inr (string_bytes (to_hex (string_bytes
     (concat (map (\<lambda>(k, v). stuff k @ stuff v) (map (\<lambda>d. (pd_device_id d, pd_name d)) (devices st)))))))"

definition hex_from_str :: "string \<Rightarrow> string + persisted_state" where
  "hex_from_str s =
     (case hex_slots s 0 (length s div 2) of
        None \<Rightarrow> Inl ''malformed''
      | Some bs \<Rightarrow>
          Inr \<lparr>devices = map (\<lambda>(k, v). \<lparr>pd_device_id = k, pd_name = v\<rparr>) (unstuff_pairs (length bs) (bytes_string bs))\<rparr>)"

lemma device_eta: "\<lparr>pd_device_id = pd_device_id x, pd_name = pd_name x\<rparr> = (x :: persisted_device)"
  by (cases x) simp

lemma hex_json_ok: "json_ok hex_to_vec hex_from_str st"
proof -
  let ?u = "map (\<lambda>d. (pd_device_id d, pd_name d)) (devices st)"
  let ?s = "concat (map (\<lambda>(k, v). stuff k @ stuff v) ?u)"
  have "hex_slots (to_hex (string_bytes ?s)) 0 (length (to_hex (string_bytes ?s)) div 2) = Some (string_bytes ?s)"
    using hex_slots_to_hex [of "[]" "string_bytes ?s" 0 "length ?s"] ascii_to_hex by simp
  moreover have "unstuff_pairs (length ?s) ?s = ?u"
    by (rule unstuff_pairs_stuff [OF length_stuffed])
  ultimately have "hex_from_str (to_hex (string_bytes ?s)) = Inr st"
    by (cases st) (simp add: hex_from_str_def comp_def device_eta)
  then show ?thesis
    unfolding json_ok_def hex_to_vec_def
    by (auto simp: from_utf8_string_bytes ascii_is_rust_string ascii_to_hex)
qed

definition hex_env :: "(string \<times> string) list env" where
  "hex_env = demo_env\<lparr>env_to_vec := hex_to_vec\<rparr>"

definition hex_daemon :: daemon where
  "hex_daemon = boot hex_from_str (replicate 32 0) ''desk'' (SocketV4 0 0 0 0 58210) [''data''] True (\<lambda>_. None)"

lemma hex_save: "\<exists>fs'. save 420 hex_to_vec st p [] fs = (Finished (Inr ()), fs')"
  by (simp add: save_def save_json_def hex_to_vec_def perform_all_completes)

lemma hex_load [simp]: "load hex_from_str (\<lambda>_. None) p = empty_state"
  by (simp add: load_def load_json_def read_to_string_def contents_def)

lemma hex_pairing_run:
  "\<exists>outs d'. run_daemon hex_env hex_daemon pairing_inputs = Some (outs, d') \<and> dm_alive d' \<and>
     StateSaved False \<notin> set outs \<and> paired (sh_trust d') = {phone}"
proof -
  obtain fs' where "save 420 hex_to_vec \<lparr>devices = [\<lparr>pd_device_id = to_hex phone, pd_name = ''pixel''\<rparr>]\<rparr>
      (join [''data''] ''devices.json'') [] (\<lambda>_. None) = (Finished (Inr ()), fs')"
    using hex_save by blast
  then show ?thesis
    by (simp add: pairing_inputs_def hex_daemon_def boot_def Let_def empty_state_def device_ids_def entry_ids_def
        List.map_filter_def trust_new_def run_defs demo_steps hex_env_def demo_env_def from_secs_def)
qed

theorem restart_keeps_trust_witness:
  "\<exists>outs d'. run_daemon hex_env hex_daemon pairing_inputs = Some (outs, d') \<and>
     paired (sh_trust (boot hex_from_str (replicate 32 0) ''desk'' (SocketV4 0 0 0 0 58210) [''data''] True (dm_fs d'))) = {phone}"
proof -
  obtain outs d' where r: "run_daemon hex_env hex_daemon pairing_inputs = Some (outs, d')" "dm_alive d'"
      "StateSaved False \<notin> set outs" "paired (sh_trust d') = {phone}"
    using hex_pairing_run by blast
  have "canonical (load hex_from_str (\<lambda>_. None) (join [''data''] ''devices.json''))"
    by (simp add: canonical_empty)
  moreover have "\<forall>st. json_ok (env_to_vec hex_env) hex_from_str st"
    by (simp add: hex_env_def hex_json_ok)
  ultimately show ?thesis
    using restart_keeps_trust [OF _ _ r(1) [unfolded hex_daemon_def] r(2,3)] r(1,4) by (auto simp: Let_def)
qed

end
