(* ===== verification/Daemon_Clips.thy ===== *)
theory Daemon_Clips
  imports Daemon_Pairing
begin

text \<open>
  The daemon's clipboard sync and its idea of who is connected: what reaches whom, what does not
  come back, and the four places where the bookkeeping by device id does not match the
  connections.
\<close>

section \<open>What happens to a received clip\<close>

text \<open>
  A received clip moves on only if it may. If the connection has not introduced itself, or
  the device it introduced itself as is not pinned (the human has not answered yet, or said
  no), or the content is not plain text or is the last one seen, then nothing is sent or
  written and nothing changes. Otherwise the local clipboard, if there is one, gets exactly the
  content, and every connected device but the sender gets exactly the clip, once each.
\<close>

theorem received_clip_gate:
  "handle_session_event remote (EvClipboardReceived clip) now d =
     (case sh_remote_to_device d remote of
        None \<Rightarrow> ([], d)
      | Some sender \<Rightarrow>
          if sender \<in> paired (sh_trust d) \<and> clip.mime clip = ''text/plain'' \<and> sh_last_hash d \<noteq> Some (clip.hash clip)
          then ((if sh_backend d then [WritesClipboard ''text/plain'' (clip.content clip)] else []) @
                  [SendsClip conn clip. (i, conn) \<leftarrow> sh_connected_devices d, i \<noteq> sender],
                d\<lparr>sh_last_hash := Some (clip.hash clip)\<rparr>)
          else ([], d))"
proof -
  have "map (\<lambda>(_, conn). SendsClip conn clip) (filter (\<lambda>(i, _). i \<noteq> s) xs)
      = [SendsClip conn clip. (i, conn) \<leftarrow> xs, i \<noteq> s]" for s and xs :: "(device_id \<times> nat) list"
    by (induction xs) auto
  then show ?thesis
    by (auto simp: handle_session_event_def handle_received_def is_paired_def should_broadcast_def mime_text_plain_def
        split: option.split)
qed

section \<open>Echoes\<close>

text \<open>Clips are told apart by content when the hash does not collide.\<close>

lemma clip_new_of_ok:
  "clip_ok blake3 clip \<Longrightarrow> clip_new blake3 mime_text_plain (clip.content clip) = Inr clip"
  by (cases clip) (auto simp: clip_new_def clip_ok_def)

lemma handle_received_last_hash:
  assumes "handle_received sender clip d = (out, d')" and "is_paired (sh_trust d) sender"
    and "clip.mime clip = mime_text_plain"
  shows "sh_last_hash d' = Some (clip.hash clip)"
  using assms by (auto simp: handle_received_def should_broadcast_def split: if_splits)

text \<open>
  C28. Nothing echoes. When a paired device's clip has been taken in, the change notification that
  writing it to the local clipboard causes is not broadcast, and the same clip coming back
  from any device is not applied or relayed again; and when a local change has been broadcast,
  a device sending it back has no effect either.
\<close>

theorem no_echo:
  assumes "clip_ok (env_blake3 env) clip" and "is_paired (sh_trust d) sender"
  shows "(\<forall>out d1. handle_received sender clip d = (out, d1) \<longrightarrow>
      watch_and_broadcast env \<lparr>cc_mime = mime_text_plain\<rparr> (Inr (clip.content clip)) d1 = ([], d1) \<and>
      (\<forall>other. handle_received other clip d1 = ([], d1))) \<and>
    (\<forall>out d1. watch_and_broadcast env \<lparr>cc_mime = mime_text_plain\<rparr> (Inr (clip.content clip)) d = (out, d1) \<longrightarrow>
      (\<forall>other. handle_received other clip d1 = ([], d1)))"
proof -
  have quiet: "handle_received other clip d1 = ([], d1)" if "sh_last_hash d1 = Some (clip.hash clip)" for other d1
    using that by (simp add: handle_received_def should_broadcast_def)
  have still: "watch_and_broadcast env \<lparr>cc_mime = mime_text_plain\<rparr> (Inr (clip.content clip)) d1 = ([], d1)"
    if "sh_last_hash d1 = Some (clip.hash clip)" for d1
    using that assms(1) by (simp add: watch_and_broadcast_def clip_new_of_ok should_broadcast_def)
  have "clip.mime clip = mime_text_plain"
    using assms(1) by (simp add: clip_ok_def)
  moreover have "sh_last_hash d1 = Some (clip.hash clip)"
    if "watch_and_broadcast env \<lparr>cc_mime = mime_text_plain\<rparr> (Inr (clip.content clip)) d = (out, d1)" for out d1
    using that assms(1) by (auto simp: watch_and_broadcast_def clip_new_of_ok should_broadcast_def split: if_splits)
  ultimately show ?thesis
    using quiet still handle_received_last_hash [OF _ assms(2)] by blast
qed

definition hello :: clip where
  "hello = \<lparr>mime = mime_text_plain, content = [104, 105], hash = [104, 105]\<rparr>"

lemma hello_ok: "clip_ok (env_blake3 demo_env) hello"
  by (simp add: hello_def clip_ok_def demo_env_def max_content_len_def)

theorem no_echo_witness:
  "watch_and_broadcast demo_env \<lparr>cc_mime = mime_text_plain\<rparr> (Inr [104, 105]) (snd (handle_received phone hello paired_daemon))
    = ([], snd (handle_received phone hello paired_daemon))"
proof -
  obtain out d1 where "handle_received phone hello paired_daemon = (out, d1)"
    by (metis surj_pair)
  then show ?thesis
    using no_echo [OF hello_ok paired_daemon_phone(1)] by (simp add: hello_def)
qed

section \<open>Bookkeeping by device id\<close>

text \<open>
  A device that is unpaired while it is connected goes on receiving the clipboard. The pin is
  gone, and a clip from the device would be dropped; but its connection stays in the table the
  broadcast reads, so the next change of the local clipboard is still sent to it.
\<close>

theorem unpaired_device_still_receives:
  assumes "from_hex hex = Some i" and "(i, conn) \<in> set (sh_connected_devices d)"
    and "dbus_unpair env fates hex d = (out, d1)"
    and "clip_new (env_blake3 env) mime_text_plain bs = Inr clip" and "sh_last_hash d \<noteq> Some (clip.hash clip)"
  shows "\<not> is_paired (sh_trust d1) i \<and>
    SendsClip conn clip \<in> set (fst (watch_and_broadcast env \<lparr>cc_mime = mime_text_plain\<rparr> (Inr bs) d1))"
proof -
  define d0 where "d0 = d\<lparr>sh_trust := unpair (sh_trust d) i, sh_state := remove (sh_state d) i\<rparr>"
  obtain out2 d2 where p: "persist_state env fates d0 = (out2, d2)"
    by (metis surj_pair)
  have "sh_trust d2 = unpair (sh_trust d) i" and "sh_connected_devices d2 = sh_connected_devices d"
    and "sh_last_hash d2 = sh_last_hash d"
    using p by (auto simp: persist_state_def d0_def split: prod.splits outcome.splits)
  moreover have "sh_trust d1 = sh_trust d2" and "sh_connected_devices d1 = sh_connected_devices d2"
    and "sh_last_hash d1 = sh_last_hash d2"
    using assms(1,3) p by (auto simp: dbus_unpair_def Let_def d0_def split: if_splits)
  ultimately show ?thesis
    using assms(2,4,5)
    by (force simp: is_paired_def unpair_def watch_and_broadcast_def should_broadcast_def)
qed

theorem unpaired_device_still_receives_witness:
  "SendsClip 1 hello \<in> set (fst (watch_and_broadcast demo_env \<lparr>cc_mime = mime_text_plain\<rparr> (Inr [104, 105])
      (snd (dbus_unpair demo_env [] (to_hex phone) paired_daemon))))"
proof -
  obtain out d1 where u: "dbus_unpair demo_env [] (to_hex phone) paired_daemon = (out, d1)"
    by (metis surj_pair)
  have "clip_new (env_blake3 demo_env) mime_text_plain [104, 105] = Inr hello"
    using clip_new_of_ok [OF hello_ok] by (simp add: hello_def)
  from unpaired_device_still_receives [OF from_hex_phone _ u this]
  show ?thesis
    using u by (simp add: paired_daemon_phone)
qed

text \<open>
  The close of an old connection disconnects the new one. If a device has reconnected from
  another address before the daemon hears that its old connection is dead, that late close
  removes the device from the table of connected devices, although the new connection is
  alive, known and introduced: the device receives nothing until it connects again.
\<close>

theorem stale_close_disconnects:
  assumes "sh_remote_to_device d old = Some i" and "sh_remote_to_device d new = Some i" and "old \<noteq> new"
    and "sh_remote_handles d new = Some conn" and "map_of (sh_connected_devices d) i = Some conn"
    and "handle_session_event old (EvClosed reason) now d = (out, d1)"
  shows "map_of (sh_connected_devices d1) i = None \<and>
    sh_remote_handles d1 new = Some conn \<and> sh_remote_to_device d1 new = Some i"
  using assms by (auto simp: handle_session_event_def handle_closed_def Let_def set_connected_def split: option.splits if_splits)

definition roamed_daemon :: daemon where
  "roamed_daemon = snd (the (run_daemon demo_env paired_daemon
     [NetEvent (LConnected (SocketV4 10 0 0 8 4000) 2),
      NetEvent (LSession (SocketV4 10 0 0 8 4000) (EvPeerHandshake phone ''pixel'' [] None)),
      OrchestratorTurn 4, OrchestratorTurn 5]))"

lemma roamed_daemon_state:
  "sh_remote_to_device roamed_daemon = [phone_addr \<mapsto> phone, SocketV4 10 0 0 8 4000 \<mapsto> phone]"
  "sh_remote_handles roamed_daemon = [phone_addr \<mapsto> 1, SocketV4 10 0 0 8 4000 \<mapsto> 2]"
  "sh_connected_devices roamed_daemon = [(phone, 2)]"
  using paired_daemon_phone(1)
  unfolding roamed_daemon_def
  by (simp_all add: run_defs paired_daemon_phone paired_daemon_idle)

theorem stale_close_disconnects_witness:
  "map_of (sh_connected_devices (snd (handle_session_event phone_addr (EvClosed CloseKeepaliveTimedOut) 6 roamed_daemon))) phone = None"
proof -
  obtain out d1 where c: "handle_session_event phone_addr (EvClosed CloseKeepaliveTimedOut) 6 roamed_daemon = (out, d1)"
    by (metis surj_pair)
  have "map_of (sh_connected_devices d1) phone = None"
    using stale_close_disconnects [OF _ _ _ _ _ c, where i = phone and new = "SocketV4 10 0 0 8 4000" and conn = 2]
    by (simp add: roamed_daemon_state phone_addr_def)
  with c show ?thesis by simp
qed

text \<open>
  The device id of a handshake is taken at its word. A peer that got past TLS (while a pairing
  window is open, any peer does) and introduces itself with the id of a paired device is
  treated as that device: without a token, without a human, its connection takes the place of
  the device's, so that broadcasts meant for the device go to it.
\<close>

theorem claimed_identity_accepted:
  assumes "is_paired (sh_trust d) i" and "sh_remote_handles d remote = Some conn"
    and "handle_session_event remote (EvPeerHandshake i name caps tok) now d = (out, d1)"
  shows "map_of (sh_connected_devices d1) i = Some conn \<and> sh_remote_to_device d1 remote = Some i \<and>
    (\<forall>o' \<in> set out. \<not> (\<exists>h f n. o' = PairingRequested h f n))"
proof -
  let ?d = "d\<lparr>sh_remote_to_device := (sh_remote_to_device d)(remote \<mapsto> i)\<rparr>"
  have m: "mark_connected remote i name ?d = (out, d1)"
    using assms(1,3) by (simp add: handle_session_event_def handle_handshake_def)
  have "sh_remote_to_device d1 = sh_remote_to_device ?d \<and> map_of (sh_connected_devices d1) i = Some conn"
    using m assms(2)
    by (auto simp: mark_connected_def ensure_device_object_def set_connected_def split: prod.splits option.splits if_splits)
  then show ?thesis
    using mark_connected_frame [OF m] by auto
qed

theorem claimed_identity_accepted_witness:
  "map_of (sh_connected_devices (snd (handle_session_event (SocketV4 66 0 0 6 6)
      (EvPeerHandshake phone ''not the pixel'' [] None) 9
      (paired_daemon\<lparr>sh_remote_handles := [SocketV4 66 0 0 6 6 \<mapsto> 13]\<rparr>)))) phone = Some 13"
proof -
  let ?d = "paired_daemon\<lparr>sh_remote_handles := [SocketV4 66 0 0 6 6 \<mapsto> 13]\<rparr>"
  obtain out d1 where h: "handle_session_event (SocketV4 66 0 0 6 6) (EvPeerHandshake phone ''not the pixel'' [] None) 9 ?d = (out, d1)"
    by (metis surj_pair)
  have "is_paired (sh_trust ?d) phone" "sh_remote_handles ?d (SocketV4 66 0 0 6 6) = Some 13"
    using paired_daemon_phone(1) by simp_all
  from claimed_identity_accepted [OF this h] show ?thesis
    using h by simp
qed

end
