(* ===== verification/Ffi_Core.thy ===== *)
theory Ffi_Core
  imports Ffi_State Identity Reconnect Qr_Uri
begin

text \<open>
  \<open>crates/ffi/src/core.rs\<close>: the Android core, one object with a few methods Kotlin calls, and a
  task per pairing that forwards the dialer's events to Kotlin. What the platform does (start a
  runtime, bind a socket) is an argument.
\<close>

section \<open>State\<close>

datatype core_error =
    IdentityFailed string
  | InvalidQr string
  | NetworkFailed string
  | InvalidClipboard string
  | NotConnected

record paired_device =
  pdev_id :: string
  pdev_name :: string

datatype core_event =
    CorePeerHandshake string string
  | CorePonged u64
  | CoreDisconnected string
  | CoreReconnecting u32 u64
  | CoreClipboardReceived string

record core =
  co_device_id :: device_id
  co_device_name :: string
  co_trust :: trust_store
  co_peers_path :: path
  co_active_session :: "nat option"
  co_fs :: fs

definition core_new ::
  "(string \<Rightarrow> string + persisted_peers) \<Rightarrow> (identity_error \<Rightarrow> string) \<Rightarrow> identity_error + ('k, 'c) identity
     \<Rightarrow> string + unit \<Rightarrow> path \<Rightarrow> string \<Rightarrow> fs \<Rightarrow> core_error + core" where
  "core_new from_str show_identity loaded runtime dir name fs =
     (case loaded of
        Inl e \<Rightarrow> Inl (IdentityFailed (show_identity e))
      | Inr ident \<Rightarrow>
          (let peers_path = join dir ''peers.json'';
               known = load_peers from_str fs peers_path in
           case runtime of
             Inl e \<Rightarrow> Inl (NetworkFailed e)
           | Inr _ \<Rightarrow>
               Inr \<lparr>co_device_id = ident_device_id ident, co_device_name = name,
                    co_trust = trust_new (peer_ids known), co_peers_path = peers_path,
                    co_active_session = None, co_fs = fs\<rparr>))"

definition device_fingerprint :: "core \<Rightarrow> string" where
  "device_fingerprint c = short_fingerprint (co_device_id c)"

section \<open>\<open>pair\<close>\<close>

text \<open>The texts of \<open>QrParseError\<close>.\<close>

definition show_qr_error :: "qr_parse_error \<Rightarrow> string" where
  "show_qr_error e =
     (case e of
        WrongScheme \<Rightarrow> ''not a penguinsync:// pairing URI''
      | MissingField f \<Rightarrow> ''missing required field `'' @ f @ ''`''
      | MalformedField f \<Rightarrow> ''malformed field `'' @ f @ ''`'')"

text \<open>What \<open>pair\<close> starts: a dialer and the task that forwards its events.\<close>

record forwarder =
  fw_device :: device_id
  fw_name :: string
  fw_persisted :: bool

record pairing_task =
  pt_addr :: socket_addr
  pt_local :: local_identity
  pt_keepalive :: duration
  pt_dialer :: dialer
  pt_forwarder :: forwarder

definition core_pair ::
  "'u url_api \<Rightarrow> string \<Rightarrow> string + unit \<Rightarrow> core \<Rightarrow> (core_error + pairing_task) \<times> core" where
  "core_pair url qr_uri endpoint c =
     (case decode_qr_uri url qr_uri of
        Inl e \<Rightarrow> (Inl (InvalidQr (show_qr_error e)), c)
      | Inr payload \<Rightarrow>
          if qr_version payload \<noteq> protocol_version
          then (Inl (InvalidQr (''protocol version mismatch: this app speaks '' @ show_nat (unat protocol_version) @
                  '', the QR is from '' @ show_nat (unat (qr_version payload)))), c)
          else (case qr_addrs payload of
             [] \<Rightarrow> (Inl (InvalidQr ''QR carried no candidate address''), c)
           | addr # _ \<Rightarrow>
               (let c1 = c\<lparr>co_trust := pin (co_trust c) (qr_device_id payload)\<rparr> in
                case endpoint of
                  Inl e \<Rightarrow> (Inl (NetworkFailed e), c1)
                | Inr _ \<Rightarrow>
                    (Inr \<lparr>pt_addr = addr,
                          pt_local = \<lparr>li_device_id = co_device_id c, li_name = co_device_name c, li_capabilities = []\<rparr>,
                          pt_keepalive = from_secs 20,
                          pt_dialer = dialer_start (Some (qr_token payload)),
                          pt_forwarder = \<lparr>fw_device = qr_device_id payload, fw_name = qr_name payload,
                            fw_persisted = False\<rparr>\<rparr>, c1))))"

section \<open>Events\<close>

definition describe_close :: "close_reason \<Rightarrow> string" where
  "describe_close reason =
     (case reason of
        CloseVersionMismatch ours theirs \<Rightarrow>
          ''protocol version mismatch (this app: '' @ show_nat (unat ours) @ '', peer: '' @ show_nat (unat theirs) @ '')''
      | CloseKeepaliveTimedOut \<Rightarrow> ''connection timed out''
      | ConnectionLost s \<Rightarrow> s
      | CloseFramingError s \<Rightarrow> s)"

definition to_core_event :: "dialer_event \<Rightarrow> core_event option" where
  "to_core_event event =
     (case event of
        DialConnected _ \<Rightarrow> None
      | Reconnecting n wait \<Rightarrow> Some (CoreReconnecting n (as_millis_u64 wait))
      | DialSession (EvPeerHandshake i name _ _) \<Rightarrow> Some (CorePeerHandshake (to_hex i) name)
      | DialSession (EvClipboardReceived clip) \<Rightarrow> map_option CoreClipboardReceived (from_utf8 (clip.content clip))
      | DialSession (EvPonged rtt) \<Rightarrow> Some (CorePonged (as_millis_u64 rtt))
      | DialSession (EvClosed reason) \<Rightarrow> Some (CoreDisconnected (describe_close reason)))"

definition track_session :: "dialer_event \<Rightarrow> nat option \<Rightarrow> nat option" where
  "track_session event active =
     (case event of
        DialConnected conn \<Rightarrow> Some conn
      | DialSession (EvClosed _) \<Rightarrow> None
      | _ \<Rightarrow> active)"

definition is_handshake :: "dialer_event \<Rightarrow> bool" where
  "is_handshake event = (case event of DialSession (EvPeerHandshake _ _ _ _) \<Rightarrow> True | _ \<Rightarrow> False)"

text \<open>
  One turn of \<open>forward_events\<close>. A failing save is only logged; a crash in it ends the process,
  so the outcome of the save is not looked at again.
\<close>

definition forward_event ::
  "(string \<Rightarrow> string + persisted_peers) \<Rightarrow> (persisted_peers \<Rightarrow> string + u8 list) \<Rightarrow> nat \<Rightarrow> fate list
     \<Rightarrow> dialer_event \<Rightarrow> forwarder \<times> core \<Rightarrow> core_event list \<times> forwarder \<times> core" where
  "forward_event from_str to_vec umode fates event s =
     (case s of (fw, c) \<Rightarrow>
       let c1 = c\<lparr>co_active_session := track_session event (co_active_session c)\<rparr>;
           (fw1, c2) =
             (if \<not> fw_persisted fw \<and> is_handshake event
              then (fw\<lparr>fw_persisted := True\<rparr>,
                    c1\<lparr>co_fs := snd (save_peers umode to_vec
                         (upsert_peer (load_peers from_str (co_fs c1) (co_peers_path c1)) (fw_device fw) (fw_name fw))
                         (co_peers_path c1) fates (co_fs c1))\<rparr>)
              else (fw, c1)) in
       (case to_core_event event of None \<Rightarrow> [] | Some ev \<Rightarrow> [ev], fw1, c2))"

section \<open>The other methods\<close>

text \<open>\<open>send_clipboard\<close>: its result, and the clip handed to a session, if one is active.\<close>

definition show_clip_error :: "clip_error \<Rightarrow> string" where
  "show_clip_error e =
     (case e of
        TooLarge n \<Rightarrow> ''clipboard content is '' @ show_nat n @ '' bytes, over the 102400-byte cap''
      | UnsupportedMime m \<Rightarrow> ''only text/plain is accepted in v1, got `'' @ m @ ''`'')"

definition send_clipboard :: "(u8 list \<Rightarrow> u8 list) \<Rightarrow> string \<Rightarrow> core \<Rightarrow> (core_error + unit) \<times> (nat \<times> clip) option" where
  "send_clipboard blake3 text c =
     (case clip_new blake3 mime_text_plain (string_bytes text) of
        Inl e \<Rightarrow> (Inl (InvalidClipboard (show_clip_error e)), None)
      | Inr clip \<Rightarrow>
          (case co_active_session c of
             Some conn \<Rightarrow> (Inr (), Some (conn, clip))
           | None \<Rightarrow> (Inl NotConnected, None)))"

definition list_paired_devices :: "(string \<Rightarrow> string + persisted_peers) \<Rightarrow> core \<Rightarrow> paired_device list" where
  "list_paired_devices from_str c =
     map (\<lambda>(i, n). \<lparr>pdev_id = i, pdev_name = n\<rparr>) (entries (load_peers from_str (co_fs c) (co_peers_path c)))"

text \<open>
  \<open>ConnectionHandle::cancel\<close> aborts the dialing task. That drops the loop's end of the channel,
  so the forwarder ends too; the task that drives the session is another one and goes on. The
  core itself is not touched.
\<close>

definition cancel :: "pairing_task \<Rightarrow> core \<Rightarrow> pairing_task \<times> core" where
  "cancel t c = (t\<lparr>pt_dialer := (pt_dialer t)\<lparr>dialing := False\<rparr>\<rparr>, c)"

section \<open>What Kotlin can rely on\<close>

fun forward_all where
  "forward_all from_str to_vec umode fates [] s = ([], s)"
| "forward_all from_str to_vec umode fates (ev # evs) s =
     (case forward_event from_str to_vec umode fates ev s of
        (out, s1) \<Rightarrow> (case forward_all from_str to_vec umode fates evs s1 of (out', s2) \<Rightarrow> (out @ out', s2)))"

lemma forward_event_frame:
  "forward_event from_str to_vec umode fates ev (fw, c) = (out, fw', c') \<Longrightarrow>
     co_active_session c' = track_session ev (co_active_session c) \<and> co_peers_path c' = co_peers_path c \<and>
     co_trust c' = co_trust c \<and> co_device_id c' = co_device_id c \<and>
     fw_device fw' = fw_device fw \<and> fw_name fw' = fw_name fw \<and>
     fw_persisted fw' = (fw_persisted fw \<or> is_handshake ev) \<and>
     out = (case to_core_event ev of None \<Rightarrow> [] | Some e \<Rightarrow> [e]) \<and>
     (fw_persisted fw \<or> \<not> is_handshake ev \<longrightarrow> co_fs c' = co_fs c)"
  by (auto simp: forward_event_def Let_def split: if_splits)

lemma forward_all_active:
  "forward_all from_str to_vec umode fates evs (fw, c) = (out, fw', c') \<Longrightarrow>
     co_active_session c' = fold track_session evs (co_active_session c)"
proof (induction evs arbitrary: fw c out)
  case Nil
  then show ?case by simp
next
  case (Cons ev evs)
  obtain out1 fw1 c1 where f: "forward_event from_str to_vec umode fates ev (fw, c) = (out1, fw1, c1)"
    by (metis surj_pair)
  obtain out2 where "forward_all from_str to_vec umode fates evs (fw1, c1) = (out2, fw', c')"
    using Cons.prems f by (auto split: prod.splits)
  from Cons.IH [OF this] show ?case
    using forward_event_frame [OF f] by simp
qed

definition changes_session :: "dialer_event \<Rightarrow> bool" where
  "changes_session ev = (case ev of DialConnected _ \<Rightarrow> True | DialSession (EvClosed _) \<Rightarrow> True | _ \<Rightarrow> False)"

lemma fold_track_unchanged: "\<forall>ev \<in> set evs. \<not> changes_session ev \<Longrightarrow> fold track_session evs a = a"
  by (induction evs) (auto simp: changes_session_def track_session_def split: dialer_event.splits session_event.splits)

text \<open>
  C30. \<open>send_clipboard\<close> knows whether anyone is there. Whatever events a pairing has forwarded,
  text within the size limit goes to the session that came up last if it has not closed since,
  and is answered with \<open>NotConnected\<close> if it has; what goes out is the text's bytes, with the
  hash of just those bytes.
\<close>

theorem send_clipboard_tracks_session:
  assumes "forward_all from_str to_vec umode fates (evs @ ev # later) (fw, c) = (out, fw', c')"
    and "\<forall>e \<in> set later. \<not> changes_session e" and "length text \<le> 102400"
  shows "(\<forall>conn. ev = DialConnected conn \<longrightarrow> send_clipboard blake3 text c' =
      (Inr (), Some (conn, \<lparr>mime = ''text/plain'', content = string_bytes text, hash = blake3 (string_bytes text)\<rparr>))) \<and>
    (\<forall>reason. ev = DialSession (EvClosed reason) \<longrightarrow> send_clipboard blake3 text c' = (Inl NotConnected, None))"
proof -
  have "co_active_session c' = track_session ev (fold track_session evs (co_active_session c))"
    using forward_all_active [OF assms(1)] fold_track_unchanged [OF assms(2)] by simp
  then show ?thesis
    using assms(3)
    by (simp add: send_clipboard_def track_session_def clip_new_def max_content_len_def mime_text_plain_def)
qed

definition demo_core :: core where
  "demo_core = \<lparr>co_device_id = replicate 32 1, co_device_name = ''pixel'', co_trust = trust_new [],
     co_peers_path = [''app'', ''peers.json''], co_active_session = None, co_fs = (\<lambda>_. None)\<rparr>"

definition demo_forwarder :: forwarder where
  "demo_forwarder = \<lparr>fw_device = replicate 32 0, fw_name = ''desk'', fw_persisted = False\<rparr>"

theorem send_clipboard_tracks_session_witness:
  "fst (send_clipboard (\<lambda>b. b) ''hi'' (snd (snd (forward_all (\<lambda>_. Inl []) (\<lambda>_. Inl []) 420 []
      [DialConnected 3, DialSession (EvClosed CloseKeepaliveTimedOut), Reconnecting 0 (from_secs 1)]
      (demo_forwarder, demo_core))))) = Inl NotConnected"
proof -
  let ?evs = "[DialConnected 3, DialSession (EvClosed CloseKeepaliveTimedOut), Reconnecting 0 (from_secs 1)]"
  obtain out fw' c' where f: "forward_all (\<lambda>_. Inl []) (\<lambda>_. Inl []) 420 [] ?evs (demo_forwarder, demo_core) = (out, fw', c')"
    by (metis surj_pair)
  then have f': "forward_all (\<lambda>_. Inl []) (\<lambda>_. Inl []) 420 []
      ([DialConnected 3] @ DialSession (EvClosed CloseKeepaliveTimedOut) # [Reconnecting 0 (from_secs 1)])
      (demo_forwarder, demo_core) = (out, fw', c')"
    by simp
  have "\<forall>e \<in> set [Reconnecting 0 (from_secs 1)]. \<not> changes_session e"
    by (simp add: changes_session_def)
  from send_clipboard_tracks_session [OF f' this, of "''hi''" "\<lambda>b. b"] show ?thesis
    using f by simp
qed

text \<open>
  Cancelling a pairing does not end its session. After \<open>cancel\<close> the dialer makes no further
  attempt and the forwarder reports nothing more, but the core still holds the session that was
  active, and \<open>send_clipboard\<close> goes on reporting success for it.
\<close>

theorem cancel_keeps_session:
  assumes "co_active_session c = Some conn" and "cancel t c = (t', c')" and "length text \<le> 102400"
  shows "dial_loop (pt_dialer t') turns = Some ([], pt_dialer t') \<and>
    fst (send_clipboard blake3 text c') = Inr () \<and> (\<exists>clip. snd (send_clipboard blake3 text c') = Some (conn, clip))"
proof -
  have "\<not> dialing (pt_dialer t')" and "c' = c"
    using assms(2) by (auto simp: cancel_def)
  moreover have "dial_loop d turns = Some ([], d)" if "\<not> dialing d" for d
    using that by (induction turns) (simp_all add: dial_loop_simps dial_turn_def)
  ultimately show ?thesis
    using assms(1,3) by (simp add: send_clipboard_def clip_new_def max_content_len_def)
qed

theorem cancel_keeps_session_witness:
  "fst (send_clipboard (\<lambda>b. b) ''hi'' (snd (cancel
      \<lparr>pt_addr = SocketV4 10 0 0 1 58210, pt_local = demo_identity, pt_keepalive = 20, pt_dialer = dialer_start None,
       pt_forwarder = demo_forwarder\<rparr> (demo_core\<lparr>co_active_session := Some 3\<rparr>)))) = Inr ()"
proof -
  let ?c = "demo_core\<lparr>co_active_session := Some 3\<rparr>"
  let ?t = "\<lparr>pt_addr = SocketV4 10 0 0 1 58210, pt_local = demo_identity, pt_keepalive = 20, pt_dialer = dialer_start None,
       pt_forwarder = demo_forwarder\<rparr>"
  obtain t' c' where k: "cancel ?t ?c = (t', c')"
    by (metis surj_pair)
  have "co_active_session ?c = Some 3" by simp
  from cancel_keeps_session [OF this k, of "''hi''"] show ?thesis
    using k by simp
qed

lemma listed_entry:
  "(i, n) \<in> set (entries (load_peers from_str (co_fs c) (co_peers_path c))) \<Longrightarrow>
     \<lparr>pdev_id = i, pdev_name = n\<rparr> \<in> set (list_paired_devices from_str c)"
  unfolding list_paired_devices_def by force

text \<open>
  The peer is remembered at its first handshake. While no handshake has come the disk is not
  touched, and when the first one comes and the save succeeds, the file read afterwards (the
  Devices screen, the next start) lists the device of the QR code with the name it carried; the
  handshakes of later reconnects do not write again. What the peer itself claims to be does not
  matter.
\<close>

theorem peer_remembered_at_first_handshake:
  assumes "forward_event from_str to_vec umode fates ev (fw, c) = (out, fw', c')"
    and "names_a_file (co_peers_path c)" and "\<forall>st. json_ok to_vec from_str st" and "device_id_ok (fw_device fw)"
    and "peers_canonical (load_peers from_str (co_fs c) (co_peers_path c))"
  shows "(fw_persisted fw \<or> \<not> is_handshake ev \<longrightarrow> co_fs c' = co_fs c) \<and>
    (\<not> fw_persisted fw \<and> is_handshake ev \<longrightarrow> fw_persisted fw' \<and>
       load_peers from_str (co_fs c') (co_peers_path c') \<in>
         {load_peers from_str (co_fs c) (co_peers_path c),
          upsert_peer (load_peers from_str (co_fs c) (co_peers_path c)) (fw_device fw) (fw_name fw)} \<and>
       (load_peers from_str (co_fs c') (co_peers_path c')
           = upsert_peer (load_peers from_str (co_fs c) (co_peers_path c)) (fw_device fw) (fw_name fw) \<longrightarrow>
        \<lparr>pdev_id = to_hex (fw_device fw), pdev_name = fw_name fw\<rparr> \<in> set (list_paired_devices from_str c')))"
proof -
  note frame = forward_event_frame [OF assms(1)]
  let ?old = "load_peers from_str (co_fs c) (co_peers_path c)"
  let ?new = "upsert_peer ?old (fw_device fw) (fw_name fw)"
  have "load_peers from_str (co_fs c') (co_peers_path c') \<in> {?old, ?new}" if "\<not> fw_persisted fw" "is_handshake ev"
  proof -
    obtain r fs' where s: "save_peers umode to_vec ?new (co_peers_path c) fates (co_fs c) = (r, fs')"
      by (metis surj_pair)
    have "co_fs c' = fs'"
      using assms(1) that s by (auto simp: forward_event_def Let_def)
    then show ?thesis
      using save_json_crash_safe [OF assms(2) assms(3) [rule_format] s [unfolded save_peers_def], of no_peers] frame
      by (auto simp: load_peers_def)
  qed
  moreover have "(to_hex (fw_device fw), fw_name fw) \<in> set (entries ?new)"
    using assms(4,5) by (simp add: entries_peer_names peers_canonical_upsert peer_names_upsert)
  ultimately show ?thesis
    using frame listed_entry [of "to_hex (fw_device fw)" "fw_name fw" from_str c'] by auto
qed

definition peers_to_vec :: "persisted_peers \<Rightarrow> string + u8 list" where
  "peers_to_vec st = Inr (string_bytes (to_hex (string_bytes
     (concat (map (\<lambda>(k, v). stuff k @ stuff v) (entries st))))))"

definition peers_from_str :: "string \<Rightarrow> string + persisted_peers" where
  "peers_from_str s =
     (case hex_slots s 0 (length s div 2) of
        None \<Rightarrow> Inl ''malformed''
      | Some bs \<Rightarrow>
          Inr \<lparr>peers = map (\<lambda>(k, v). \<lparr>pp_device_id = k, pp_name = v\<rparr>) (unstuff_pairs (length bs) (bytes_string bs))\<rparr>)"

lemma peer_eta: "\<lparr>pp_device_id = pp_device_id x, pp_name = pp_name x\<rparr> = (x :: persisted_peer)"
  by (cases x) simp

lemma peers_json_ok: "json_ok peers_to_vec peers_from_str st"
proof -
  let ?s = "concat (map (\<lambda>(k, v). stuff k @ stuff v) (entries st))"
  have "hex_slots (to_hex (string_bytes ?s)) 0 (length (to_hex (string_bytes ?s)) div 2) = Some (string_bytes ?s)"
    using hex_slots_to_hex [of "[]" "string_bytes ?s" 0 "length ?s"] ascii_to_hex by simp
  moreover have "unstuff_pairs (length ?s) ?s = entries st"
    by (rule unstuff_pairs_stuff [OF length_stuffed])
  ultimately have "peers_from_str (to_hex (string_bytes ?s)) = Inr st"
    by (cases st) (simp add: peers_from_str_def entries_def comp_def peer_eta)
  then show ?thesis
    unfolding json_ok_def peers_to_vec_def
    by (auto simp: from_utf8_string_bytes ascii_is_rust_string ascii_to_hex)
qed

theorem peer_remembered_at_first_handshake_witness:
  "load_peers peers_from_str (co_fs (snd (snd (forward_event peers_from_str peers_to_vec 420 [Crashes None]
      (DialSession (EvPeerHandshake [] ''x'' [] None)) (demo_forwarder, demo_core))))) [''app'', ''peers.json'']
    \<in> {no_peers, upsert_peer no_peers (replicate 32 0) ''desk''}"
proof -
  let ?ev = "DialSession (EvPeerHandshake [] ''x'' [] None)"
  obtain out fw' c' where f: "forward_event peers_from_str peers_to_vec 420 [Crashes None] ?ev (demo_forwarder, demo_core) = (out, fw', c')"
    by (metis surj_pair)
  have old: "load_peers peers_from_str (co_fs demo_core) (co_peers_path demo_core) = no_peers"
    by (simp add: demo_core_def load_peers_def load_json_def read_to_string_def contents_def)
  have fw: "fw_device demo_forwarder = replicate 32 0" "fw_name demo_forwarder = ''desk''" "\<not> fw_persisted demo_forwarder"
    and "names_a_file (co_peers_path demo_core)" and path: "co_peers_path demo_core = [''app'', ''peers.json'']"
    by (simp_all add: demo_forwarder_def demo_core_def names_a_file_def)
  moreover have "device_id_ok (fw_device demo_forwarder)"
    by (simp add: fw device_id_ok_def device_id_len_def)
  moreover have "is_handshake ?ev"
    by (simp add: is_handshake_def)
  moreover have "co_peers_path c' = co_peers_path demo_core"
    using forward_event_frame [OF f] by simp
  ultimately show ?thesis
    using peer_remembered_at_first_handshake [OF f, unfolded old] peers_json_ok peers_canonical_no_peers f by auto
qed

end
