(* ===== verification/Clip_Journey.thy ===== *)
theory Clip_Journey
  imports Link_Delivery Daemon_Clips Ffi_Core
begin

text \<open>
  A copy on one device, followed through every component to the other: the GNOME backend and the
  daemon's relay (\<open>crates/daemon/src/clipboard.rs\<close>, \<open>orchestrator.rs\<close>), the two sessions and the
  connection between them (\<open>crates/net\<close>), and the phone's core (\<open>crates/ffi/src/core.rs\<close>). The
  daemon's session is the side \<open>Acceptor\<close> of a link, the phone's the side \<open>Dialer\<close>.
\<close>

definition text_clip :: "(u8 list \<Rightarrow> u8 list) \<Rightarrow> string \<Rightarrow> clip" where
  "text_clip blake3 text =
     \<lparr>mime = mime_text_plain, content = string_bytes text, hash = blake3 (string_bytes text)\<rparr>"

lemma clip_new_text:
  "length text \<le> 102400 \<Longrightarrow> clip_new blake3 mime_text_plain (string_bytes text) = Inr (text_clip blake3 text)"
  by (simp add: clip_new_def text_clip_def max_content_len_def)

lemma text_clip_sel [simp]:
  "clip.mime (text_clip blake3 text) = mime_text_plain" "clip.content (text_clip blake3 text) = string_bytes text"
  "clip.hash (text_clip blake3 text) = blake3 (string_bytes text)"
  by (simp_all add: text_clip_def)

lemma already_seen:
  "sh_last_hash d = Some (clip.hash clip) \<Longrightarrow> handle_session_event remote (EvClipboardReceived clip) now d = ([], d)"
  by (auto simp: handle_session_event_def handle_received_def should_broadcast_def split: option.split)

lemma broadcast_text:
  assumes "length text \<le> 102400" and "sh_last_hash d \<noteq> Some (env_blake3 env (string_bytes text))"
  shows "watch_and_broadcast env \<lparr>cc_mime = mime_text_plain\<rparr> (gnome_read (Inr text) mime_text_plain) d
    = (map (\<lambda>(_, conn). SendsClip conn (text_clip (env_blake3 env) text)) (sh_connected_devices d),
       d\<lparr>sh_last_hash := Some (env_blake3 env (string_bytes text))\<rparr>)"
  using assms by (simp add: watch_and_broadcast_def gnome_read_def clip_new_text should_broadcast_def)

text \<open>
  C5. What is copied on the desktop reaches the phone. The text is new and within the size limit,
  the phone is connected and the daemon's side of its session established: then the daemon
  hands the session a clip, the link can bring it, after all that was sent before and with
  nothing in between, to the phone's session, and the phone's core gives the app exactly that text.
  When the phone sends it back, nothing happens.
\<close>

theorem desktop_copy_reaches_phone:
  assumes "is_rust_string text" and "length text \<le> 102400" and "sh_last_hash d \<noteq> Some (env_blake3 env (string_bytes text))"
    and "(i, conn) \<in> set (sh_connected_devices d)"
    and "link_ok io vs vr (greeting loc tok)" and "link_reachable io vs vr loc tok l" and "clips_fit io l"
    and "dr_running (ln_driver l Dialer)" and "ready (ln_driver l Acceptor)"
    and "fits (io_to_allocvec io) (io_from_bytes io) (Clipboard (text_clip (env_blake3 env) text))"
  shows "\<exists>out d1 clip l'.
    watch_and_broadcast env \<lparr>cc_mime = mime_text_plain\<rparr> (gnome_read (Inr text) mime_text_plain) d = (out, d1) \<and>
    SendsClip conn clip \<in> set out \<and>
    (link_step io vs vr)\<^sup>*\<^sup>* l l' \<and> ln_asked l' Acceptor = ln_asked l Acceptor @ [clip] \<and>
    clips_reported (ln_reported l' Dialer) = ln_asked l Acceptor @ [clip] \<and>
    (\<forall>fw c. fst (forward_event from_str to_vec umode fates (DialSession (EvClipboardReceived clip)) (fw, c))
       = [CoreClipboardReceived text]) \<and>
    (\<forall>remote now. handle_session_event remote (EvClipboardReceived clip) now d1 = ([], d1))"
proof -
  let ?clip = "text_clip (env_blake3 env) text"
  let ?d1 = "d\<lparr>sh_last_hash := Some (env_blake3 env (string_bytes text))\<rparr>"
  have run: "both_running l"
    using assms(8,9) unfolding both_running_def ready_def by (metis side.exhaust)
  obtain l' where l': "(link_step io vs vr)\<^sup>*\<^sup>* l l'" "ln_asked l' Acceptor = ln_asked l Acceptor @ [?clip]"
    "clips_reported (ln_reported l' Dialer) = ln_asked l Acceptor @ [?clip]"
    using link_hands_over [OF assms(5-7) run assms(9,10)] by auto
  have "fst (forward_event from_str to_vec umode fates (DialSession (EvClipboardReceived ?clip)) (fw, c))
      = [CoreClipboardReceived text]" for fw c
    using assms(1) by (simp add: forward_event_def is_handshake_def to_core_event_def from_utf8_string_bytes)
  moreover have "SendsClip conn ?clip \<in> set (map (\<lambda>(_, conn). SendsClip conn ?clip) (sh_connected_devices d))"
    using assms(4) by force
  ultimately show ?thesis
    using broadcast_text [OF assms(2,3)] l' already_seen [of ?d1 ?clip]
    by (intro exI [of _ "map (\<lambda>(_, conn). SendsClip conn ?clip) (sh_connected_devices d)"] exI [of _ ?d1]
        exI [of _ ?clip] exI [of _ l']) simp
qed

lemma demo_text_fits: "fits (io_to_allocvec link_io) (io_from_bytes link_io) (Clipboard (text_clip (\<lambda>bs. bs) ''hi''))"
  by (simp add: fits_def codec_ok_def link_io_def text_clip_def demo_clip_def max_frame_len_def)

lemma demo_blake3: "env_blake3 demo_env = (\<lambda>bs. bs)"
  by (simp add: demo_env_def)

lemma hi_is_text: "is_rust_string ''hi''" "length ''hi'' \<le> 102400"
  by (simp_all add: ascii_is_rust_string ascii_def)

theorem desktop_copy_reaches_phone_witness:
  "\<exists>clip l'. (link_step link_io (\<lambda>s. s) (\<lambda>r. r))\<^sup>*\<^sup>* (greeted_link Acceptor) l' \<and>
     clips_reported (ln_reported l' Dialer) = [clip] \<and>
     fst (forward_event (\<lambda>_. Inl []) (\<lambda>_. Inl []) 420 [] (DialSession (EvClipboardReceived clip)) (demo_forwarder, demo_core))
       = [CoreClipboardReceived ''hi'']"
proof -
  have fresh: "sh_last_hash paired_daemon \<noteq> Some (env_blake3 demo_env (string_bytes ''hi''))"
    and conn: "(phone, 1) \<in> set (sh_connected_devices paired_daemon)"
    by (simp_all add: paired_daemon_phone)
  have "ln_asked (greeted_link Acceptor) Acceptor = []"
    by (simp add: greeted_link_def)
  with desktop_copy_reaches_phone [OF hi_is_text fresh conn link_io_ok greeted_link_reachable greeted_link_ready(3,2,1)
      demo_text_fits [folded demo_blake3], of "\<lambda>_. Inl []" "\<lambda>_. Inl []" 420 "[]"]
  show ?thesis by auto
qed

text \<open>
  C10. What is copied on a paired phone reaches the desktop and the other phones. The core accepts
  the text for its session, the link can bring the clip to the daemon's session, and the daemon,
  for which the text is new, has the GNOME backend set exactly that text and hands the clip to every other
  connected device, once each and not to the sender. The notification that setting the text
  causes is not broadcast.
\<close>

theorem phone_copy_reaches_desktop:
  assumes "is_rust_string text" and "length text \<le> 102400" and "sh_last_hash d \<noteq> Some (env_blake3 env (string_bytes text))"
    and "co_active_session c = Some conn"
    and "link_ok io vs vr (greeting loc tok)" and "link_reachable io vs vr loc tok l" and "clips_fit io l"
    and "ready (ln_driver l Dialer)" and "dr_running (ln_driver l Acceptor)"
    and "fits (io_to_allocvec io) (io_from_bytes io) (Clipboard (text_clip (env_blake3 env) text))"
    and "sh_remote_to_device d remote = Some i" and "i \<in> paired (sh_trust d)" and "sh_backend d"
  shows "\<exists>clip l' d1.
    send_clipboard (env_blake3 env) text c = (Inr (), Some (conn, clip)) \<and>
    (link_step io vs vr)\<^sup>*\<^sup>* l l' \<and> ln_asked l' Dialer = ln_asked l Dialer @ [clip] \<and>
    clips_reported (ln_reported l' Acceptor) = ln_asked l Dialer @ [clip] \<and>
    handle_session_event remote (EvClipboardReceived clip) now d =
      (WritesClipboard mime_text_plain (clip.content clip) #
         map (\<lambda>(_, conn'). SendsClip conn' clip) (filter (\<lambda>(j, _). j \<noteq> i) (sh_connected_devices d)), d1) \<and>
    snd (gnome_write show_err set_text mime_text_plain (clip.content clip)) = Some text \<and>
    watch_and_broadcast env \<lparr>cc_mime = mime_text_plain\<rparr> (gnome_read (Inr text) mime_text_plain) d1 = ([], d1)"
proof -
  let ?clip = "text_clip (env_blake3 env) text"
  let ?d1 = "d\<lparr>sh_last_hash := Some (env_blake3 env (string_bytes text))\<rparr>"
  have run: "both_running l"
    using assms(8,9) unfolding both_running_def ready_def by (metis side.exhaust)
  obtain l' where l': "(link_step io vs vr)\<^sup>*\<^sup>* l l'" "ln_asked l' Dialer = ln_asked l Dialer @ [?clip]"
    "clips_reported (ln_reported l' Acceptor) = ln_asked l Dialer @ [?clip]"
    using link_hands_over [OF assms(5-7) run assms(8,10)] by auto
  have "send_clipboard (env_blake3 env) text c = (Inr (), Some (conn, ?clip))"
    using assms(2,4) by (simp add: send_clipboard_def clip_new_text)
  moreover have "handle_session_event remote (EvClipboardReceived ?clip) now d =
      (WritesClipboard mime_text_plain (clip.content ?clip) #
         map (\<lambda>(_, conn'). SendsClip conn' ?clip) (filter (\<lambda>(j, _). j \<noteq> i) (sh_connected_devices d)), ?d1)"
    using assms(3,11-13)
    by (simp add: handle_session_event_def handle_received_def is_paired_def should_broadcast_def)
  moreover have "snd (gnome_write show_err set_text mime_text_plain (clip.content ?clip)) = Some text"
    using assms(1) by (simp add: gnome_write_def from_utf8_string_bytes split: sum.split)
  moreover have "watch_and_broadcast env \<lparr>cc_mime = mime_text_plain\<rparr> (gnome_read (Inr text) mime_text_plain) ?d1 = ([], ?d1)"
    using assms(2) by (simp add: watch_and_broadcast_def gnome_read_def clip_new_text should_broadcast_def)
  ultimately show ?thesis
    using l' by (intro exI [of _ ?clip] exI [of _ l'] exI [of _ ?d1]) simp
qed

theorem phone_copy_reaches_desktop_witness:
  "\<exists>clip l' d1. (link_step link_io (\<lambda>s. s) (\<lambda>r. r))\<^sup>*\<^sup>* (greeted_link Dialer) l' \<and>
     clips_reported (ln_reported l' Acceptor) = [clip] \<and>
     handle_session_event phone_addr (EvClipboardReceived clip) 9 paired_daemon
       = ([WritesClipboard mime_text_plain (string_bytes ''hi'')], d1)"
proof -
  have fresh: "sh_last_hash paired_daemon \<noteq> Some (env_blake3 demo_env (string_bytes ''hi''))"
    and remote: "sh_remote_to_device paired_daemon phone_addr = Some phone" and paired: "phone \<in> paired (sh_trust paired_daemon)"
    by (simp_all add: paired_daemon_phone)
  have active: "co_active_session (demo_core\<lparr>co_active_session := Some 3\<rparr>) = Some 3"
    by simp
  from phone_copy_reaches_desktop [where now = 9 and show_err = "\<lambda>_. []" and set_text = "\<lambda>_. Inr ()",
      OF hi_is_text fresh active link_io_ok greeted_link_reachable greeted_link_ready(3,1,2)
      demo_text_fits [folded demo_blake3] remote paired paired_daemon_phone(6)]
  obtain clip l' d1 where j: "(link_step link_io (\<lambda>s. s) (\<lambda>r. r))\<^sup>*\<^sup>* (greeted_link Dialer) l'"
    "clips_reported (ln_reported l' Acceptor) = ln_asked (greeted_link Dialer) Dialer @ [clip]"
    "handle_session_event phone_addr (EvClipboardReceived clip) 9 paired_daemon =
      (WritesClipboard mime_text_plain (clip.content clip) #
         map (\<lambda>(_, conn'). SendsClip conn' clip) (filter (\<lambda>(j, _). j \<noteq> phone) (sh_connected_devices paired_daemon)), d1)"
    "send_clipboard (env_blake3 demo_env) ''hi'' (demo_core\<lparr>co_active_session := Some 3\<rparr>) = (Inr (), Some (3, clip))"
    by blast
  have "clip.content clip = string_bytes ''hi''"
    using j(4) by (auto simp: send_clipboard_def clip_new_def split: if_splits)
  with j show ?thesis
    by (intro exI [of _ clip] exI [of _ l'] exI [of _ d1]) (simp add: greeted_link_def paired_daemon_phone(2))
qed

end
