(* ===== verification/Cli.thy ===== *)
theory Cli
  imports Rust_Trim "HOL-Library.List_Lexorder" "HOL-Library.Char_ord" "HOL-Library.Multiset"
begin

text \<open>
  The command-line client: \<open>crates/cli/src/dbus_client.rs\<close> (the device list), \<open>qr.rs\<close> (the size of
  a rendered code) and the verbs of \<open>main.rs\<close>. What comes over D-Bus is an argument; the \<open>qrcode\<close>
  crate is the parameter \<open>draw\<close>. Strings are ordered by their bytes, as in Rust.
\<close>

section \<open>The device list\<close>

definition device_interface :: string where
  "device_interface = ''org.penguinsync.Device1''"

record device_info =
  di_device_id :: string
  di_name :: string
  di_connected :: bool

text \<open>A managed object: its interfaces and what reading its properties gave.\<close>

record managed_object =
  mo_interfaces :: "string list"
  mo_device_id :: "string option"
  mo_name :: "string option"
  mo_connected :: "bool option"

definition read_object :: "managed_object \<Rightarrow> device_info" where
  "read_object ob =
     \<lparr>di_device_id = (case mo_device_id ob of None \<Rightarrow> [] | Some s \<Rightarrow> s),
      di_name = (case mo_name ob of None \<Rightarrow> [] | Some s \<Rightarrow> s),
      di_connected = (case mo_connected ob of None \<Rightarrow> False | Some b \<Rightarrow> b)\<rparr>"

text \<open>The objects come out of a hash map in some order; \<open>sort_by\<close> is stable.\<close>

definition list_devices :: "managed_object list \<Rightarrow> device_info list" where
  "list_devices objects =
     sort_key di_name (map read_object (filter (\<lambda>ob. device_interface \<in> set (mo_interfaces ob)) objects))"

text \<open>
  The device list. Whatever order the bus enumerates the objects in, the list holds exactly the
  paired devices, in ascending order of their names; when the names differ it is always the
  same list. Two devices of one name are listed in the order of the enumeration, which may
  change between two refreshes of the same state.
\<close>

theorem device_list_order:
  assumes "mset objects' = mset objects"
  shows "mset (list_devices objects) = image_mset read_object (filter_mset (\<lambda>ob. device_interface \<in> set (mo_interfaces ob)) (mset objects)) \<and>
    sorted (map di_name (list_devices objects)) \<and>
    (inj_on di_name (set (list_devices objects)) \<longrightarrow> list_devices objects' = list_devices objects) \<and>
    (\<forall>a b. mo_interfaces a = [device_interface] \<longrightarrow> mo_interfaces b = [device_interface] \<longrightarrow> mo_name a = mo_name b \<longrightarrow>
       list_devices [a, b] = [read_object a, read_object b])"
proof (intro conjI impI allI)
  show "mset (list_devices objects) = image_mset read_object (filter_mset (\<lambda>ob. device_interface \<in> set (mo_interfaces ob)) (mset objects))"
    by (simp add: list_devices_def)
  show "sorted (map di_name (list_devices objects))"
    by (simp add: list_devices_def)
next
  assume inj: "inj_on di_name (set (list_devices objects))"
  have same: "mset (map read_object (filter (\<lambda>ob. device_interface \<in> set (mo_interfaces ob)) objects'))
      = mset (map read_object (filter (\<lambda>ob. device_interface \<in> set (mo_interfaces ob)) objects))"
    using assms by simp
  have "set (list_devices objects) = set (map read_object (filter (\<lambda>ob. device_interface \<in> set (mo_interfaces ob)) objects'))"
    unfolding list_devices_def set_sort using same by (metis set_mset_mset)
  with inj same show "list_devices objects' = list_devices objects"
    unfolding list_devices_def by (intro sort_key_inj_key_eq) simp_all
next
  fix a b :: managed_object
  assume "mo_interfaces a = [device_interface]" "mo_interfaces b = [device_interface]" "mo_name a = mo_name b"
  then show "list_devices [a, b] = [read_object a, read_object b]"
    by (simp add: list_devices_def read_object_def)
qed

definition namesake :: "string \<Rightarrow> managed_object" where
  "namesake i = \<lparr>mo_interfaces = [device_interface], mo_device_id = Some i, mo_name = Some ''pixel'', mo_connected = Some True\<rparr>"

theorem device_list_order_witness:
  "list_devices [namesake ''01'', namesake ''02''] \<noteq> list_devices [namesake ''02'', namesake ''01'']"
proof -
  have "mset [namesake ''02'', namesake ''01''] = mset [namesake ''01'', namesake ''02'']"
    by simp
  note order = device_list_order [OF this]
  then have "list_devices [namesake ''01'', namesake ''02''] = [read_object (namesake ''01''), read_object (namesake ''02'')]"
    and "list_devices [namesake ''02'', namesake ''01''] = [read_object (namesake ''02''), read_object (namesake ''01'')]"
    by (simp_all add: namesake_def)
  then show ?thesis
    by (simp add: read_object_def namesake_def)
qed

section \<open>\<open>penguinsync unpair\<close>\<close>

definition starts_with :: "string \<Rightarrow> string \<Rightarrow> bool" where
  "starts_with s p \<longleftrightarrow> take (length p) s = p"

datatype unpair_outcome = NoDeviceMatches | Unpairs device_info | AmbiguousPrefix

definition run_unpair :: "device_info list \<Rightarrow> string \<Rightarrow> unpair_outcome" where
  "run_unpair devs prefix =
     (case filter (\<lambda>d. starts_with (di_device_id d) prefix) devs of
        [] \<Rightarrow> NoDeviceMatches
      | [d] \<Rightarrow> Unpairs d
      | _ \<Rightarrow> AmbiguousPrefix)"

lemma run_unpair_Unpairs_iff:
  "run_unpair devs p = Unpairs d \<longleftrightarrow> filter (\<lambda>d. starts_with (di_device_id d) p) devs = [d]"
  by (auto simp: run_unpair_def split: list.splits)

lemma starts_with_append: "starts_with s (p @ q) \<Longrightarrow> starts_with s p"
proof -
  assume "starts_with s (p @ q)"
  then have "take (length p) (take (length (p @ q)) s) = take (length p) (p @ q)"
    by (simp only: starts_with_def)
  then show ?thesis
    by (simp add: starts_with_def min_def)
qed

lemma filter_eq_singletonD:
  assumes "filter P xs = [x]" and "Q x" and "\<And>y. Q y \<Longrightarrow> P y"
  shows "filter Q xs = [x]"
proof -
  have "filter Q xs = filter Q (filter P xs)"
    using assms(3) by (induction xs) auto
  with assms(1,2) show ?thesis by simp
qed

text \<open>
  \<open>unpair\<close> takes no wrong device. With ids of one length, each listed once, giving a full id
  unpairs that device; and a prefix that unpairs a device means it however much of its id one
  goes on to type. Without a match, or with several, nothing is unpaired.
\<close>

lemma unpair_by_prefix:
  assumes "distinct (map di_device_id devs)" and "\<forall>d \<in> set devs. length (di_device_id d) = n"
  shows "(\<forall>d \<in> set devs. run_unpair devs (di_device_id d) = Unpairs d) \<and>
    (\<forall>d p q. run_unpair devs p = Unpairs d \<and> starts_with (di_device_id d) (p @ q) \<longrightarrow> run_unpair devs (p @ q) = Unpairs d) \<and>
    (\<forall>d p. run_unpair devs p = Unpairs d \<longrightarrow> d \<in> set devs \<and> starts_with (di_device_id d) p)"
proof (intro conjI ballI allI impI)
  fix d assume d: "d \<in> set devs"
  have "starts_with (di_device_id e) (di_device_id d) \<longleftrightarrow> e = d" if "e \<in> set devs" for e
  proof -
    have "starts_with (di_device_id e) (di_device_id d) \<longleftrightarrow> di_device_id e = di_device_id d"
      using assms(2) d that by (simp add: starts_with_def)
    then show ?thesis
      using assms(1) d that by (auto simp: distinct_map inj_on_def)
  qed
  then have "filter (\<lambda>e. starts_with (di_device_id e) (di_device_id d)) devs = filter (\<lambda>e. e = d) devs"
    by (intro filter_cong) simp_all
  also have "\<dots> = [d]"
    using assms(1) d by (induction devs) (auto simp: filter_empty_conv)
  finally show "run_unpair devs (di_device_id d) = Unpairs d"
    by (simp add: run_unpair_Unpairs_iff)
next
  fix d p q assume "run_unpair devs p = Unpairs d \<and> starts_with (di_device_id d) (p @ q)"
  then show "run_unpair devs (p @ q) = Unpairs d"
    unfolding run_unpair_Unpairs_iff using starts_with_append by (blast intro: filter_eq_singletonD)
next
  fix d p assume "run_unpair devs p = Unpairs d"
  then have "d \<in> set (filter (\<lambda>d. starts_with (di_device_id d) p) devs)"
    by (simp add: run_unpair_Unpairs_iff)
  then show "d \<in> set devs" "starts_with (di_device_id d) p"
    by simp_all
qed

section \<open>\<open>penguinsync pair\<close>\<close>

text \<open>\<open>str::lines\<close>: split at newlines, drop a carriage return before one, no last empty line.\<close>

fun split_lines :: "string \<Rightarrow> string \<Rightarrow> string list" where
  "split_lines acc [] = (if acc = [] then [] else [rev acc])"
| "split_lines acc (c # s) =
     (if c = CHR 0x0A
      then (case acc of [] \<Rightarrow> [] | a # r \<Rightarrow> if a = CHR 0x0D then rev r else rev acc) # split_lines [] s
      else split_lines (c # acc) s)"

definition str_lines :: "string \<Rightarrow> string list" where
  "str_lines s = split_lines [] s"

text \<open>\<open>chars().count()\<close>: the bytes that are not continuation bytes.\<close>

definition char_count :: "string \<Rightarrow> nat" where
  "char_count s = length (filter (\<lambda>c. \<not> utf8_continuation c) s)"

record rendered =
  rd_text :: string
  rd_width :: u16
  rd_height :: u16

definition to_u16 :: "nat \<Rightarrow> u16" where
  "to_u16 n = (if n < 65536 then of_nat n else 65535)"

definition render :: "(string \<Rightarrow> string + string) \<Rightarrow> string \<Rightarrow> string + rendered" where
  "render draw data =
     (case draw data of
        Inl e \<Rightarrow> Inl e
      | Inr text \<Rightarrow>
          Inr \<lparr>rd_text = text, rd_width = to_u16 (fold max (map char_count (str_lines text)) 0),
               rd_height = to_u16 (length (str_lines text))\<rparr>)"

datatype pair_screen =
    QrShown string
  | TerminalTooNarrow u16 u16 string
  | QrFailed string string

definition pair_screen_for :: "string + rendered \<Rightarrow> u16 option \<Rightarrow> string \<Rightarrow> pair_screen" where
  "pair_screen_for r terminal_width uri =
     (case r of
        Inr qr \<Rightarrow>
          (case terminal_width of
             Some w \<Rightarrow> if w < rd_width qr then TerminalTooNarrow w (rd_width qr) uri else QrShown (rd_text qr)
           | None \<Rightarrow> QrShown (rd_text qr))
      | Inl e \<Rightarrow> QrFailed e uri)"

text \<open>
  The answer at the prompt. \<open>to_lowercase\<close> maps letters outside ASCII to letters outside ASCII
  or, in one case, to \<open>k\<close>, so for this comparison it is the ASCII mapping.
\<close>

definition ascii_lower :: "char \<Rightarrow> char" where
  "ascii_lower c = (if 65 \<le> char_code c \<and> char_code c \<le> 90 then char_of (char_code c + 32 :: nat) else c)"

definition accepts_answer :: "string \<Rightarrow> bool" where
  "accepts_answer s \<longleftrightarrow> map ascii_lower (trim s) = ''y'' \<or> map ascii_lower (trim s) = ''yes''"

lemma fold_max_le: "fold max ns a \<le> (b :: nat) \<longleftrightarrow> a \<le> b \<and> (\<forall>n \<in> set ns. n \<le> b)"
  by (induction ns arbitrary: a) auto

text \<open>
  A code on the screen is whole. When \<open>pair\<close> prints the code on a terminal whose width is known,
  no line of it is longer than the terminal is wide; otherwise it prints the URI to type in, and
  the code never silently wraps.
\<close>

theorem shown_qr_fits:
  assumes "render draw data = Inr qr" and "pair_screen_for (Inr qr) (Some w) uri = QrShown text" and "unat w < 65535"
  shows "text = rd_text qr \<and> (\<forall>l \<in> set (str_lines text). char_count l \<le> unat w)"
proof -
  have shown: "text = rd_text qr" and w: "\<not> w < rd_width qr"
    using assms(2) by (auto simp: pair_screen_for_def split: if_splits)
  let ?n = "fold max (map char_count (str_lines text)) 0"
  have width: "rd_width qr = to_u16 ?n"
    using assms(1) shown by (auto simp: render_def split: sum.splits)
  have "unat (rd_width qr) \<le> unat w"
    using w by (simp add: word_le_nat_alt not_less)
  have "?n < 65536"
  proof (rule ccontr)
    assume "\<not> ?n < 65536"
    then have "unat (rd_width qr) = 65535"
      by (simp add: width to_u16_def)
    with \<open>unat (rd_width qr) \<le> unat w\<close> assms(3) show False by simp
  qed
  then have "unat (rd_width qr) = ?n"
    unfolding width to_u16_def by (simp add: unat_of_nat)
  with \<open>unat (rd_width qr) \<le> unat w\<close> have "?n \<le> unat w" by simp
  then have "\<forall>l \<in> set (str_lines text). char_count l \<le> unat w"
    by (simp add: fold_max_le)
  with shown show ?thesis by simp
qed

theorem shown_qr_fits_witness:
  "\<forall>l \<in> set (str_lines (''##'' @ [CHR 0x0A] @ ''##'')). char_count l \<le> 80"
proof -
  let ?code = "''##'' @ [CHR 0x0A] @ ''##''"
  have r: "render (\<lambda>_. Inr ?code) ''x'' = Inr \<lparr>rd_text = ?code, rd_width = 2, rd_height = 2\<rparr>"
    by (simp add: render_def str_lines_def char_count_def utf8_continuation_def to_u16_def)
  have "pair_screen_for (Inr \<lparr>rd_text = ?code, rd_width = 2, rd_height = 2\<rparr>) (Some 80) ''x'' = QrShown ?code"
    by (simp add: pair_screen_for_def)
  from shown_qr_fits [OF r this] show ?thesis by simp
qed

end
