(* ===== verification/Cli_Verbs.thy ===== *)
theory Cli_Verbs
  imports Cli
begin

text \<open>
  The verbs of \<open>crates/cli/src/main.rs\<close> from the connection to the exit code, and \<open>connect\<close> of
  \<open>dbus_client.rs\<close>. What the bus, the terminal and the human answer is the record \<open>bus\<close>; what a
  verb prints and calls, in order, is its list of outputs.
\<close>

section \<open>Connecting\<close>

datatype client_error = Zbus string | Fdo string | BusName string | DaemonNotRunning

text \<open>The constant bus name is a valid one, so \<open>BusName\<close> does not occur.\<close>

definition connect :: "string + unit \<Rightarrow> string + unit \<Rightarrow> string + bool \<Rightarrow> client_error + unit" where
  "connect session proxy has_owner =
     (case session of
        Inl e \<Rightarrow> Inl (Zbus e)
      | Inr _ \<Rightarrow>
          (case proxy of
             Inl e \<Rightarrow> Inl (Zbus e)
           | Inr _ \<Rightarrow>
               (case has_owner of
                  Inl e \<Rightarrow> Inl (Fdo e)
                | Inr owned \<Rightarrow> if owned then Inr () else Inl DaemonNotRunning)))"

definition bus_name :: string where
  "bus_name = ''org.penguinsync.Daemon1''"

text \<open>How the wait for the \<open>PairingRequested\<close> signal ended.\<close>

datatype signal_wait =
    Elapsed
  | StreamEnded
  | MalformedSignal
  | Requested string string string

record bus =
  bus_connect :: "client_error + unit"
  bus_proxy :: "client_error + unit"
  bus_start_pairing :: "string + string \<times> string"
  bus_subscribe :: "string + unit"
  bus_signal :: signal_wait
  bus_answer :: string
  bus_confirm :: "string + unit"
  bus_devices :: "client_error + device_info list"
  bus_unpair :: "string + unit"

datatype cli_output =
    Prints string
  | ShowsCode pair_screen
  | CallsConfirm string bool
  | CallsUnpair string

section \<open>The verbs\<close>

definition run_pair ::
  "(string \<Rightarrow> string + string) \<Rightarrow> u16 option \<Rightarrow> bus \<Rightarrow> cli_output list \<times> (client_error + unit)" where
  "run_pair draw terminal_width b =
     (case bus_connect b of Inl e \<Rightarrow> ([], Inl e) | Inr _ \<Rightarrow>
     (case bus_proxy b of Inl e \<Rightarrow> ([], Inl e) | Inr _ \<Rightarrow>
     (case bus_start_pairing b of Inl e \<Rightarrow> ([], Inl (Zbus e)) | Inr (uri, fingerprint) \<Rightarrow>
       (let shown = [ShowsCode (pair_screen_for (render draw uri) terminal_width uri),
              Prints (''Fingerprint: '' @ fingerprint),
              Prints ''Scan this on your phone, then confirm the fingerprint matches there.'',
              Prints ''Waiting for the phone to connect (up to 60s)...''] in
        case bus_subscribe b of Inl e \<Rightarrow> (shown, Inl (Zbus e)) | Inr _ \<Rightarrow>
        (case bus_signal b of
           Elapsed \<Rightarrow> (shown @ [Prints ''No device connected in time.''], Inr ())
         | StreamEnded \<Rightarrow> (shown @ [Prints ''No device connected in time.''], Inr ())
         | MalformedSignal \<Rightarrow> (shown, Inr ())
         | Requested i theirs name \<Rightarrow>
             (let accept = accepts_answer (bus_answer b);
                  asked = shown @ [Prints ([CHR 0x0A] @ ''Device: '' @ name), Prints (''Fingerprint: '' @ theirs),
                    Prints (''Does this match the phone'' @ [CHR 0x27] @ ''s screen? [y/N] ''), CallsConfirm i accept] in
              case bus_confirm b of
                Inl e \<Rightarrow> (asked, Inl (Zbus e))
              | Inr _ \<Rightarrow> (asked @ [Prints (if accept then ''Paired.'' else ''Rejected.'')], Inr ())))))))"

definition unpair_verb :: "string \<Rightarrow> bus \<Rightarrow> cli_output list \<times> (client_error + unit)" where
  "unpair_verb prefix b =
     (case bus_connect b of Inl e \<Rightarrow> ([], Inl e) | Inr _ \<Rightarrow>
     (case bus_proxy b of Inl e \<Rightarrow> ([], Inl e) | Inr _ \<Rightarrow>
     (case bus_devices b of Inl e \<Rightarrow> ([], Inl e) | Inr devs \<Rightarrow>
       (case run_unpair devs prefix of
          NoDeviceMatches \<Rightarrow> ([Prints (''No paired device matches '' @ [CHR 0x27] @ prefix @ [CHR 0x27] @ ''.'')], Inr ())
        | Unpairs d \<Rightarrow>
            (case bus_unpair b of
               Inl e \<Rightarrow> ([CallsUnpair (di_device_id d)], Inl (Zbus e))
             | Inr _ \<Rightarrow> ([CallsUnpair (di_device_id d), Prints (''Unpaired '' @ di_name d @ ''.'')], Inr ()))
        | AmbiguousPrefix \<Rightarrow>
            ([Prints ([CHR 0x27] @ prefix @ [CHR 0x27] @ '' matches more than one device; use a longer prefix.'')], Inr ())))))"

definition run_debug :: "bus \<Rightarrow> cli_output list \<times> (client_error + unit)" where
  "run_debug b =
     (case bus_connect b of Inl e \<Rightarrow> ([], Inl e) | Inr _ \<Rightarrow>
     (case bus_devices b of Inl e \<Rightarrow> ([], Inl e) | Inr devs \<Rightarrow>
       ([Prints (''bus name: '' @ bus_name), Prints (''devices ('' @ show_nat (length devs) @ ''):'')] @
          map (\<lambda>d. Prints (''  '' @
              (if di_connected d then [CHR 0xE2, CHR 0x97, CHR 0x8F] else [CHR 0xE2, CHR 0x97, CHR 0x8B]) @
              '' '' @ di_device_id d @ ''  '' @ di_name d)) devs, Inr ())))"

datatype command = PairCommand | UnpairCommand string | DebugCommand

text \<open>\<open>main\<close> without the terminal interface: the outputs and whether the exit code is success.\<close>

definition run_command ::
  "(string \<Rightarrow> string + string) \<Rightarrow> u16 option \<Rightarrow> bus \<Rightarrow> command \<Rightarrow> cli_output list \<times> bool" where
  "run_command draw terminal_width b c =
     (case (case c of
              PairCommand \<Rightarrow> run_pair draw terminal_width b
            | UnpairCommand prefix \<Rightarrow> unpair_verb prefix b
            | DebugCommand \<Rightarrow> run_debug b) of
        (out, Inr _) \<Rightarrow> (out, True)
      | (out, Inl _) \<Rightarrow> (out, False))"

text \<open>
  \<open>pair\<close> accepts nobody on its own: it confirms only the device of the signal, once, after
  printing that device's fingerprint, and positively only on an answer of yes.
\<close>

lemma run_pair_confirms:
  assumes "run_pair draw terminal_width b = (pre @ CallsConfirm i accept # post, r)"
  shows "\<exists>theirs name. bus_signal b = Requested i theirs name \<and> Prints (''Fingerprint: '' @ theirs) \<in> set pre \<and>
    accept = accepts_answer (bus_answer b) \<and> (\<forall>j a. CallsConfirm j a \<notin> set pre \<union> set post)"
  using assms
  by (auto simp: run_pair_def Let_def append_eq_Cons_conv Cons_eq_append_conv
      split: sum.splits prod.splits signal_wait.splits)

text \<open>\<open>unpair\<close> and \<open>debug\<close> change nothing unless exactly one device matches.\<close>

lemma unpair_verb_calls:
  "CallsUnpair h \<in> set (fst (run_command draw w b c)) \<Longrightarrow>
     \<exists>prefix devs d. c = UnpairCommand prefix \<and> bus_devices b = Inr devs \<and> run_unpair devs prefix = Unpairs d \<and> h = di_device_id d"
  by (auto simp: run_command_def unpair_verb_def run_pair_def run_debug_def Let_def
      split: command.splits sum.splits prod.splits unpair_outcome.splits signal_wait.splits)

end
