(* ===== verification/Tui.thy ===== *)
theory Tui
  imports Cli Pairing_Token
begin

text \<open>
  \<open>crates/cli/src/tui.rs\<close>: the terminal interface as a state machine over key presses, refresh
  ticks and pairing signals. What a D-Bus call answers
  is an argument of the step that makes it; the calls themselves are outputs. The clock is read
  once per turn; what is drawn is in \<open>Tui_Draw\<close>.
\<close>

section \<open>State\<close>

definition status_ttl :: duration where
  "status_ttl = from_secs 4"

datatype status_kind = Hint | OkStatus | ErrStatus

record status =
  st_text :: string
  st_kind :: status_kind
  st_set_at :: "instant option"

definition hint :: status where
  "hint = \<lparr>st_text = [], st_kind = Hint, st_set_at = None\<rparr>"

definition status_message :: "string \<Rightarrow> status_kind \<Rightarrow> instant \<Rightarrow> status" where
  "status_message s k now = \<lparr>st_text = s, st_kind = k, st_set_at = Some now\<rparr>"

definition status_expired :: "status \<Rightarrow> instant \<Rightarrow> bool" where
  "status_expired s now = (case st_set_at s of None \<Rightarrow> False | Some t \<Rightarrow> status_ttl \<le> duration_since now t)"

record pending_confirmation =
  pc_device_id :: string
  pc_fingerprint :: string
  pc_name :: string

record pairing_display =
  pdisp_qr :: rendered
  pdisp_uri :: string
  pdisp_fingerprint :: string
  pdisp_issued_at :: instant

record app =
  app_devices :: "device_info list"
  app_selected :: nat
  app_status :: status
  app_pairing :: "pairing_display option"
  app_confirmation :: "pending_confirmation option"

definition new_app :: "device_info list \<Rightarrow> app" where
  "new_app devs =
     \<lparr>app_devices = devs, app_selected = 0, app_status = hint, app_pairing = None, app_confirmation = None\<rparr>"

definition selected_device :: "app \<Rightarrow> device_info option" where
  "selected_device a =
     (if app_selected a < length (app_devices a) then Some (app_devices a ! app_selected a) else None)"

definition set_status :: "string \<Rightarrow> status_kind \<Rightarrow> instant \<Rightarrow> app \<Rightarrow> app" where
  "set_status s k now a = a\<lparr>app_status := status_message s k now\<rparr>"

section \<open>The life of a code on the screen\<close>

definition should_regenerate :: "instant \<Rightarrow> instant \<Rightarrow> bool \<Rightarrow> bool" where
  "should_regenerate shown_at now confirmation_open \<longleftrightarrow>
     \<not> confirmation_open \<and> token_ttl \<le> duration_since now shown_at"

definition remaining_secs :: "instant \<Rightarrow> instant \<Rightarrow> nat" where
  "remaining_secs shown_at now = as_secs (token_ttl - duration_since now shown_at)"

text \<open>
  A working code is never replaced. The interface takes the time after the daemon's answer, so
  whenever it decides to fetch a new code the daemon would already refuse the old one as
  expired (or used), whatever is presented; while a human is being asked it never does; and as
  long as the countdown shows a second or more it does not either.
\<close>

theorem regenerates_only_dead_tokens:
  "(issued_at t \<le> shown_at \<and> should_regenerate shown_at now open \<longrightarrow>
      \<not> open \<and> fst (redeem t presented now) \<in> {Inl AlreadyRedeemed, Inl Expired}) \<and>
   (0 < remaining_secs shown_at now \<longrightarrow> \<not> should_regenerate shown_at now open) \<and>
   remaining_secs shown_at now \<le> 60"
  by (auto simp: should_regenerate_def remaining_secs_def redeem_def is_expired_def duration_since_def token_ttl_def
      from_secs_def as_secs_def div_le_mono)

theorem regenerates_only_dead_tokens_witness:
  "fst (redeem (issue [1] 100) [1] (from_secs 61)) \<in> {Inl AlreadyRedeemed, Inl Expired}"
proof -
  have "issued_at (issue [1] 100) \<le> 200 \<and> should_regenerate 200 (from_secs 61) False"
    by (simp add: issue_def should_regenerate_def token_ttl_def duration_since_def from_secs_def)
  then show ?thesis
    using regenerates_only_dead_tokens [of "issue [1] 100" 200 "from_secs 61" False "[1]"] by blast
qed

section \<open>Keys\<close>

datatype key = KeyChar char | KeyEsc | KeyUp | KeyDown | KeyOther

datatype ui_output =
    Prompts string
  | CallConfirm string bool
  | CallStartPairing
  | CallUnpair string
  | Quits

text \<open>\<open>start_pairing\<close>: the daemon's answer, then the rendering of the code.\<close>

definition start_display ::
  "(string \<Rightarrow> string + string) \<Rightarrow> string + string \<times> string \<Rightarrow> instant \<Rightarrow> string + pairing_display" where
  "start_display draw answer now =
     (case answer of
        Inl e \<Rightarrow> Inl e
      | Inr (uri, fingerprint) \<Rightarrow>
          (case render draw uri of
             Inl e \<Rightarrow> Inl (''failed to render QR: '' @ e)
           | Inr qr \<Rightarrow>
               Inr \<lparr>pdisp_qr = qr, pdisp_uri = uri, pdisp_fingerprint = fingerprint, pdisp_issued_at = now\<rparr>))"

text \<open>
  What the two calls a key can make would answer. The first component of the result is whether
  to keep running.
\<close>

record answers =
  ans_start_pairing :: "string + string \<times> string"
  ans_unpair :: "string + unit"

definition handle_confirmation_key ::
  "pending_confirmation \<Rightarrow> key \<Rightarrow> instant \<Rightarrow> app \<Rightarrow> ui_output list \<times> app" where
  "handle_confirmation_key c k now a =
     (if k = KeyChar (CHR ''y'') \<or> k = KeyChar (CHR ''Y'')
      then ([CallConfirm (pc_device_id c) True],
            set_status (''paired with '' @ pc_name c) OkStatus now (a\<lparr>app_confirmation := None, app_pairing := None\<rparr>))
      else if k = KeyChar (CHR ''n'') \<or> k = KeyChar (CHR ''N'') \<or> k = KeyEsc
      then ([CallConfirm (pc_device_id c) False],
            set_status ''pairing rejected'' ErrStatus now (a\<lparr>app_confirmation := None\<rparr>))
      else ([], a))"

definition handle_key ::
  "(string \<Rightarrow> string + string) \<Rightarrow> answers \<Rightarrow> key \<Rightarrow> instant \<Rightarrow> app \<Rightarrow> bool \<times> ui_output list \<times> app" where
  "handle_key draw ans k now a =
     (case app_confirmation a of
        Some c \<Rightarrow> (True, handle_confirmation_key c k now a)
      | None \<Rightarrow>
          if app_pairing a \<noteq> None \<and> k = KeyEsc then (True, [], a\<lparr>app_pairing := None\<rparr>)
          else if k = KeyChar (CHR ''q'') \<or> k = KeyEsc then (False, [], a)
          else if k = KeyChar (CHR ''p'') then
            (True, [CallStartPairing],
             (case start_display draw (ans_start_pairing ans) now of
                Inr d \<Rightarrow> set_status ''scan the QR on your phone, then confirm the fingerprint'' Hint now
                          (a\<lparr>app_pairing := Some d\<rparr>)
              | Inl e \<Rightarrow> set_status (''StartPairing failed: '' @ e) ErrStatus now a))
          else if k = KeyChar (CHR ''u'') then
            (case selected_device a of
               None \<Rightarrow> (True, [], a)
             | Some d \<Rightarrow>
                 (True, [CallUnpair (di_device_id d)],
                  (case ans_unpair ans of
                     Inr _ \<Rightarrow> set_status (''unpaired '' @ di_name d) OkStatus now a
                   | Inl e \<Rightarrow> set_status (''Unpair failed: '' @ e) ErrStatus now a)))
          else if k = KeyUp \<or> k = KeyChar (CHR ''k'') then (True, [], a\<lparr>app_selected := app_selected a - 1\<rparr>)
          else if (k = KeyDown \<or> k = KeyChar (CHR ''j'')) \<and> app_selected a + 1 < length (app_devices a)
            then (True, [], a\<lparr>app_selected := app_selected a + 1\<rparr>)
          else (True, [], a))"

section \<open>The loop\<close>

datatype ui_event =
    KeyPress key answers instant
  | RefreshTick "string + device_info list" "string + string \<times> string" instant
  | PairingSignal string string string

definition refresh ::
  "(string \<Rightarrow> string + string) \<Rightarrow> string + device_info list \<Rightarrow> string + string \<times> string \<Rightarrow> instant \<Rightarrow> app
     \<Rightarrow> ui_output list \<times> app" where
  "refresh draw listing answer now a =
     (let a1 = (if status_expired (app_status a) now then a\<lparr>app_status := hint\<rparr> else a);
          a2 = (case listing of
                  Inr devs \<Rightarrow> a1\<lparr>app_devices := devs\<rparr>
                | Inl e \<Rightarrow> set_status (''refresh failed: '' @ e) ErrStatus now a1);
          stale = (case app_pairing a2 of
                     None \<Rightarrow> False
                   | Some p \<Rightarrow> should_regenerate (pdisp_issued_at p) now (app_confirmation a2 \<noteq> None)) in
      if \<not> stale then ([], a2)
      else ([CallStartPairing],
            (case start_display draw answer now of
               Inr d \<Rightarrow> a2\<lparr>app_pairing := Some d\<rparr>
             | Inl e \<Rightarrow> set_status (''QR refresh failed: '' @ e) ErrStatus now (a2\<lparr>app_pairing := None\<rparr>))))"

text \<open>The state is \<open>None\<close> once the interface has quit.\<close>

definition ui_step ::
  "(string \<Rightarrow> string + string) \<Rightarrow> app option \<Rightarrow> ui_event \<Rightarrow> ui_output list \<times> app option" where
  "ui_step draw s ev =
     (case s of
        None \<Rightarrow> ([], None)
      | Some a \<Rightarrow>
          (case ev of
             KeyPress k ans now \<Rightarrow>
               (case handle_key draw ans k now a of
                  (True, out, a') \<Rightarrow> (out, Some a')
                | (False, out, a') \<Rightarrow> (out @ [Quits], None))
           | RefreshTick listing answer now \<Rightarrow>
               (case refresh draw listing answer now a of (out, a') \<Rightarrow> (out, Some a'))
           | PairingSignal i fp name \<Rightarrow>
               ([Prompts i],
                Some (a\<lparr>app_confirmation := Some \<lparr>pc_device_id = i, pc_fingerprint = fp, pc_name = name\<rparr>\<rparr>))))"

section \<open>A question on the screen has the keyboard\<close>

text \<open>
  The abstract interface: asking about a device or not, until it has quit. Only an answer to the
  question on the screen is ever sent, once; nothing is unpaired, no new code is fetched and
  nobody quits while there is one.
\<close>

datatype ui_view = Asking string | Browsing | Left

fun ui_spec :: "ui_view \<Rightarrow> ui_output \<Rightarrow> ui_view option" where
  "ui_spec (Asking i) (Prompts j) = Some (Asking j)"
| "ui_spec Browsing (Prompts j) = Some (Asking j)"
| "ui_spec (Asking i) (CallConfirm j b) = (if i = j then Some Browsing else None)"
| "ui_spec Browsing CallStartPairing = Some Browsing"
| "ui_spec Browsing (CallUnpair i) = Some Browsing"
| "ui_spec Browsing Quits = Some Left"
| "ui_spec v out = None"

definition ui_abs :: "app option \<Rightarrow> ui_view" where
  "ui_abs s =
     (case s of
        None \<Rightarrow> Left
      | Some a \<Rightarrow> (case app_confirmation a of None \<Rightarrow> Browsing | Some c \<Rightarrow> Asking (pc_device_id c)))"

lemma set_status_confirmation [simp]: "app_confirmation (set_status s k now a) = app_confirmation a"
  by (simp add: set_status_def)

lemma handle_key_refines:
  assumes "handle_key draw ans k now a = (goes_on, out, a')"
  shows "spec_run ui_spec (ui_abs (Some a)) (out @ (if goes_on then [] else [Quits]))
    = Some (ui_abs (if goes_on then Some a' else None))"
proof (cases "app_confirmation a")
  case (Some c)
  then have "goes_on" and "(out, a') = handle_confirmation_key c k now a"
    using assms by (simp_all add: handle_key_def)
  then show ?thesis
    using Some by (auto simp: handle_confirmation_key_def ui_abs_def split: if_splits)
next
  case None
  show ?thesis
  proof (cases "selected_device a")
    case sel: None
    show ?thesis
      using assms None sel
      by (auto simp: handle_key_def ui_abs_def split: if_splits sum.splits)
  next
    case (Some d)
    show ?thesis
      using assms None Some
      by (auto simp: handle_key_def ui_abs_def split: if_splits sum.splits)
  qed
qed

lemma refresh_refines:
  assumes "refresh draw listing answer now a = (out, a')"
  shows "spec_run ui_spec (ui_abs (Some a)) out = Some (ui_abs (Some a'))"
proof -
  define a1 where "a1 = (if status_expired (app_status a) now then a\<lparr>app_status := hint\<rparr> else a)"
  define a2 where "a2 = (case listing of Inr devs \<Rightarrow> a1\<lparr>app_devices := devs\<rparr>
      | Inl e \<Rightarrow> set_status (''refresh failed: '' @ e) ErrStatus now a1)"
  have c: "app_confirmation a2 = app_confirmation a"
    by (simp add: a2_def a1_def split: sum.split)
  have r: "refresh draw listing answer now a =
     (if \<not> (case app_pairing a2 of None \<Rightarrow> False
            | Some p \<Rightarrow> should_regenerate (pdisp_issued_at p) now (app_confirmation a2 \<noteq> None)) then ([], a2)
      else ([CallStartPairing],
            (case start_display draw answer now of
               Inr d \<Rightarrow> a2\<lparr>app_pairing := Some d\<rparr>
             | Inl e \<Rightarrow> set_status (''QR refresh failed: '' @ e) ErrStatus now (a2\<lparr>app_pairing := None\<rparr>))))"
    unfolding refresh_def Let_def a1_def a2_def by (rule refl)
  show ?thesis
    using assms c unfolding r
    by (auto simp: ui_abs_def should_regenerate_def split: if_splits option.splits sum.splits)
qed

lemma ui_step_refines:
  assumes "total_step (ui_step draw) s ev = Some (out, s')"
  shows "spec_run ui_spec (ui_abs s) out = Some (ui_abs s')"
proof (cases s)
  case None
  with assms show ?thesis by (simp add: ui_step_def)
next
  case (Some a)
  show ?thesis
  proof (cases ev)
    case (KeyPress k ans now)
    obtain goes_on out1 a' where h: "handle_key draw ans k now a = (goes_on, out1, a')"
      by (metis surj_pair)
    then have "out = out1 @ (if goes_on then [] else [Quits])" and "s' = (if goes_on then Some a' else None)"
      using assms Some KeyPress by (cases goes_on; simp add: ui_step_def)+
    with handle_key_refines [OF h] Some show ?thesis by simp
  next
    case (RefreshTick listing answer now)
    obtain out1 a' where r: "refresh draw listing answer now a = (out1, a')"
      by (metis surj_pair)
    then have "out = out1" and "s' = Some a'"
      using assms Some RefreshTick by (simp_all add: ui_step_def)
    with refresh_refines [OF r] Some show ?thesis by simp
  next
    case (PairingSignal i fp name)
    with assms Some show ?thesis
      by (auto simp: ui_step_def ui_abs_def split: option.splits)
  qed
qed

interpretation ui: refining_machine "total_step (ui_step draw)" "\<lambda>_. True" ui_abs ui_spec
  by unfold_locales (simp_all add: ui_step_refines del: total_step_Some)

definition answered_before :: "ui_output list \<Rightarrow> string \<Rightarrow> bool" where
  "answered_before outs i \<longleftrightarrow> (\<exists>xs ys. outs = xs @ Prompts i # ys \<and> (\<forall>j b. CallConfirm j b \<notin> set ys) \<and> (\<forall>j. Prompts j \<notin> set ys))"

lemma asking_since:
  "spec_run ui_spec v outs = Some (Asking i) \<Longrightarrow> v = Asking i \<and> outs = [] \<or> answered_before outs i"
proof (induction outs rule: rev_induct)
  case Nil
  then show ?case by simp
next
  case (snoc o' outs)
  then obtain w where w: "spec_run ui_spec v outs = Some w" "ui_spec w o' = Some (Asking i)"
    by (auto simp: spec_run_append split: option.splits)
  then have "o' = Prompts i"
    by (cases w; cases o') (auto split: if_splits)
  then show ?case
    unfolding answered_before_def by (intro disjI2 exI [of _ outs] exI [of _ "[]"]) simp
qed

text \<open>
  C25. A question on the screen has the keyboard. In every run of the interface, from start until
  it quits: a confirmation is sent only for the device the latest question named, and not
  twice for one question; and between a question and its answer no key quits, unpairs a
  device or throws the code away.
\<close>

theorem prompt_owns_keyboard:
  assumes "run_steps (total_step (ui_step draw)) (Some (new_app devs)) evs = Some (outs, s')"
  shows "(\<forall>pre i b post. outs = pre @ CallConfirm i b # post \<longrightarrow> answered_before pre i) \<and>
    (\<forall>pre i mid out post. outs = pre @ Prompts i # mid @ out # post \<and> (\<forall>j b. CallConfirm j b \<notin> set mid) \<longrightarrow>
       out \<noteq> Quits \<and> out \<noteq> CallStartPairing \<and> (\<forall>j. out \<noteq> CallUnpair j))"
proof -
  have run: "spec_run ui_spec Browsing outs = Some (ui_abs s')"
    using ui.run_refines [OF TrueI assms] by (simp add: ui_abs_def new_app_def)
  have "answered_before pre i" if outs: "outs = pre @ CallConfirm i b # post" for pre i b post
  proof -
    obtain v where v: "spec_run ui_spec Browsing pre = Some v" "spec_run ui_spec v (CallConfirm i b # post) = Some (ui_abs s')"
      using run unfolding outs by (rule spec_run_appendE)
    then have "v = Asking i"
      by (cases v) (auto split: if_splits)
    with asking_since [of Browsing pre i] v(1) show ?thesis by simp
  qed
  moreover have "out \<noteq> Quits \<and> out \<noteq> CallStartPairing \<and> (\<forall>j. out \<noteq> CallUnpair j)"
    if outs: "outs = pre @ Prompts i # mid @ out # post" and mid: "\<forall>j b. CallConfirm j b \<notin> set mid" for pre i mid out post
  proof -
    have still: "spec_run ui_spec (Asking k) mid = Some w \<Longrightarrow> \<exists>k'. w = Asking k'" for k w
      using mid
    proof (induction mid arbitrary: k)
      case Nil
      then show ?case by auto
    next
      case (Cons x xs)
      then show ?case by (cases x) (auto split: if_splits)
    qed
    obtain v where v: "spec_run ui_spec v (Prompts i # mid @ out # post) = Some (ui_abs s')"
      using run unfolding outs by (rule spec_run_appendE)
    then have "spec_run ui_spec (Asking i) (mid @ out # post) = Some (ui_abs s')"
      by (cases v) auto
    then obtain w where w: "spec_run ui_spec (Asking i) mid = Some w" "spec_run ui_spec w (out # post) = Some (ui_abs s')"
      by (rule spec_run_appendE)
    from still [OF w(1)] obtain k' where "w = Asking k'" ..
    with w(2) show ?thesis
      by (cases out) auto
  qed
  ultimately show ?thesis by blast
qed

theorem prompt_owns_keyboard_witness:
  "answered_before [CallStartPairing, Prompts ''ab''] ''ab''"
proof -
  let ?ans = "\<lparr>ans_start_pairing = Inl ''busy'', ans_unpair = Inr ()\<rparr>"
  have "run_steps (total_step (ui_step (\<lambda>_. Inl [])))
      (Some (new_app [])) [KeyPress (KeyChar (CHR ''p'')) ?ans 0, PairingSignal ''ab'' ''fp'' ''pixel'',
        KeyPress (KeyChar (CHR ''q'')) ?ans 1, KeyPress (KeyChar (CHR ''y'')) ?ans 2]
    = Some ([CallStartPairing, Prompts ''ab'', CallConfirm ''ab'' True],
        Some (set_status (''paired with '' @ ''pixel'') OkStatus 2 (set_status (''StartPairing failed: '' @ ''busy'') ErrStatus 0 (new_app []))))"
    by (simp add: total_step_def ui_step_def handle_key_def handle_confirmation_key_def start_display_def new_app_def
        set_status_def status_message_def hint_def)
  from prompt_owns_keyboard [OF this] show ?thesis
    by (metis append_Cons append_Nil)
qed

end
