(* ===== verification/Tui_Draw.thy ===== *)
theory Tui_Draw
  imports Tui
begin

text \<open>
  What \<open>crates/cli/src/tui.rs\<close> draws: the text and the style of every line, and the rectangles of
  the two overlays. How \<open>ratatui\<close> splits the frame into three rows, wraps and clips is outside;
  \<open>uncut\<close> says when the lines passed to it need neither, by what it documents. Characters outside ASCII are written as their UTF-8 bytes.
\<close>

section \<open>Styled text\<close>

datatype colour = Cyan | DarkGray | Green | Yellow | Red

definition accent :: colour where "accent = Cyan"
definition muted :: colour where "muted = DarkGray"
definition ok_colour :: colour where "ok_colour = Green"
definition warn :: colour where "warn = Yellow"
definition err_colour :: colour where "err_colour = Red"

text \<open>A span: its text, its colour if it has one, whether it is bold.\<close>

datatype span = Span (span_text: string) "colour option" bool

abbreviation raw :: "string \<Rightarrow> span" where "raw s \<equiv> Span s None False"
abbreviation styled :: "string \<Rightarrow> colour \<Rightarrow> span" where "styled s c \<equiv> Span s (Some c) False"
abbreviation strong :: "string \<Rightarrow> colour \<Rightarrow> span" where "strong s c \<equiv> Span s (Some c) True"

definition middle_dot :: string where "middle_dot = [CHR 0xC2, CHR 0xB7]"
definition filled_dot :: string where "filled_dot = [CHR 0xE2, CHR 0x97, CHR 0x8F]"
definition hollow_dot :: string where "hollow_dot = [CHR 0xE2, CHR 0x97, CHR 0x8B]"
definition up_down :: string where
  "up_down = [CHR 0xE2, CHR 0x86, CHR 0x91] @ ''/'' @ [CHR 0xE2, CHR 0x86, CHR 0x93]"
definition long_dash :: string where "long_dash = [CHR 0xE2, CHR 0x80, CHR 0x94]"

section \<open>Header, device list and footer\<close>

definition header_summary :: "device_info list \<Rightarrow> string" where
  "header_summary devs =
     (let connected = length (filter di_connected devs) in
      if length devs = 0 then ''no devices''
      else if connected = 0 then show_nat (length devs) @ '' paired '' @ middle_dot @ '' none connected''
      else show_nat (length devs) @ '' paired '' @ middle_dot @ '' '' @ show_nat connected @ '' connected'')"

definition draw_header :: "app \<Rightarrow> span list" where
  "draw_header a = [strong '' PenguinSync'' accent, raw ''  '', styled (header_summary (app_devices a)) muted]"

text \<open>One row of the list; slicing the id panics (\<open>None\<close>) inside a character.\<close>

definition device_row :: "device_info \<Rightarrow> span list option" where
  "device_row d =
     (case str_get (di_device_id d) 0 (min 16 (length (di_device_id d))) of
        None \<Rightarrow> None
      | Some short \<Rightarrow>
          (case (if di_connected d then (filled_dot, ''connected'', ok_colour) else (hollow_dot, ''offline'', muted)) of
             (dot, label, colour) \<Rightarrow>
               Some [styled dot colour, raw ('' '' @ di_name d @ ''  ''), styled short muted, raw ''  '',
                     styled label colour]))"

datatype device_panel =
    EmptyPanel "span list list"
  | DeviceRows "span list list" nat

fun device_rows :: "device_info list \<Rightarrow> span list list option" where
  "device_rows [] = Some []"
| "device_rows (d # ds) =
     (case device_row d of
        None \<Rightarrow> None
      | Some row \<Rightarrow> map_option (\<lambda>rows. row # rows) (device_rows ds))"

definition draw_devices :: "app \<Rightarrow> device_panel option" where
  "draw_devices a =
     (if app_devices a = []
      then Some (EmptyPanel [[raw []], [styled ''No paired devices yet.'' muted],
             [styled ''Press '' muted, strong ''p'' accent, styled '' to show a pairing code.'' muted]])
      else map_option (\<lambda>rows. DeviceRows rows (app_selected a)) (device_rows (app_devices a)))"

definition footer_keys :: "app \<Rightarrow> (string \<times> string) list" where
  "footer_keys a =
     (if app_confirmation a \<noteq> None then [(''y'', ''confirm''), (''n'', ''reject'')]
      else if app_pairing a \<noteq> None then [(''Esc'', ''dismiss'')]
      else [(''p'', ''pair''), (''u'', ''unpair''), (up_down, ''select''), (''q'', ''quit'')])"

definition draw_footer :: "app \<Rightarrow> span list" where
  "draw_footer a =
     (if st_set_at (app_status a) \<noteq> None
      then [styled ('' '' @ st_text (app_status a))
              (case st_kind (app_status a) of OkStatus \<Rightarrow> ok_colour | ErrStatus \<Rightarrow> err_colour | Hint \<Rightarrow> muted)]
      else raw '' '' # concat (map (\<lambda>(key, label). [strong key accent, styled ('' '' @ label @ ''   '') muted]) (footer_keys a)))"

section \<open>Overlays: where\<close>

text \<open>
  Terminal sizes are 16-bit; an overflowing \<open>+\<close> or \<open>*\<close> panics (in a build with overflow
  checks), and so does \<open>clamp\<close> when its lower bound exceeds its upper one: \<open>None\<close>.
\<close>

record rect =
  rx :: nat
  ry :: nat
  rwidth :: nat
  rheight :: nat

definition u16_ok :: "nat \<Rightarrow> nat option" where
  "u16_ok n = (if n < 65536 then Some n else None)"

definition clamp :: "nat \<Rightarrow> nat \<Rightarrow> nat \<Rightarrow> nat option" where
  "clamp v lo hi = (if lo > hi then None else Some (if v < lo then lo else if v > hi then hi else v))"

definition pairing_footer_rows :: nat where
  "pairing_footer_rows = 4"

datatype pairing_layout = TooSmall | CodeAt rect rect

definition draw_pairing :: "rect \<Rightarrow> rendered \<Rightarrow> pairing_layout option" where
  "draw_pairing area qr =
     (let needed_width = unat (rd_width qr) in
      case u16_ok (unat (rd_height qr) + pairing_footer_rows) of
        None \<Rightarrow> None
      | Some needed_height \<Rightarrow>
          if needed_width > rwidth area \<or> needed_height > rheight area then Some TooSmall
          else (case u16_ok (rx area + (rwidth area - needed_width) div 2) of
             None \<Rightarrow> None
           | Some x \<Rightarrow>
               (case u16_ok (ry area + unat (rd_height qr)) of
                  None \<Rightarrow> None
                | Some y \<Rightarrow>
                    Some (CodeAt \<lparr>rx = x, ry = ry area, rwidth = needed_width, rheight = unat (rd_height qr)\<rparr>
                                 \<lparr>rx = x, ry = y, rwidth = needed_width, rheight = pairing_footer_rows\<rparr>))))"

definition draw_confirmation :: "rect \<Rightarrow> rect option" where
  "draw_confirmation area =
     (case u16_ok (rwidth area * 3) of
        None \<Rightarrow> None
      | Some w3 \<Rightarrow>
          (case clamp (w3 div 4) 20 (rwidth area) of
             None \<Rightarrow> None
           | Some width \<Rightarrow>
               (case u16_ok (rheight area * 3) of
                  None \<Rightarrow> None
                | Some h3 \<Rightarrow>
                    (case clamp (h3 div 4) 10 (rheight area) of
                       None \<Rightarrow> None
                     | Some height \<Rightarrow>
                         Some \<lparr>rx = (rwidth area - width) div 2, ry = (rheight area - height) div 2,
                               rwidth = width, rheight = height\<rparr>))))"

definition inside :: "rect \<Rightarrow> rect \<Rightarrow> bool" where
  "inside r area \<longleftrightarrow>
     rx area \<le> rx r \<and> rx r + rwidth r \<le> rx area + rwidth area \<and>
     ry area \<le> ry r \<and> ry r + rheight r \<le> ry area + rheight area"

text \<open>
  The code is drawn whole or not at all. On a frame of any size the pairing overlay either
  says the terminal is too small or puts the whole code, uncut, and below it, without overlap,
  its four lines of text inside the frame; it says so exactly when the code with those lines
  does not fit, and it cannot panic for a code of fewer than 65532 rows.
\<close>

lemma pairing_code_whole:
  assumes "rx area + rwidth area < 65536" and "ry area + rheight area < 65536" and "unat (rd_height qr) < 65532"
  shows "case draw_pairing area qr of
      None \<Rightarrow> False
    | Some TooSmall \<Rightarrow> rwidth area < unat (rd_width qr) \<or> rheight area < unat (rd_height qr) + 4
    | Some (CodeAt code footer) \<Rightarrow>
        inside code area \<and> inside footer area \<and> ry footer = ry code + rheight code \<and>
        rwidth code = unat (rd_width qr) \<and> rheight code = unat (rd_height qr) \<and> rheight footer = 4"
proof (cases "rwidth area < unat (rd_width qr) \<or> rheight area < unat (rd_height qr) + 4")
  case True
  then show ?thesis
    using assms(3) by (auto simp: draw_pairing_def u16_ok_def pairing_footer_rows_def Let_def)
next
  case False
  define x where "x = rx area + (rwidth area - unat (rd_width qr)) div 2"
  have x: "rx area \<le> x" "x + unat (rd_width qr) \<le> rx area + rwidth area"
    using False by (auto simp: x_def)
  have "draw_pairing area qr =
      Some (CodeAt \<lparr>rx = x, ry = ry area, rwidth = unat (rd_width qr), rheight = unat (rd_height qr)\<rparr>
        \<lparr>rx = x, ry = ry area + unat (rd_height qr), rwidth = unat (rd_width qr), rheight = 4\<rparr>)"
    using False assms x by (simp add: draw_pairing_def u16_ok_def pairing_footer_rows_def Let_def x_def [symmetric])
  then show ?thesis
    using False x by (auto simp: inside_def)
qed

text \<open>
  The security prompt needs a terminal of at least twenty columns and ten rows. On a frame the
  arithmetic can hold, drawing the prompt succeeds, with the popup inside the frame, exactly when
  it has that size; on a smaller one \<open>clamp\<close> panics as soon as a phone asks to pair.
\<close>

lemma confirmation_popup_size:
  assumes "rwidth area \<le> 21845" and "rheight area \<le> 21845" and "rx area = 0" and "ry area = 0"
  shows "(draw_confirmation area = None \<longleftrightarrow> rwidth area < 20 \<or> rheight area < 10) \<and>
    (\<forall>popup. draw_confirmation area = Some popup \<longrightarrow> inside popup area \<and> 20 \<le> rwidth popup \<and> 10 \<le> rheight popup)"
proof -
  have w: "u16_ok (rwidth area * 3) = Some (rwidth area * 3)" and h: "u16_ok (rheight area * 3) = Some (rheight area * 3)"
    using assms(1,2) by (simp_all add: u16_ok_def)
  show ?thesis
    using assms(3,4)
    by (auto simp: draw_confirmation_def w h clamp_def inside_def split: if_splits)
qed

section \<open>Overlays: what\<close>

definition too_small_text :: "rect \<Rightarrow> rendered \<Rightarrow> string \<Rightarrow> string \<Rightarrow> string" where
  "too_small_text area qr uri fingerprint =
     ''This terminal is '' @ show_nat (rwidth area) @ ''x'' @ show_nat (rheight area) @
     '', too small to show the pairing QR uncut (it needs '' @ show_nat (unat (rd_width qr)) @ ''x'' @
     show_nat (unat (rd_height qr) + pairing_footer_rows) @
     ''). A clipped QR cannot be scanned, so it isn'' @ [CHR 0x27] @ ''t drawn.'' @ [CHR 0x0A, CHR 0x0A] @
     ''Resize the window and press '' @ [CHR 0x27] @ ''p'' @ [CHR 0x27] @ '' again '' @ long_dash @ '' or type this into the phone'' @ [CHR 0x27] @
     ''s Pair screen by hand:'' @ [CHR 0x0A, CHR 0x0A] @ uri @ [CHR 0x0A, CHR 0x0A] @
     ''Fingerprint: '' @ fingerprint @ [CHR 0x0A, CHR 0x0A] @ ''[Esc] dismiss''"

definition countdown_lines :: "pairing_display \<Rightarrow> instant \<Rightarrow> span list list" where
  "countdown_lines p now =
     (let left = remaining_secs (pdisp_issued_at p) now in
      [[styled ''Fingerprint  '' muted, Span (pdisp_fingerprint p) None True],
       [styled (''Refreshes in '' @ show_nat left @ ''s'') (if left \<le> 10 then warn else muted)],
       [raw []],
       [strong ''Esc'' accent, styled '' dismiss'' muted]])"

definition confirmation_lines :: "pending_confirmation \<Rightarrow> span list list" where
  "confirmation_lines c =
     [[raw []],
      [styled ''Device       '' muted, Span (pc_name c) None True],
      [styled ''Fingerprint  '' muted, Span (pc_fingerprint c) None True],
      [raw []],
      [styled ''Does this match what the phone is showing?'' muted],
      [raw []],
      [strong ''y'' ok_colour, styled '' confirm    '' muted, strong ''n'' err_colour, styled '' reject'' muted]]"

section \<open>The whole frame\<close>

datatype overlay =
    NoOverlay
  | ConfirmationPopup rect "span list list"
  | TooSmallNotice string
  | PairingCode rect string rect "span list list"

definition draw_overlay :: "rect \<Rightarrow> instant \<Rightarrow> app \<Rightarrow> overlay option" where
  "draw_overlay area now a =
     (case app_confirmation a of
        Some c \<Rightarrow> map_option (\<lambda>popup. ConfirmationPopup popup (confirmation_lines c)) (draw_confirmation area)
      | None \<Rightarrow>
          (case app_pairing a of
             None \<Rightarrow> Some NoOverlay
           | Some p \<Rightarrow>
               map_option (\<lambda>l. case l of
                   TooSmall \<Rightarrow> TooSmallNotice (too_small_text area (pdisp_qr p) (pdisp_uri p) (pdisp_fingerprint p))
                 | CodeAt code footer \<Rightarrow> PairingCode code (rd_text (pdisp_qr p)) footer (countdown_lines p now))
                 (draw_pairing area (pdisp_qr p))))"

definition draw_frame :: "rect \<Rightarrow> instant \<Rightarrow> app \<Rightarrow> (span list \<times> device_panel \<times> span list \<times> overlay) option" where
  "draw_frame area now a =
     (case draw_devices a of
        None \<Rightarrow> None
      | Some panel \<Rightarrow>
          map_option (\<lambda>o'. (draw_header a, panel, draw_footer a, o')) (draw_overlay area now a))"

lemma device_rows_total: "\<forall>d \<in> set ds. ascii (di_device_id d) \<Longrightarrow> \<exists>rows. device_rows ds = Some rows \<and> length rows = length ds"
  by (induction ds) (auto simp: device_row_def str_get_ascii)

lemma draw_devices_total:
  assumes "\<forall>d \<in> set (app_devices a). ascii (di_device_id d)"
  shows "draw_devices a \<noteq> None"
  using device_rows_total [OF assms] by (auto simp: draw_devices_def)

section \<open>What fits\<close>

text \<open>
  The overlays above carry the lines that are passed to \<open>ratatui\<close>. It documents what becomes of
  them: a border takes a row or a column on each side, a line that is wider than the rest is
  wrapped into further rows (or cut, where no wrapping was asked for), and rows below the area
  are dropped. A character takes at most as many columns as it has bytes, so lines are shown
  uncut, each in its own row, when the area has enough rows and columns for their bytes.
\<close>

definition line_bytes :: "span list \<Rightarrow> nat" where
  "line_bytes l = sum_list (map (\<lambda>s. length (span_text s)) l)"

definition uncut :: "nat \<Rightarrow> rect \<Rightarrow> span list list \<Rightarrow> bool" where
  "uncut border r lines \<longleftrightarrow>
     length lines + 2 * border \<le> rheight r \<and> (\<forall>l \<in> set lines. line_bytes l + 2 * border \<le> rwidth r)"

definition code_uncut :: "rect \<Rightarrow> string \<Rightarrow> bool" where
  "code_uncut r text \<longleftrightarrow> length (str_lines text) \<le> rheight r \<and> (\<forall>l \<in> set (str_lines text). char_count l \<le> rwidth r)"

lemma confirmation_popup_width:
  assumes "draw_confirmation area = Some popup" and "20 \<le> rwidth area"
  shows "rwidth popup = max 20 (rwidth area * 3 div 4)"
proof -
  have "rwidth area * 3 div 4 \<le> rwidth area"
    by simp
  then show ?thesis
    using assms by (auto simp: draw_confirmation_def u16_ok_def clamp_def split: option.splits if_splits)
qed

lemma prompt_uncut:
  assumes "draw_confirmation area = Some popup" and "10 \<le> rheight popup" and "59 \<le> rwidth area"
    and "length (pc_fingerprint c) \<le> 29" and "length (pc_name c) + 15 \<le> rwidth area * 3 div 4"
  shows "uncut 1 popup (confirmation_lines c)"
proof -
  have "44 \<le> rwidth area * 3 div 4"
    using assms(3) by simp
  then have "rwidth popup = rwidth area * 3 div 4" and "44 \<le> rwidth popup"
    using confirmation_popup_width [OF assms(1)] assms(3) by simp_all
  then show ?thesis
    using assms(2,4,5) by (simp add: uncut_def line_bytes_def confirmation_lines_def)
qed

lemma footer_uncut:
  assumes "rheight r = 4" and "32 \<le> rwidth r" and "length (pdisp_fingerprint p) + 13 \<le> rwidth r"
  shows "uncut 0 r (countdown_lines p now)"
proof -
  let ?left = "remaining_secs (pdisp_issued_at p) now"
  have "?left \<le> 60"
    by (simp add: remaining_secs_def token_ttl_def from_secs_def as_secs_def div_le_mono)
  then have "?left div 10 < 10"
    by linarith
  then have "length (show_nat ?left) \<le> 2"
    by (simp add: show_nat.simps [of ?left] show_nat.simps [of "?left div 10"])
  then show ?thesis
    using assms by (simp add: uncut_def line_bytes_def countdown_lines_def Let_def)
qed

lemma rendered_fits:
  assumes "render enc uri = Inr qr" and "unat (rd_width qr) < 65535" and "unat (rd_height qr) < 65535"
    and "rwidth r = unat (rd_width qr)" and "rheight r = unat (rd_height qr)"
  shows "code_uncut r (rd_text qr)"
proof -
  let ?n = "fold max (map char_count (str_lines (rd_text qr))) 0"
  have qr: "rd_width qr = to_u16 ?n" "rd_height qr = to_u16 (length (str_lines (rd_text qr)))"
    using assms(1) by (auto simp: render_def split: sum.splits)
  then have "rwidth r = ?n" and "rheight r = length (str_lines (rd_text qr))"
    using assms(2-5) by (auto simp: to_u16_def unat_of_nat split: if_splits)
  moreover have "char_count l \<le> ?n" if "l \<in> set (str_lines (rd_text qr))" for l
    using that by (metis Max_ge List.finite_set Max.set_eq_fold image_eqI insertCI list.set_map list.simps(15))
  ultimately show ?thesis
    by (simp add: code_uncut_def)
qed

text \<open>The overlay of a pairing code: whole, with its footer, or a notice.\<close>

lemma pairing_overlay:
  assumes "rx area + rwidth area < 65536" and "ry area + rheight area < 65536" and "rwidth area < 65535"
    and "unat (rd_height (pdisp_qr p)) < 65532" and "render enc (pdisp_uri p) = Inr (pdisp_qr p)"
  shows "(\<exists>code footer. draw_pairing area (pdisp_qr p) = Some (CodeAt code footer) \<and>
       inside code area \<and> code_uncut code (rd_text (pdisp_qr p)) \<and> inside footer area \<and> ry footer = ry code + rheight code \<and>
       (32 \<le> rwidth code \<and> length (pdisp_fingerprint p) + 13 \<le> rwidth code \<longrightarrow> uncut 0 footer (countdown_lines p now))) \<or>
    draw_pairing area (pdisp_qr p) = Some TooSmall \<and>
    (rwidth area < unat (rd_width (pdisp_qr p)) \<or> rheight area < unat (rd_height (pdisp_qr p)) + 4)"
proof -
  note code = pairing_code_whole [OF assms(1,2,4)]
  then obtain layout where drawn: "draw_pairing area (pdisp_qr p) = Some layout"
    by (auto split: option.splits)
  show ?thesis
  proof (cases layout)
    case TooSmall
    then show ?thesis
      using code drawn by simp
  next
    case (CodeAt code footer)
    then have at: "inside code area" "inside footer area" "ry footer = ry code + rheight code"
      "rwidth code = unat (rd_width (pdisp_qr p))" "rheight code = unat (rd_height (pdisp_qr p))" "rheight footer = 4"
      using pairing_code_whole [OF assms(1,2,4)] drawn by simp_all
    have same: "rwidth footer = rwidth code"
      using drawn CodeAt by (auto simp: draw_pairing_def Let_def split: option.splits if_splits)
    have "unat (rd_width (pdisp_qr p)) \<le> rwidth area"
      using drawn CodeAt by (auto simp: draw_pairing_def Let_def split: option.splits if_splits)
    then have "code_uncut code (rd_text (pdisp_qr p))"
      using at(4,5) assms(3,4) by (intro rendered_fits [OF assms(5)]) simp_all
    then show ?thesis
      using at same footer_uncut [of footer p now] drawn CodeAt by simp
  qed
qed

text \<open>
  C39. What a frame shows. As long as the device ids are ASCII (those of the daemon are
  hexadecimal), drawing a frame panics exactly when a confirmation is open and the frame is
  narrower than twenty columns or lower than ten rows. Otherwise an open question is on top of
  everything, in a popup inside the frame, and if the frame has at least fifty-nine columns and
  the peer's name is not longer than the popup leaves room for, none of its lines (the name, the
  fingerprint the human must compare, the keys) is wrapped or cut. A pairing code is drawn inside
  the frame with every row of it uncut, above a footer that is uncut when the code is at least
  as wide as the fingerprint's line; or, exactly when it does not fit, it is not drawn and the
  text to type in is passed instead.
\<close>

theorem frame_drawn_unless_tiny:
  assumes "rx area = 0" and "ry area = 0" and "rwidth area \<le> 21845" and "rheight area \<le> 21845"
    and "\<forall>d \<in> set (app_devices a). ascii (di_device_id d)"
    and "\<forall>p. app_pairing a = Some p \<longrightarrow> unat (rd_height (pdisp_qr p)) < 65532 \<and> render enc (pdisp_uri p) = Inr (pdisp_qr p)"
  shows "(draw_frame area now a = None \<longleftrightarrow> app_confirmation a \<noteq> None \<and> (rwidth area < 20 \<or> rheight area < 10)) \<and>
    (\<forall>h devs f o'. draw_frame area now a = Some (h, devs, f, o') \<longrightarrow>
       (\<forall>c. app_confirmation a = Some c \<longrightarrow>
          (\<exists>popup. o' = ConfirmationPopup popup (confirmation_lines c) \<and> inside popup area \<and>
             (59 \<le> rwidth area \<and> length (pc_fingerprint c) \<le> 29 \<and> length (pc_name c) + 15 \<le> rwidth area * 3 div 4 \<longrightarrow>
                uncut 1 popup (confirmation_lines c)))) \<and>
       (\<forall>p. app_confirmation a = None \<and> app_pairing a = Some p \<longrightarrow>
          (\<exists>code footer. o' = PairingCode code (rd_text (pdisp_qr p)) footer (countdown_lines p now) \<and>
             inside code area \<and> code_uncut code (rd_text (pdisp_qr p)) \<and>
             inside footer area \<and> ry footer = ry code + rheight code \<and>
             (32 \<le> rwidth code \<and> length (pdisp_fingerprint p) + 13 \<le> rwidth code \<longrightarrow> uncut 0 footer (countdown_lines p now))) \<or>
          o' = TooSmallNotice (too_small_text area (pdisp_qr p) (pdisp_uri p) (pdisp_fingerprint p)) \<and>
          (rwidth area < unat (rd_width (pdisp_qr p)) \<or> rheight area < unat (rd_height (pdisp_qr p)) + 4)))"
proof -
  obtain panel where panel: "draw_devices a = Some panel"
    using draw_devices_total [OF assms(5)] by blast
  note popup = confirmation_popup_size [OF assms(3,4,1,2)]
  show ?thesis
  proof (cases "app_confirmation a")
    case (Some c)
    have "uncut 1 popup (confirmation_lines c)"
      if "draw_confirmation area = Some popup" "59 \<le> rwidth area" "length (pc_fingerprint c) \<le> 29"
        "length (pc_name c) + 15 \<le> rwidth area * 3 div 4" for popup
      using prompt_uncut [OF that(1) _ that(2-4)] popup that(1) by blast
    with Some panel popup show ?thesis
      by (auto simp: draw_frame_def draw_overlay_def)
  next
    case None
    then have frame: "draw_frame area now a = map_option (\<lambda>o'. (draw_header a, panel, draw_footer a, o')) (draw_overlay area now a)"
      using panel by (simp add: draw_frame_def)
    show ?thesis
    proof (cases "app_pairing a")
      case None
      then show ?thesis
        using \<open>app_confirmation a = None\<close> by (simp add: frame draw_overlay_def)
    next
      case (Some p)
      then have p: "unat (rd_height (pdisp_qr p)) < 65532" "render enc (pdisp_uri p) = Inr (pdisp_qr p)"
        using assms(6) by simp_all
      have "rx area + rwidth area < 65536" "ry area + rheight area < 65536" "rwidth area < 65535"
        using assms(1-4) by simp_all
      from pairing_overlay [OF this p, of now] show ?thesis
        using \<open>app_confirmation a = None\<close> Some by (auto simp: frame draw_overlay_def)
    qed
  qed
qed

definition asking_app :: app where
  "asking_app = (new_app [\<lparr>di_device_id = ''0101'', di_name = ''pixel'', di_connected = True\<rparr>])
     \<lparr>app_confirmation := Some \<lparr>pc_device_id = ''0202'', pc_fingerprint = ''c0b2-6dd9'', pc_name = ''tab''\<rparr>\<rparr>"

theorem frame_drawn_unless_tiny_witness:
  "draw_frame \<lparr>rx = 0, ry = 0, rwidth = 80, rheight = 9\<rparr> 0 asking_app = None \<and>
   (\<exists>h devs f popup lines. draw_frame \<lparr>rx = 0, ry = 0, rwidth = 80, rheight = 24\<rparr> 0 asking_app
      = Some (h, devs, f, ConfirmationPopup popup lines) \<and> uncut 1 popup lines)"
proof -
  let ?small = "\<lparr>rx = 0, ry = 0, rwidth = 80, rheight = 9\<rparr>" and ?large = "\<lparr>rx = 0, ry = 0, rwidth = 80, rheight = 24\<rparr>"
  let ?c = "\<lparr>pc_device_id = ''0202'', pc_fingerprint = ''c0b2-6dd9'', pc_name = ''tab''\<rparr>"
  have a: "\<forall>d \<in> set (app_devices asking_app). ascii (di_device_id d)" "app_pairing asking_app = None"
      "app_confirmation asking_app = Some ?c"
    by (simp_all add: asking_app_def new_app_def ascii_def)
  then have "\<forall>p. app_pairing asking_app = Some p \<longrightarrow>
      unat (rd_height (pdisp_qr p)) < 65532 \<and> render (\<lambda>_. Inl []) (pdisp_uri p) = Inr (pdisp_qr p)"
    by simp
  note drawn = frame_drawn_unless_tiny [OF _ _ _ _ a(1) this]
  have "draw_frame ?small 0 asking_app = None" and some: "draw_frame ?large 0 asking_app \<noteq> None"
    using drawn [of ?small 0] drawn [of ?large 0] a(3) by auto
  moreover obtain h devs f o' where "draw_frame ?large 0 asking_app = Some (h, devs, f, o')"
    using some by (metis not_None_eq prod_cases4)
  moreover from this obtain popup where "o' = ConfirmationPopup popup (confirmation_lines ?c)"
      "uncut 1 popup (confirmation_lines ?c)"
    using drawn [of ?large 0] a(3) by auto
  ultimately show ?thesis
    by blast
qed

section \<open>What does not fit\<close>

text \<open>
  However a line of one-column characters is wrapped, it takes at least this many rows of \<open>w\<close>
  columns. A line before which there are as many rows as the area has is not shown.
\<close>

definition least_rows :: "nat \<Rightarrow> span list \<Rightarrow> nat" where
  "least_rows w l = max 1 ((line_bytes l + (w - 1)) div w)"

definition rows_above :: "nat \<Rightarrow> nat \<Rightarrow> span list list \<Rightarrow> nat" where
  "rows_above w n lines = sum_list (map (least_rows w) (take n lines))"

text \<open>
  The peer chooses its name, and nothing bounds it: a long one pushes the fingerprint, the third
  line of the prompt, and the keys out of the popup, and is free to look like them.
\<close>

lemma long_name_hides_fingerprint:
  assumes "draw_confirmation area = Some popup" and "20 \<le> rwidth popup"
    and "(rwidth popup - 2) * (rheight popup - 2) \<le> length (pc_name c)"
  shows "rheight popup - 2 < rows_above (rwidth popup - 2) 2 (confirmation_lines c)"
proof -
  let ?w = "rwidth popup - 2"
  have named: "line_bytes [styled ''Device       '' muted, Span (pc_name c) None True] = 13 + length (pc_name c)"
    by (simp add: line_bytes_def)
  have "rheight popup - 2 = ?w * (rheight popup - 2) div ?w"
    using assms(2) by simp
  also have "\<dots> \<le> (13 + length (pc_name c) + (?w - 1)) div ?w"
    using assms(3) by (intro div_le_mono) simp
  finally have "rheight popup - 2 \<le> least_rows ?w [styled ''Device       '' muted, Span (pc_name c) None True]"
    unfolding least_rows_def named by linarith
  moreover have "take 2 (confirmation_lines c) = [[raw []], [styled ''Device       '' muted, Span (pc_name c) None True]]"
    by (simp add: confirmation_lines_def numeral_2_eq_2)
  moreover have "1 \<le> least_rows ?w [raw []]"
    by (simp add: least_rows_def)
  ultimately show ?thesis
    by (simp add: rows_above_def)
qed

text \<open>On the smallest terminal the prompt accepts, the keys, its last line, are never shown.\<close>

lemma tiny_prompt_hides_keys:
  assumes "19 \<le> length (pc_fingerprint c)"
  shows "draw_confirmation \<lparr>rx = 0, ry = 0, rwidth = 20, rheight = 10\<rparr> = Some \<lparr>rx = 0, ry = 0, rwidth = 20, rheight = 10\<rparr>"
    and "10 - 2 < rows_above (20 - 2) 6 (confirmation_lines c)"
proof -
  have "2 \<le> (13 + length (pc_fingerprint c) + 17) div 18"
    using div_le_mono [of 49 "13 + length (pc_fingerprint c) + 17" 18] assms by simp
  then show "10 - 2 < rows_above (20 - 2) 6 (confirmation_lines c)"
    by (simp add: rows_above_def least_rows_def line_bytes_def confirmation_lines_def)
qed (simp add: draw_confirmation_def u16_ok_def clamp_def)

section \<open>The hints\<close>

text \<open>Every hint of the footer is true: the key it names does what it says.\<close>

lemma hints_while_asking:
  assumes "app_confirmation a = Some c"
  shows "footer_keys a = [(''y'', ''confirm''), (''n'', ''reject'')]"
    and "fst (snd (handle_key draw ans (KeyChar (CHR ''y'')) now a)) = [CallConfirm (pc_device_id c) True]"
    and "fst (snd (handle_key draw ans (KeyChar (CHR ''n'')) now a)) = [CallConfirm (pc_device_id c) False]"
  using assms by (simp_all add: footer_keys_def handle_key_def handle_confirmation_key_def)

lemma hints_with_code:
  assumes "app_confirmation a = None" and "app_pairing a \<noteq> None"
  shows "footer_keys a = [(''Esc'', ''dismiss'')]"
    and "handle_key draw ans KeyEsc now a = (True, [], a\<lparr>app_pairing := None\<rparr>)"
  using assms by (simp_all add: footer_keys_def handle_key_def)

lemma hints_while_browsing:
  assumes "app_confirmation a = None" and "app_pairing a = None"
  shows "footer_keys a = [(''p'', ''pair''), (''u'', ''unpair''), (up_down, ''select''), (''q'', ''quit'')]"
    and "fst (snd (handle_key draw ans (KeyChar (CHR ''p'')) now a)) = [CallStartPairing]"
    and "fst (snd (handle_key draw ans (KeyChar (CHR ''u'')) now a)) =
      (case selected_device a of None \<Rightarrow> [] | Some d \<Rightarrow> [CallUnpair (di_device_id d)])"
    and "handle_key draw ans KeyUp now a = (True, [], a\<lparr>app_selected := app_selected a - 1\<rparr>)"
    and "app_selected a + 1 < length (app_devices a) \<Longrightarrow>
      handle_key draw ans KeyDown now a = (True, [], a\<lparr>app_selected := app_selected a + 1\<rparr>)"
    and "handle_key draw ans (KeyChar (CHR ''q'')) now a = (False, [], a)"
  using assms by (simp_all add: footer_keys_def handle_key_def split: option.split)

end
