(* ===== verification/Tui_Terminal.thy ===== *)
theory Tui_Terminal
  imports Main
begin

text \<open>
  \<open>crates/cli/src/tui.rs\<close>: taking over the terminal and giving it back. The modes of the terminal
  that the code sets through \<open>crossterm\<close> are the state; whether a call succeeds is the
  environment's choice (\<open>term_calls\<close>). What \<open>ratatui::init\<close> and \<open>ratatui::restore\<close> do to the modes
  is a parameter; \<open>init\<close> panics when it fails, which is \<open>None\<close>.
\<close>

record terminal =
  tm_raw :: bool
  tm_alternate :: bool

record term_calls =
  tc_enable_raw :: "string + unit"
  tc_enter_alternate :: "string + unit"
  tc_disable_raw :: "string + unit"
  tc_leave_alternate :: "string + unit"
  tc_init :: "terminal \<Rightarrow> terminal option"
  tc_restore :: "terminal \<Rightarrow> terminal"

definition setup_terminal :: "term_calls \<Rightarrow> terminal \<Rightarrow> ((string + unit) \<times> terminal) option" where
  "setup_terminal tc t =
     (case tc_enable_raw tc of
        Inl e \<Rightarrow> Some (Inl e, t)
      | Inr _ \<Rightarrow>
          (let t1 = t\<lparr>tm_raw := True\<rparr> in
           case tc_enter_alternate tc of
             Inl e \<Rightarrow> Some (Inl e, t1)
           | Inr _ \<Rightarrow> map_option (\<lambda>t2. (Inr (), t2)) (tc_init tc (t1\<lparr>tm_alternate := True\<rparr>))))"

definition restore_terminal :: "term_calls \<Rightarrow> terminal \<Rightarrow> (string + unit) \<times> terminal" where
  "restore_terminal tc t =
     (case tc_disable_raw tc of
        Inl e \<Rightarrow> (Inl e, t)
      | Inr _ \<Rightarrow>
          (let t1 = t\<lparr>tm_raw := False\<rparr> in
           case tc_leave_alternate tc of
             Inl e \<Rightarrow> (Inl e, t1)
           | Inr _ \<Rightarrow> (Inr (), tc_restore tc (t1\<lparr>tm_alternate := False\<rparr>))))"

text \<open>
  \<open>run\<close> around its loop, whose result is the argument \<open>loop_result\<close>: the proxy and the subscription
  come first, an error of the set-up is returned, one of the restoration ignored.
\<close>

definition tui_run ::
  "term_calls \<Rightarrow> string + unit \<Rightarrow> string + unit \<Rightarrow> string + unit \<Rightarrow> terminal \<Rightarrow> ((string + unit) \<times> terminal) option" where
  "tui_run tc proxy subscribe loop_result t =
     (case proxy of
        Inl e \<Rightarrow> Some (Inl e, t)
      | Inr _ \<Rightarrow>
          (case subscribe of
             Inl e \<Rightarrow> Some (Inl e, t)
           | Inr _ \<Rightarrow>
               (case setup_terminal tc t of
                  None \<Rightarrow> None
                | Some (Inl e, t1) \<Rightarrow> Some (Inl e, t1)
                | Some (Inr _, t1) \<Rightarrow> Some (loop_result, snd (restore_terminal tc t1)))))"

text \<open>
  The thread that reads the keyboard: every event goes into the channel, in order, until reading
  fails or nobody receives any more.
\<close>

fun input_thread :: "(string + 'e) list \<Rightarrow> bool list \<Rightarrow> 'e list" where
  "input_thread (Inr ev # reads) (alive # later) = (if alive then ev # input_thread reads later else [])"
| "input_thread _ _ = []"

text \<open>What \<open>ratatui\<close> documents: \<open>init\<close> sets the two modes (again), \<open>restore\<close> undoes them.\<close>

definition ratatui_ok :: "term_calls \<Rightarrow> bool" where
  "ratatui_ok tc \<longleftrightarrow>
     (\<forall>t t'. tc_init tc t = Some t' \<longrightarrow> t' = \<lparr>tm_raw = True, tm_alternate = True\<rparr>) \<and>
     (\<forall>t. tc_restore tc t = \<lparr>tm_raw = False, tm_alternate = False\<rparr>)"

text \<open>
  The terminal is given back. Started in an ordinary terminal, the interface leaves it
  ordinary whenever it returns, whatever its loop returned, unless one of three calls failed: entering
  the alternate screen, which leaves raw mode on, or one of the two that undo the modes, of which
  the first to fail leaves all that was to be undone after it.
\<close>

lemma terminal_given_back:
  assumes "tui_run tc proxy subscribe loop_result \<lparr>tm_raw = False, tm_alternate = False\<rparr> = Some (r, t')"
    and "ratatui_ok tc" and "proxy = Inr ()" and "subscribe = Inr ()" and "tc_enable_raw tc = Inr ()"
  shows "t' =
    (if tc_enter_alternate tc \<noteq> Inr () then \<lparr>tm_raw = True, tm_alternate = False\<rparr>
     else if tc_disable_raw tc \<noteq> Inr () then \<lparr>tm_raw = True, tm_alternate = True\<rparr>
     else if tc_leave_alternate tc \<noteq> Inr () then \<lparr>tm_raw = False, tm_alternate = True\<rparr>
     else \<lparr>tm_raw = False, tm_alternate = False\<rparr>)"
proof -
  let ?on = "\<lparr>tm_raw = True, tm_alternate = True\<rparr>"
  have "tc_init tc ?on = None \<or> tc_init tc ?on = Some ?on"
    using assms(2) by (cases "tc_init tc ?on") (auto simp: ratatui_ok_def)
  moreover have "tc_restore tc u = \<lparr>tm_raw = False, tm_alternate = False\<rparr>" for u
    using assms(2) by (simp add: ratatui_ok_def)
  ultimately show ?thesis
    using assms(1,3-5)
    by (cases "tc_enter_alternate tc"; cases "tc_disable_raw tc"; cases "tc_leave_alternate tc")
      (auto simp: tui_run_def setup_terminal_def restore_terminal_def)
qed

lemma terminal_untouched:
  assumes "tui_run tc proxy subscribe loop_result t = Some (r, t')"
    and "proxy \<noteq> Inr () \<or> subscribe \<noteq> Inr () \<or> tc_enable_raw tc \<noteq> Inr ()"
  shows "t' = t"
  using assms by (auto simp: tui_run_def setup_terminal_def split: sum.splits)

lemma input_thread_prefix: "\<exists>rest. map Inr (input_thread reads alive) @ rest = reads"
proof (induction reads alive rule: input_thread.induct)
  case (1 ev reads alive later)
  then show ?case by (cases alive) simp_all
qed simp_all

end
