(* ===== verification/Human_Prompt.thy ===== *)
theory Human_Prompt
  imports Tui Daemon_Pairing
begin

text \<open>
  The human in the loop: the daemon and the terminal interface joined by D-Bus. The daemon's
  \<open>PairingRequested\<close> signals wait on the bus until the interface's \<open>select!\<close> takes them, the
  interface's calls are carried out by the daemon, and the human presses keys at what is on the
  screen at that moment (\<open>crates/cli/src/tui.rs\<close>, \<open>crates/daemon/src/dbus.rs\<close>, \<open>orchestrator.rs\<close>).
\<close>

section \<open>The two processes and the bus\<close>

record desk =
  dk_daemon :: daemon
  dk_app :: "app option"
  dk_signals :: "(string \<times> string \<times> string) list"

text \<open>
  What happens next: a task of the daemon's own takes a step, the next signal reaches the
  interface, or one of the interface's other branches wins. What a call answers to the
  interface is the bus's choice; what the daemon needs to carry a call out comes with the input.
\<close>

record call_env =
  ce_os :: route_lookup
  ce_random :: token_bytes
  ce_fates :: "fate list"
  ce_now :: instant

datatype desk_input =
    DaemonTask daemon_input
  | SignalArrives
  | Pressing key answers instant call_env
  | Refreshing "string + device_info list" "string + string \<times> string" instant call_env

datatype desk_output =
    Says daemon_output
  | Shown pending_confirmation
  | Pressed "pending_confirmation option" key

fun own_task :: "daemon_input \<Rightarrow> bool" where
  "own_task (StartPairing os random now) = False"
| "own_task (ConfirmPairing hex accept) = False"
| "own_task (UnpairCall hex fates) = False"
| "own_task _ = True"

fun bus_calls :: "call_env \<Rightarrow> ui_output \<Rightarrow> daemon_input list" where
  "bus_calls ce (CallConfirm hex accept) = [ConfirmPairing hex accept]"
| "bus_calls ce CallStartPairing = [StartPairing (ce_os ce) (ce_random ce) (ce_now ce)]"
| "bus_calls ce (CallUnpair hex) = [UnpairCall hex (ce_fates ce)]"
| "bus_calls ce (Prompts hex) = []"
| "bus_calls ce Quits = []"

definition signals_of :: "daemon_output list \<Rightarrow> (string \<times> string \<times> string) list" where
  "signals_of outs = List.map_filter (\<lambda>o'. case o' of PairingRequested h f n \<Rightarrow> Some (h, f, n) | _ \<Rightarrow> None) outs"

text \<open>The daemon takes inputs; what it signals goes on the bus.\<close>

definition daemon_acts ::
  "'u env \<Rightarrow> daemon_input list \<Rightarrow> desk \<Rightarrow> (desk_output list \<times> desk) option" where
  "daemon_acts env inputs s =
     (case run_daemon env (dk_daemon s) inputs of
        None \<Rightarrow> None
      | Some (outs, d') \<Rightarrow>
          Some (map Says outs, s\<lparr>dk_daemon := d', dk_signals := dk_signals s @ signals_of outs\<rparr>))"

text \<open>The interface takes an event, and the daemon its calls.\<close>

definition ui_acts ::
  "'u env \<Rightarrow> (string \<Rightarrow> string + string) \<Rightarrow> ui_event \<Rightarrow> call_env \<Rightarrow> desk \<Rightarrow> (desk_output list \<times> desk) option" where
  "ui_acts env draw ev ce s =
     (case ui_step draw (dk_app s) ev of
        (out, app') \<Rightarrow> daemon_acts env (concat (map (bus_calls ce) out)) (s\<lparr>dk_app := app'\<rparr>))"

definition on_screen :: "desk \<Rightarrow> pending_confirmation option" where
  "on_screen s = (case dk_app s of None \<Rightarrow> None | Some a \<Rightarrow> app_confirmation a)"

definition desk_step ::
  "'u env \<Rightarrow> (string \<Rightarrow> string + string) \<Rightarrow> desk \<Rightarrow> desk_input \<Rightarrow> (desk_output list \<times> desk) option" where
  "desk_step env draw s i =
     (case i of
        DaemonTask di \<Rightarrow> if own_task di then daemon_acts env [di] s else None
      | SignalArrives \<Rightarrow>
          (case (dk_signals s, dk_app s) of
             ((h, f, n) # rest, Some a) \<Rightarrow>
               Some ([Shown \<lparr>pc_device_id = h, pc_fingerprint = f, pc_name = n\<rparr>],
                 s\<lparr>dk_signals := rest, dk_app := snd (ui_step draw (dk_app s) (PairingSignal h f n))\<rparr>)
           | _ \<Rightarrow> Some ([], s))
      | Pressing k ans now ce \<Rightarrow>
          map_option (\<lambda>(outs, s'). (Pressed (on_screen s) k # outs, s')) (ui_acts env draw (KeyPress k ans now) ce s)
      | Refreshing listing answer now ce \<Rightarrow> ui_acts env draw (RefreshTick listing answer now) ce s)"

definition desk_start :: "daemon \<Rightarrow> device_info list \<Rightarrow> desk" where
  "desk_start d devs = \<lparr>dk_daemon = d, dk_app = Some (new_app devs), dk_signals = []\<rparr>"

section \<open>What the daemon says in such a run\<close>

definition said :: "desk_output list \<Rightarrow> daemon_output list" where
  "said outs = List.map_filter (\<lambda>o'. case o' of Says x \<Rightarrow> Some x | _ \<Rightarrow> None) outs"

lemma said_simps [simp]:
  "said [] = []" "said (Says x # outs) = x # said outs" "said (Shown c # outs) = said outs"
  "said (Pressed p k # outs) = said outs" "said (xs @ ys) = said xs @ said ys" "said (map Says ds) = ds"
  by (simp_all add: said_def List.map_filter_def comp_def)

lemma said_member: "x \<in> set (said outs) \<Longrightarrow> Says x \<in> set outs"
  by (auto simp: said_def List.map_filter_def split: desk_output.splits)

lemma daemon_actsE:
  assumes "daemon_acts env inputs s = Some (outs, s')"
  obtains xs where "run_daemon env (dk_daemon s) inputs = Some (xs, dk_daemon s')" "outs = map Says xs"
    "dk_signals s' = dk_signals s @ signals_of xs" "dk_app s' = dk_app s"
  using assms by (auto simp: daemon_acts_def split: option.splits)

lemma desk_taskE:
  assumes "desk_step env draw s (DaemonTask di) = Some (outs, s')"
  obtains xs where "own_task di" "run_daemon env (dk_daemon s) [di] = Some (xs, dk_daemon s')" "outs = map Says xs"
    "dk_signals s' = dk_signals s @ signals_of xs" "dk_app s' = dk_app s"
proof -
  have "own_task di" "daemon_acts env [di] s = Some (outs, s')"
    using assms by (simp_all add: desk_step_def split: if_splits)
  from this(2) that [OF this(1)] show thesis
    by (rule daemon_actsE)
qed

lemma ui_acts_daemon:
  assumes "ui_acts env draw ev ce s = Some (outs, s')"
  obtains calls xs where "run_daemon env (dk_daemon s) calls = Some (xs, dk_daemon s')" "outs = map Says xs"
    "dk_signals s' = dk_signals s @ signals_of xs" "dk_app s' = snd (ui_step draw (dk_app s) ev)"
    "calls = concat (map (bus_calls ce) (fst (ui_step draw (dk_app s) ev)))"
  using assms by (auto simp: ui_acts_def daemon_acts_def split: prod.splits option.splits)

lemma desk_step_daemon:
  assumes "desk_step env draw s i = Some (outs, s')"
  shows "\<exists>inputs. run_daemon env (dk_daemon s) inputs = Some (said outs, dk_daemon s')"
proof (cases i)
  case (DaemonTask di)
  with assms show ?thesis
    by (auto elim!: desk_taskE simp del: run_steps.simps)
next
  case SignalArrives
  then show ?thesis
    using assms by (intro exI [of _ "[]"]) (auto simp: desk_step_def split: list.splits option.splits)
next
  case (Pressing k ans now ce)
  then show ?thesis
    using assms by (auto simp: desk_step_def elim!: ui_acts_daemon)
next
  case (Refreshing listing answer now ce)
  then show ?thesis
    using assms by (auto simp: desk_step_def elim!: ui_acts_daemon)
qed

lemma desk_run_daemon:
  "run_steps (desk_step env draw) s is = Some (outs, s') \<Longrightarrow>
     \<exists>inputs. run_daemon env (dk_daemon s) inputs = Some (said outs, dk_daemon s')"
proof (induction "is" arbitrary: s outs)
  case Nil
  then show ?case by (intro exI [of _ "[]"]) simp
next
  case (Cons i "is")
  from Cons.prems obtain os1 s1 os2 where s: "desk_step env draw s i = Some (os1, s1)"
    "run_steps (desk_step env draw) s1 is = Some (os2, s')" "outs = os1 @ os2"
    by (rule run_steps_ConsE)
  obtain xs where "run_daemon env (dk_daemon s) xs = Some (said os1, dk_daemon s1)"
    using desk_step_daemon [OF s(1)] by blast
  moreover obtain ys where "run_daemon env (dk_daemon s1) ys = Some (said os2, dk_daemon s')"
    using Cons.IH [OF s(2)] by blast
  ultimately show ?case
    using s(3) by (intro exI [of _ "xs @ ys"]) (simp add: run_steps_append)
qed

section \<open>What is on the screen is true\<close>

text \<open>A question names a device by its id and by the fingerprint of that very id.\<close>

definition genuine :: "string \<Rightarrow> string \<Rightarrow> bool" where
  "genuine h f \<longleftrightarrow> (\<exists>j. device_id_ok j \<and> h = to_hex j \<and> f = short_fingerprint j)"

definition desk_ok :: "desk \<Rightarrow> bool" where
  "desk_ok s \<longleftrightarrow>
     daemon_inv (dk_daemon s) \<and> (\<forall>x \<in> set (dk_signals s). genuine (fst x) (fst (snd x))) \<and>
     (\<forall>c. on_screen s = Some c \<longrightarrow> genuine (pc_device_id c) (pc_fingerprint c))"

lemma handle_handshake_requests:
  "handle_handshake r i name tok now d = (out, d') \<Longrightarrow> device_id_ok i \<Longrightarrow> PairingRequested h f n \<in> set out \<Longrightarrow> genuine h f"
  by (auto simp: handle_handshake_def genuine_def split: if_splits option.splits prod.splits bool.splits
      dest!: mark_connected_frame)

lemma orchestrator_turn_requests:
  assumes "orchestrator_turn now d = (out, d')" and "daemon_inv d" and "PairingRequested h f n \<in> set out"
  shows "genuine h f"
proof -
  obtain r ev q where q: "dm_queue d = LSession r ev # q" "handle_session_event r ev now (d\<lparr>dm_queue := q\<rparr>) = (out, d')"
    using assms(1,3) by (auto simp: orchestrator_turn_def split: if_splits list.splits listener_event.splits)
  have "event_ok (LSession r ev)"
    using daemon_invD(3) [OF assms(2)] q(1) by simp
  then show ?thesis
    using q(2) assms(3) handle_handshake_requests
    by (cases ev) (fastforce simp: handle_session_event_def split: option.splits dest!: handle_received_frame handle_closed_frame)+
qed

lemma typed_step_requests:
  assumes "typed_step env d i = Some (out, d')" and "daemon_inv d" and "PairingRequested h f n \<in> set out"
  shows "genuine h f"
  using assms(1)
proof (cases rule: typed_stepE)
  case (orchestrator now)
  then show ?thesis using orchestrator_turn_requests assms(2,3) by blast
next
  case (confirmation now fates)
  from confirmation(3) show ?thesis
  proof (cases rule: confirmation_turnE)
    case (accepted c)
    then show ?thesis
      using assms(3)
      by (auto simp: finish_pairing_def Let_def split: prod.splits if_splits dest!: persist_state_frame mark_connected_frame)
  qed (use assms(3) in simp_all)
next
  case (start os random now)
  then show ?thesis using assms(3) by (auto simp: start_pairing_def Let_def split: option.splits)
next
  case (answer hex accept)
  then show ?thesis using assms(3) by (auto simp: confirm_pairing_def Let_def split: option.splits if_splits)
next
  case (revoke hex fates)
  then show ?thesis
    using assms(3)
    by (auto simp: dbus_unpair_def Let_def split: option.splits prod.splits if_splits dest!: persist_state_frame)
next
  case (change c r)
  then show ?thesis using assms(3) by (auto dest!: watch_frame)
qed (use assms(3) in simp_all)

lemma signals_member: "(h, f, n) \<in> set (signals_of outs) \<longleftrightarrow> PairingRequested h f n \<in> set outs"
proof (induction outs)
  case Nil
  then show ?case by (simp add: signals_of_def List.map_filter_def)
next
  case (Cons x outs)
  then show ?case
    by (cases x) (auto simp: signals_of_def map_filter_simps)
qed

lemma run_requests:
  "run_daemon env d inputs = Some (outs, d') \<Longrightarrow> daemon_inv d \<Longrightarrow> PairingRequested h f n \<in> set outs \<Longrightarrow> genuine h f"
proof (induction inputs arbitrary: d outs)
  case Nil
  then show ?case by simp
next
  case (Cons i inputs)
  from Cons.prems(1) obtain os1 d1 os2 where s: "typed_step env d i = Some (os1, d1)"
    "run_daemon env d1 inputs = Some (os2, d')" "outs = os1 @ os2"
    by (rule run_steps_ConsE)
  have "PairingRequested h f n \<in> set os1 \<or> PairingRequested h f n \<in> set os2"
    using Cons.prems(3) s(3) by simp
  then show ?case
    using typed_step_requests [OF s(1) Cons.prems(2)] Cons.IH [OF s(2)] pairing.step_inv [OF Cons.prems(2) s(1)] by blast
qed

lemma typed_step_answers:
  assumes "typed_step env d inp = Some (out, d')" and "Answered i b \<in> set out"
  shows "\<exists>hex. inp = ConfirmPairing hex b \<and> from_hex hex = Some i"
  using assms(1)
proof (cases rule: typed_stepE)
  case (orchestrator now)
  then show ?thesis
    using assms(2)
    by (auto simp: orchestrator_turn_def handle_session_event_def handle_handshake_def split: if_splits list.splits
        listener_event.splits session_event.splits option.splits prod.splits bool.splits
        dest!: handle_received_frame handle_closed_frame mark_connected_frame)
next
  case (confirmation now fates)
  from confirmation(3) show ?thesis
  proof (cases rule: confirmation_turnE)
    case (accepted c)
    then show ?thesis
      using assms(2)
      by (auto simp: finish_pairing_def Let_def split: prod.splits if_splits dest!: persist_state_frame mark_connected_frame)
  qed (use assms(2) in simp_all)
next
  case (start os random now)
  then show ?thesis using assms(2) by (auto simp: start_pairing_def Let_def split: option.splits)
next
  case (answer hex accept)
  then show ?thesis using assms(2) by (auto simp: confirm_pairing_def Let_def split: option.splits if_splits)
next
  case (revoke hex fates)
  then show ?thesis
    using assms(2)
    by (auto simp: dbus_unpair_def Let_def split: option.splits prod.splits if_splits dest!: persist_state_frame)
next
  case (change c r)
  then show ?thesis using assms(2) by (auto dest!: watch_frame)
qed (use assms(2) in simp_all)

lemma run_answers:
  "run_daemon env d inputs = Some (outs, d') \<Longrightarrow> Answered i b \<in> set outs \<Longrightarrow>
     \<exists>hex. ConfirmPairing hex b \<in> set inputs \<and> from_hex hex = Some i"
proof (induction inputs arbitrary: d outs)
  case Nil
  then show ?case by simp
next
  case (Cons inp inputs)
  from Cons.prems(1) obtain os1 d1 os2 where s: "typed_step env d inp = Some (os1, d1)"
    "run_daemon env d1 inputs = Some (os2, d')" "outs = os1 @ os2"
    by (rule run_steps_ConsE)
  then show ?case
    using typed_step_answers [OF s(1), of i b] Cons.IH [OF s(2)] Cons.prems(2) by auto
qed

section \<open>Answers come from the screen\<close>

definition yes_key :: "key \<Rightarrow> bool" where
  "yes_key k \<longleftrightarrow> k = KeyChar (CHR ''y'') \<or> k = KeyChar (CHR ''Y'')"

lemma press_confirms:
  assumes "CallConfirm hex b \<in> set (fst (ui_step draw app (KeyPress k ans now)))"
  shows "\<exists>a c. app = Some a \<and> app_confirmation a = Some c \<and> hex = pc_device_id c \<and> b = yes_key k"
  using assms
  by (auto simp: ui_step_def handle_key_def handle_confirmation_key_def yes_key_def
      split: option.splits prod.splits bool.splits if_splits)

lemma handle_key_screen:
  assumes "handle_key draw ans k now a = (goes_on, out, a')" and "app_confirmation a' = Some c"
  shows "app_confirmation a = Some c"
proof (cases "app_confirmation a")
  case None
  then show ?thesis
    using assms by (cases "selected_device a") (auto simp: handle_key_def split: if_splits sum.splits)
next
  case (Some c')
  then show ?thesis
    using assms by (auto simp: handle_key_def handle_confirmation_key_def split: if_splits)
qed

lemma press_screen:
  assumes "snd (ui_step draw app (KeyPress k ans now)) = Some a'" and "app_confirmation a' = Some c"
  shows "\<exists>a. app = Some a \<and> app_confirmation a = Some c"
proof (cases app)
  case None
  then show ?thesis using assms by (simp add: ui_step_def)
next
  case (Some a)
  obtain goes_on out a1 where "handle_key draw ans k now a = (goes_on, out, a1)"
    by (metis surj_pair)
  with Some assms handle_key_screen show ?thesis
    by (cases goes_on) (auto simp: ui_step_def)
qed

lemma refresh_silent: "CallConfirm hex b \<notin> set (fst (ui_step draw app (RefreshTick listing answer now)))"
  by (auto simp: ui_step_def refresh_def Let_def split: option.splits prod.splits if_splits)

lemma refresh_screen:
  assumes "snd (ui_step draw app (RefreshTick listing answer now)) = Some a'" and "app_confirmation a' = Some c"
  shows "\<exists>a. app = Some a \<and> app_confirmation a = Some c"
proof (cases app)
  case None
  then show ?thesis using assms by (simp add: ui_step_def)
next
  case (Some a)
  obtain out a1 where r: "refresh draw listing answer now a = (out, a1)"
    by (metis surj_pair)
  then have "a' = a1"
    using assms(1) Some by (simp add: ui_step_def)
  moreover have "app_confirmation a1 = app_confirmation a"
    using r by (auto simp: refresh_def Let_def split: if_splits sum.splits)
  ultimately show ?thesis
    using assms(2) Some by simp
qed

lemma on_screen_Some: "on_screen s = Some c \<longleftrightarrow> (\<exists>a. dk_app s = Some a \<and> app_confirmation a = Some c)"
  by (simp add: on_screen_def split: option.split)

lemma daemon_run_ok:
  assumes "run_daemon env (dk_daemon s) inputs = Some (xs, dk_daemon s')" and "desk_ok s"
    and "dk_signals s' = dk_signals s @ signals_of xs"
    and "\<forall>c. on_screen s' = Some c \<longrightarrow> on_screen s = Some c"
  shows "desk_ok s'"
proof -
  have inv: "daemon_inv (dk_daemon s)"
    using assms(2) by (simp add: desk_ok_def)
  have "daemon_inv (dk_daemon s')"
    using pairing.run_inv [OF inv assms(1)] .
  moreover have "\<forall>x \<in> set (signals_of xs). genuine (fst x) (fst (snd x))"
    using run_requests [OF assms(1) inv] by (auto simp: signals_member)
  ultimately show ?thesis
    using assms(2-4) by (auto simp: desk_ok_def)
qed

lemma desk_step_ok:
  assumes "desk_step env draw s i = Some (outs, s')" and "desk_ok s"
  shows "desk_ok s'"
proof (cases i)
  case (DaemonTask di)
  from assms(1) [unfolded this] obtain xs where "run_daemon env (dk_daemon s) [di] = Some (xs, dk_daemon s')"
    "dk_signals s' = dk_signals s @ signals_of xs" "dk_app s' = dk_app s"
    by (rule desk_taskE)
  from daemon_run_ok [OF this(1) assms(2) this(2)] this(3) show ?thesis
    by (simp add: on_screen_def)
next
  case SignalArrives
  show ?thesis
  proof (cases "dk_signals s = [] \<or> dk_app s = None")
    case True
    then have "s' = s"
      using assms(1) SignalArrives by (auto simp: desk_step_def split: list.splits option.splits)
    with assms(2) show ?thesis by simp
  next
    case False
    then obtain h f n rest a where sig: "dk_signals s = (h, f, n) # rest" "dk_app s = Some a"
      by (cases "dk_signals s") auto
    have "s' = s\<lparr>dk_signals := rest, dk_app := Some (a\<lparr>app_confirmation :=
        Some \<lparr>pc_device_id = h, pc_fingerprint = f, pc_name = n\<rparr>\<rparr>)\<rparr>"
      using assms(1) SignalArrives sig by (simp add: desk_step_def ui_step_def)
    with assms(2) sig(1) show ?thesis
      by (simp add: desk_ok_def on_screen_def)
  qed
next
  case (Pressing k ans now ce)
  then obtain outs1 where u: "ui_acts env draw (KeyPress k ans now) ce s = Some (outs1, s')"
    using assms(1) by (auto simp: desk_step_def)
  from u obtain calls xs where x: "run_daemon env (dk_daemon s) calls = Some (xs, dk_daemon s')"
    "dk_signals s' = dk_signals s @ signals_of xs" "dk_app s' = snd (ui_step draw (dk_app s) (KeyPress k ans now))"
    by (rule ui_acts_daemon)
  have "\<forall>c. on_screen s' = Some c \<longrightarrow> on_screen s = Some c"
    unfolding on_screen_Some x(3) using press_screen by blast
  then show ?thesis
    by (rule daemon_run_ok [OF x(1) assms(2) x(2)])
next
  case (Refreshing listing answer now ce)
  then have "ui_acts env draw (RefreshTick listing answer now) ce s = Some (outs, s')"
    using assms(1) by (simp add: desk_step_def)
  then obtain calls xs where x: "run_daemon env (dk_daemon s) calls = Some (xs, dk_daemon s')"
    "dk_signals s' = dk_signals s @ signals_of xs" "dk_app s' = snd (ui_step draw (dk_app s) (RefreshTick listing answer now))"
    by (rule ui_acts_daemon)
  have "\<forall>c. on_screen s' = Some c \<longrightarrow> on_screen s = Some c"
    unfolding on_screen_Some x(3) using refresh_screen by blast
  then show ?thesis
    by (rule daemon_run_ok [OF x(1) assms(2) x(2)])
qed

text \<open>Somebody said yes to a question about this device, reading its fingerprint.\<close>

definition accepted_on_screen :: "desk_output list \<Rightarrow> device_id \<Rightarrow> bool" where
  "accepted_on_screen outs i \<longleftrightarrow>
     (\<exists>c k. Pressed (Some c) k \<in> set outs \<and> yes_key k \<and>
        pc_device_id c = to_hex i \<and> pc_fingerprint c = short_fingerprint i)"

lemma ui_acts_answers:
  assumes "ui_acts env draw ev ce s = Some (outs, s')" and "Says (Answered i b) \<in> set outs"
  shows "\<exists>hex. CallConfirm hex b \<in> set (fst (ui_step draw (dk_app s) ev)) \<and> from_hex hex = Some i"
proof -
  from assms(1) obtain calls xs where x: "run_daemon env (dk_daemon s) calls = Some (xs, dk_daemon s')"
    "outs = map Says xs" "calls = concat (map (bus_calls ce) (fst (ui_step draw (dk_app s) ev)))"
    by (rule ui_acts_daemon)
  have "Answered i b \<in> set xs"
    using assms(2) x(2) by auto
  with run_answers [OF x(1)] obtain hex where hex: "ConfirmPairing hex b \<in> set calls" "from_hex hex = Some i"
    by blast
  moreover from hex(1) obtain o' where "o' \<in> set (fst (ui_step draw (dk_app s) ev))" "ConfirmPairing hex b \<in> set (bus_calls ce o')"
    unfolding x(3) by auto
  ultimately show ?thesis
    by (cases o') auto
qed

lemma desk_step_answers:
  assumes "desk_step env draw s inp = Some (outs, s')" and "desk_ok s" and "Says (Answered i True) \<in> set outs"
  obtains c k xs where "outs = Pressed (Some c) k # map Says xs" "yes_key k" "pc_device_id c = to_hex i"
    "pc_fingerprint c = short_fingerprint i"
proof (cases inp)
  case (DaemonTask di)
  from assms(1) [unfolded this] obtain xs where x: "own_task di" "run_daemon env (dk_daemon s) [di] = Some (xs, dk_daemon s')"
    "outs = map Says xs"
    by (rule desk_taskE)
  have "Answered i True \<in> set xs"
    using assms(3) x(3) by auto
  from run_answers [OF x(2) this] x(1) show thesis
    by auto
next
  case SignalArrives
  then show thesis
    using assms(1,3) by (auto simp: desk_step_def split: list.splits option.splits)
next
  case (Pressing k ans now ce)
  then obtain outs1 where u: "ui_acts env draw (KeyPress k ans now) ce s = Some (outs1, s')" "outs = Pressed (on_screen s) k # outs1"
    using assms(1) by (auto simp: desk_step_def)
  then obtain hex where hex: "CallConfirm hex True \<in> set (fst (ui_step draw (dk_app s) (KeyPress k ans now)))" "from_hex hex = Some i"
    using ui_acts_answers [OF u(1), of i True] assms(3) by auto
  from press_confirms [OF hex(1)] obtain c where c: "on_screen s = Some c" "hex = pc_device_id c" "yes_key k"
    by (auto simp: on_screen_Some)
  then have "genuine (pc_device_id c) (pc_fingerprint c)"
    using assms(2) by (simp add: desk_ok_def)
  then obtain j where j: "device_id_ok j" "pc_device_id c = to_hex j" "pc_fingerprint c = short_fingerprint j"
    by (auto simp: genuine_def)
  then have "j = i"
    using hex(2) c(2) from_hex_to_hex [of j] by (simp add: device_id_ok_def)
  moreover obtain xs where "outs1 = map Says xs"
    using u(1) by (auto elim: ui_acts_daemon)
  ultimately show thesis
    using that [of c k xs] u(2) c j by simp
next
  case (Refreshing listing answer now ce)
  then show thesis
    using ui_acts_answers [of env draw "RefreshTick listing answer now" ce s outs s' i True] refresh_silent assms(1,3)
    by (simp add: desk_step_def)
qed

lemma accepted_later: "accepted_on_screen pre i \<Longrightarrow> accepted_on_screen (xs @ pre) i"
  by (auto simp: accepted_on_screen_def)

lemma run_answers_on_screen:
  "run_steps (desk_step env draw) s is = Some (outs, s') \<Longrightarrow> desk_ok s \<Longrightarrow> outs = pre @ Says (Answered i True) # post \<Longrightarrow>
     accepted_on_screen pre i"
proof (induction "is" arbitrary: s outs pre)
  case Nil
  then show ?case by simp
next
  case (Cons inp "is")
  from Cons.prems(1) obtain os1 s1 os2 where s: "desk_step env draw s inp = Some (os1, s1)"
    "run_steps (desk_step env draw) s1 is = Some (os2, s')" "outs = os1 @ os2"
    by (rule run_steps_ConsE)
  note next_ok = desk_step_ok [OF s(1) Cons.prems(2)]
  from s(3) Cons.prems(3) have "os1 @ os2 = pre @ Says (Answered i True) # post"
    by simp
  then consider (here) us where "os1 = pre @ us" "us @ os2 = Says (Answered i True) # post"
    | (later) us where "pre = os1 @ us" "os2 = us @ Says (Answered i True) # post"
    by (auto simp: append_eq_append_conv2)
  then show ?case
  proof cases
    case later
    then show ?thesis
      using Cons.IH [OF s(2) next_ok later(2)] by (simp add: accepted_later)
  next
    case here
    show ?thesis
    proof (cases us)
      case Nil
      then show ?thesis
        using Cons.IH [OF s(2) next_ok, of "[]"] here accepted_later [of "[]" i os1] by simp
    next
      case (Cons x us')
      then have "Says (Answered i True) \<in> set os1" and split: "os1 = pre @ Says (Answered i True) # us'"
        using here by auto
      from desk_step_answers [OF s(1) Cons.prems(2) this(1)] obtain c k xs where
        p: "os1 = Pressed (Some c) k # map Says xs" "yes_key k" "pc_device_id c = to_hex i" "pc_fingerprint c = short_fingerprint i" .
      with split have "Pressed (Some c) k \<in> set pre"
        by (cases pre) auto
      with p(2-4) show ?thesis
        unfolding accepted_on_screen_def by blast
    qed
  qed
qed

lemma said_split:
  "outs = pre @ Says x # post \<Longrightarrow> said outs = said pre @ x # said post"
  by simp

lemma human_accepted_answered: "human_accepted outs i \<Longrightarrow> Answered i True \<in> set outs"
  by (auto simp: human_accepted_def)

text \<open>
  C2. What the human saw is what gets pinned. Take the daemon from start-up and the terminal
  interface as its only client, with any interleaving of the daemon's tasks, the delivery of its
  signals, key presses and refreshes, and any network traffic. Before a device is pinned it
  presented a live token, and a human pressed \<open>y\<close> while the interface held open, and so drew, a
  question about that very device's id with that very device's fingerprint (the prompt shows the
  name and the fingerprint; the id is in the answer it sends). No stale, replaced or forged
  question, and no other key, leads to a pin.
\<close>

theorem pinned_only_as_shown:
  assumes "canonical (load from_str fs (join dir ''devices.json''))"
    and "run_steps (desk_step env draw) (desk_start (boot from_str ident name addr dir backend fs) devs) inputs = Some (outs, s')"
    and "outs = pre @ Says (DevicePinned i n) # post"
  shows "accepted_on_screen pre i \<and> token_presented (said pre) i"
proof -
  let ?s = "desk_start (boot from_str ident name addr dir backend fs) devs"
  have ok: "desk_ok ?s"
    using boot_inv [OF assms(1)] by (simp add: desk_ok_def desk_start_def on_screen_def new_app_def)
  obtain dins where run: "run_daemon env (boot from_str ident name addr dir backend fs) dins = Some (said outs, dk_daemon s')"
    using desk_run_daemon [OF assms(2)] by (auto simp: desk_start_def)
  have acc: "human_accepted (said pre) i"
    using pin_accepted [OF assms(1) run [unfolded said_split [OF assms(3)]]] .
  then have "Says (Answered i True) \<in> set pre"
    using human_accepted_answered said_member by blast
  then obtain xs ys where pre: "pre = xs @ Says (Answered i True) # ys"
    by (meson split_list)
  then have "outs = xs @ Says (Answered i True) # (ys @ Says (DevicePinned i n) # post)"
    using assms(3) by simp
  from run_answers_on_screen [OF assms(2) ok this] have "accepted_on_screen pre i"
    using pre by (auto simp: accepted_on_screen_def)
  moreover have "token_presented (said pre) i"
    using acc token_presented_append by (auto simp: human_accepted_def)
  ultimately show ?thesis by simp
qed

text \<open>The pairing of the phone, as its human lives it.\<close>

definition question :: pending_confirmation where
  "question = \<lparr>pc_device_id = to_hex phone, pc_fingerprint = short_fingerprint phone, pc_name = ''pixel''\<rparr>"

definition demo_call :: call_env where
  "demo_call = \<lparr>ce_os = demo_routes, ce_random = [5], ce_fates = [], ce_now = 0\<rparr>"

definition demo_answers :: answers where
  "demo_answers = \<lparr>ans_start_pairing = Inl ''slow'', ans_unpair = Inr ()\<rparr>"

definition desk_inputs :: "desk_input list" where
  "desk_inputs =
     [Pressing (KeyChar (CHR ''p'')) demo_answers 0 demo_call,
      DaemonTask (NetEvent (LConnected phone_addr 1)),
      DaemonTask (NetEvent (LSession phone_addr (EvPeerHandshake phone ''pixel'' [] (Some [5])))),
      DaemonTask (OrchestratorTurn 1), DaemonTask (OrchestratorTurn 2), SignalArrives,
      Pressing (KeyChar (CHR ''y'')) demo_answers 3 demo_call, DaemonTask (ConfirmationTurn 3 [])]"

definition until_pinned :: "desk_output list" where
  "until_pinned =
     [Pressed None (KeyChar (CHR ''p'')), Says (TokenIssued [5] 0), Says (QrReply demo_uri (short_fingerprint (replicate 32 0))),
      Says (TokenRedeemed phone [5] 2), Says (PairingRequested (to_hex phone) (short_fingerprint phone) ''pixel''),
      Shown question, Pressed (Some question) (KeyChar (CHR ''y'')), Says (Answered phone True)]"

lemma desk_run:
  "\<exists>s'. run_steps (desk_step demo_env (\<lambda>_. Inl [])) (desk_start demo_daemon []) desk_inputs =
     Some (until_pinned @ Says (DevicePinned phone ''pixel'') #
       [Says (StateSaved False), Says (ConnectedChanged (device_path phone) True)], s')"
  unfolding desk_inputs_def until_pinned_def
  by (simp add: desk_start_def desk_step_def ui_acts_def daemon_acts_def ui_step_def handle_key_def
      handle_confirmation_key_def on_screen_def new_app_def set_status_def start_display_def demo_answers_def
      demo_call_def question_def signals_of_def map_filter_simps demo_boot run_defs demo_steps demo_env_def from_secs_def)

theorem pinned_only_as_shown_witness:
  "accepted_on_screen until_pinned phone \<and> token_presented (said until_pinned) phone"
proof -
  obtain s' where "run_steps (desk_step demo_env (\<lambda>_. Inl [])) (desk_start demo_daemon []) desk_inputs =
     Some (until_pinned @ Says (DevicePinned phone ''pixel'') #
       [Says (StateSaved False), Says (ConnectedChanged (device_path phone) True)], s')"
    using desk_run by blast
  from pinned_only_as_shown [OF canonical_demo this [unfolded demo_daemon_def] refl] show ?thesis .
qed

end
