(* ===== verification/Spec2Isabelle.thy ===== *)
theory Spec2Isabelle
  imports Backoff Connection Qr_Uri Framing Session Session_Handle Link_Delivery Listener Reconnect Identity Endpoint Daemon_State Ffi_State
    Config Net_Addrs Clip_Sync Daemon_Pairing Daemon_Objects Daemon_Tables Daemon_Recipients Daemon_Admission Startup Daemon_Restart Daemon_Clips
    Ffi_Core Clip_Journey Cli Cli_Verbs Tui Tui_Draw Tui_Terminal Human_Prompt
begin

text \<open>
  PenguinSync pairs a Linux desktop with Android phones and keeps their clipboards in step. This
  development models its Rust code (\<open>src/crates\<close>) and proves what makes it correct.

  \<^bold>\<open>The program and its parts.\<close> The phone scans a code from the desktop's screen and dials
  the desktop over QUIC. Both sides run the same \<open>protocol\<close> crate (messages, the connection
  machine, pairing tokens) under the same \<open>net\<close> crate (TLS with pinned keys, framing, sessions).
  The desktop's \<open>daemon\<close> accepts connections, asks a human over D-Bus before it pins a new phone,
  keeps the pinned devices in a file and relays clipboards. The \<open>cli\<close> (a terminal interface and
  a few verbs) talks to the daemon over D-Bus. The \<open>ffi\<close> crate is the phone's side.

  \<^bold>\<open>Theories and sources.\<close> Definitions carry the names of the source where they can; a record
  is a struct, a datatype an enum, each handler or loop body one function.

  \<^item> Common ground: \<open>Prelude\<close> (machine integers, runs of a step function, the locales
    \<open>invariant_machine\<close> and \<open>refining_machine\<close>), \<open>Rust_Time\<close>, \<open>Rust_Text\<close>, \<open>Rust_Trim\<close>, \<open>Rust_Net\<close>,
    \<open>Rust_Fs\<close> (the parts of Rust's standard library the sources use), \<open>Device_Set\<close> (the contracts
    of everything that remembers devices), \<open>Device_List\<close> and \<open>Json_File\<close> (what the two state files
    share).
  \<^item> \<open>protocol\<close>: \<open>Message\<close> (\<open>message.rs\<close>), \<open>Clip\<close> (\<open>clipboard.rs\<close>), \<open>Backoff\<close> (\<open>backoff.rs\<close>),
    \<open>Pairing_Token\<close> and \<open>Qr_Uri\<close> (\<open>pairing.rs\<close>), \<open>Connection\<close> (\<open>connection.rs\<close>).
  \<^item> \<open>net\<close>: \<open>Framing\<close>, \<open>Session\<close>, \<open>Listener\<close>, \<open>Reconnect\<close>, \<open>Identity\<close>, \<open>Endpoint\<close> (the files of the
    same names), \<open>Trust\<close> and \<open>Verifier\<close> (\<open>tls.rs\<close>: the store, and the verifier that \<open>rustls\<close> calls),
    \<open>Session_Handle\<close> (\<open>session.rs\<close> as its users see it: the session and its handles, with the two
    channels between them and the driving task). \<open>Session_Link\<close> puts
    two sessions and the connection between them together, and \<open>Link_Delivery\<close> holds what is true
    of every reachable state of such a link.
  \<^item> \<open>daemon\<close>: \<open>Daemon_State\<close> (\<open>state.rs\<close>), \<open>Config\<close>, \<open>Net_Addrs\<close>, \<open>Shared\<close>, \<open>Dbus\<close>, \<open>Orchestrator\<close> (the
    files of the same names), \<open>Clip_Sync\<close> and \<open>Clip_Relay\<close> (\<open>clipboard.rs\<close> and the trait of
    \<open>net/clipboard.rs\<close>), \<open>Daemon\<close> and \<open>Startup\<close> (\<open>main.rs\<close>: the state at start, the interleaving of
    the tasks, and start-up itself). What holds of every run of the daemon is in \<open>Daemon_Pairing\<close>,
    \<open>Daemon_Objects\<close>, \<open>Daemon_Tables\<close>, \<open>Daemon_Restart\<close> and \<open>Daemon_Clips\<close>; \<open>Daemon_Network\<close> and
    \<open>Daemon_Log\<close> read the tables, the recipients and the \<open>Connected\<close> properties off the events handled,
    in whatever order they came; \<open>Daemon_Recipients\<close> adds what holds behind a listener and real
    sessions if connections from one address do not overlap; \<open>Daemon_Admission\<close> is the daemon
    behind its TLS.
  \<^item> \<open>ffi\<close>: \<open>Ffi_State\<close> (\<open>state.rs\<close>) and \<open>Ffi_Core\<close> (\<open>core.rs\<close>). \<open>Clip_Journey\<close> follows a copy through
    the desktop's clipboard, the daemon, a link and the phone's core, in both directions.
  \<^item> \<open>cli\<close>: \<open>Cli\<close> (the device list of \<open>dbus_client.rs\<close>, \<open>qr.rs\<close>), \<open>Cli_Verbs\<close> (\<open>main.rs\<close>), \<open>Tui\<close>,
    \<open>Tui_Draw\<close> and \<open>Tui_Terminal\<close> (\<open>tui.rs\<close>: keys and refreshes, the frame, taking over the terminal).
    \<open>Human_Prompt\<close> joins the interface and the daemon over D-Bus, with the human at the keyboard.

  \<^bold>\<open>State and steps.\<close> The daemon's state is the record \<open>daemon\<close>: the source's \<open>Shared\<close>, the objects
  on the bus, the disk, the queue of listener events and the question a human is being asked. Its
  tasks run concurrently; between two waits that can last (for the next event, for the human, for
  the clipboard to be read) a handler holds its locks briefly and is one atomic step, and a run
  interleaves steps of all tasks in any order. The environment's choices (which event comes,
  what a call answers, at what time, whether a write fails or the process dies in it) are inputs
  of the steps, so every theorem about a run is about all of them. That a handler is one step is a
  limit of the model: between the awaits of one handler (\<open>finish_pairing\<close>, \<open>dbus_unpair\<close>, a received
  clip) the code lets other tasks run. The link's steps assume that no read is abandoned in the
  middle of a frame; \<open>abandoned_read_desynchronizes\<close> shows what happens otherwise.

  \<^bold>\<open>What is shown.\<close> The connection machine, the session, the daemon's pairing protocol and the
  terminal interface are each shown to refine an abstract machine (\<open>connection_refines_spec\<close>,
  \<open>session_lifecycle\<close>, the interpretation \<open>pairing\<close>, the interpretation \<open>ui\<close>), from which the
  security properties follow: nobody is pinned without a token and a human, a token works once,
  unpairing takes effect at once, a question has the keyboard. The trust store and the state
  file are shown to be one set of devices, on disk, in memory and on the bus, through crashes and
  restarts; a device that clips are sent to is shown as connected, and the one exception to the
  converse is pinned down. Messages, ids, codes and files round-trip, and what a code that is not
  one of ours decodes to is characterised exactly. A link of two sessions is a step relation
  (\<open>link_step\<close>: a turn of either side, or the arrival of some bytes) whose invariant says which
  messages each side has read and which are on their way; from it, clips are reported in the
  order they were sent, and a session is closed only by the loss of the connection, an unanswered
  ping or a failed write of its own, also when writes fail half-way (\<open>link_honest\<close>). What a link
  can still deliver, and that the keepalive spares a link at rest, is shown for connections that
  hold (\<open>link_ok\<close>: writes succeed), which is an assumption and not something the code ensures.

  Several properties are about parts that run together. The daemon's tables of connections are a
  function of the events it has handled (\<open>tables_follow_events\<close>), its trust store one of what it
  has announced (\<open>trust_store_is_history\<close>). Nothing is assumed of the order of those events: every
  recipient of clips goes back to an introduction of that device on that connection with no close
  of the device handled since (\<open>clips_go_to_live_connections\<close>). From the second, TLS admits nobody
  uninvited (\<open>only_invited_peers_get_in\<close>). With the terminal interface as the daemon's client, a pin
  needs a \<open>y\<close> pressed at an open question about that very device (\<open>pinned_only_as_shown\<close>).

  Liveness is shown as such: whatever is under way on a link can still be delivered, a copy on one
  device reaches the other, silence is detected within a bound, the dialer never gives up and
  keeps its delays, the wait for a human ends at the answer or the deadline, a shown code works, and pairing works from end to end (below). Some lemmas
  show what the code does where a comment promises otherwise: a token is spent at the first
  attempt, a read abandoned by \<open>select!\<close> desynchronizes a stream, a device unpaired while
  connected goes on receiving, an old connection's close disconnects the new one, a redial from
  the same socket can leave a device shown as connected and unreachable, an id in a handshake is
  believed, cancelling a pairing keeps its session, a long name of the peer pushes the fingerprint
  out of the prompt.

  \<^bold>\<open>Bounds and fuel.\<close> No definition takes fuel; loops over lists are structural, loops that wait
  for the environment are runs over the list of what it does. Integers are words where the source
  computes with them (versions, ports, nonces, attempts, lengths), and instants and durations
  natural numbers of nanoseconds; where a bound matters a theorem says so.

  \<^bold>\<open>Third-party code\<close> is a parameter: \<open>postcard\<close>, \<open>url\<close>, \<open>serde_json\<close>, \<open>toml\<close>, \<open>blake3\<close>, \<open>sha2\<close>,
  \<open>rcgen\<close>, \<open>webpki\<close>, \<open>rustls\<close>, \<open>quinn\<close>, \<open>zbus\<close>, \<open>qrcode\<close>, the operating system. What a property needs
  of one is a named hypothesis (\<open>codec_ok\<close>, \<open>url_ok\<close>, \<open>json_ok\<close>, \<open>pem_ok\<close>, \<open>signatures_sound\<close>)
  that states its documented behaviour, and the property's witness uses an instance that satisfies it.

  \<^bold>\<open>Not modelled.\<close> Logging, signal handling and argument parsing; how \<open>ratatui\<close> lays out, wraps and
  clips (only when it need not, \<open>uncut\<close>); the transport inside QUIC and D-Bus; the accessors that only hand a field to a library
  (\<open>cert_der\<close>, \<open>key_der\<close>, \<open>local_addr\<close>, \<open>remote_addr\<close>); the UniFFI scaffolding; and what is not Rust (the
  Android app, the GNOME Shell and Nautilus extensions, packaging). What else of the Rust files no
  definition stands for is their tests, imports, module lists and attributes.
\<close>

section \<open>Pairing, from the code on the screen to the pin\<close>

lemma unhindered_save: "\<exists>r fs'. save umode to_vec st p [] fs = (Finished r, fs')"
  by (auto simp: save_def save_json_def perform_all_completes split: sum.split option.split)

lemma shown_code_starts_dialer:
  assumes "decode_qr_uri url uri = Inr p" and "qr_version p = protocol_version" and "qr_addrs p = a # as"
  shows "core_pair url uri (Inr ()) c =
    (Inr \<lparr>pt_addr = a, pt_local = \<lparr>li_device_id = co_device_id c, li_name = co_device_name c, li_capabilities = []\<rparr>,
       pt_keepalive = from_secs 20, pt_dialer = dialer_start (Some (qr_token p)),
       pt_forwarder = \<lparr>fw_device = qr_device_id p, fw_name = qr_name p, fw_persisted = False\<rparr>\<rparr>,
     c\<lparr>co_trust := pin (co_trust c) (qr_device_id p)\<rparr>)"
  using assms by (simp add: core_pair_def)

lemma phone_introduced:
  "run_actions io (fst (on_received (new_machine daemon_id k None)
       (Handshake (own_handshake (new_machine loc k' tok))) clock)) s
   = Some ([EvPeerHandshake (li_device_id loc) (li_name loc) (li_capabilities loc) tok], True, s)"
  by (simp add: new_machine_def own_handshake_def)

lemma daemon_pairs_phone:
  assumes "bus_inv d" and "dm_alive d" and "dm_confirming d = None" and "dm_queue d = []"
    and "device_id_ok i" and "i \<notin> paired (sh_trust d)" 
    and "sh_current_token d = Some (issue random shown_at)" and "seen_at - shown_at < from_secs 60"
  shows "\<exists>outs d2. run_daemon env d
      [NetEvent (LConnected remote conn), NetEvent (LSession remote (EvPeerHandshake i name caps (Some random))),
       OrchestratorTurn ready_at, OrchestratorTurn seen_at, ConfirmPairing (to_hex i) True, ConfirmationTurn done_at []] = Some (outs, d2) \<and>
    PairingRequested (to_hex i) (short_fingerprint i) name \<in> set outs \<and>
    i \<in> paired (sh_trust d2) \<and> pairing_deadline (sh_trust d2) = None \<and> map_of (sh_connected_devices d2) i = Some conn \<and>
    dm_objects d2 (device_path i) = Some \<lparr>d1_name = name, d1_device_id = to_hex i, d1_connected = True\<rparr>"
proof -
  obtain r fs' where save: "save (env_umode env) (env_to_vec env) (upsert (sh_state d) i name) (sh_state_path d) [] (dm_fs d)
      = (Finished r, fs')"
    using unhindered_save by blast
  have inv: "daemon_inv d" "objects_match d"
    using assms(1,2) by (simp_all add: bus_inv_def)
  then have "names (sh_state d) i = None"
    using daemon_invD(1,2) [OF inv(1)] assms(6) by (auto simp: known_dom)
  then have "dm_objects d (device_path i) = None"
    using objects_matchD(1) [OF inv(2) assms(5)] by (simp add: shown_def)
  moreover have "from_hex (to_hex i) = Some i"
    using assms(5) by (simp add: from_hex_to_hex device_id_ok_def)
  ultimately show ?thesis
    using save assms(2-8)
    by (simp add: run_defs is_paired_def pin_def close_pairing_window_def Let_def)
qed

text \<open>
  C4. Pairing works from end to end. Whatever else the daemon has done before, when its human asks
  for a code and another shows it to an unpaired phone within sixty seconds: the phone pins this
  daemon and dials with the token of the code; the phone's TLS accepts the daemon and the
  daemon's TLS the phone; the phone's handshake makes the daemon ask, showing the very fingerprint
  the phone shows; and a yes leaves the phone pinned, connected, on the bus under its name, and
  the pairing window closed.
\<close>

theorem pairing_end_to_end:
  assumes "url_ok (env_url env)" and "length (sh_device_id d) = device_id_len" and "is_rust_string (sh_name d)"
    and "length random = token_len" and "\<forall>a \<in> set (candidate_addrs os (sh_listen_addr d)). text_faithful a"
    and "bus_inv d" and "dm_alive d" and "dm_confirming d = None" and "dm_queue d = []"
    and "device_id_ok (co_device_id c)" and "co_device_id c \<notin> paired (sh_trust d)" and "seen_at - shown_at < from_secs 60"
  shows "\<exists>uri d1 task c1 intro outs d2.
    start_pairing env os random shown_at d
      = Some ([TokenIssued random shown_at, QrReply uri (short_fingerprint (sh_device_id d))], d1) \<and>
    core_pair (env_url env) uri (Inr ()) c = (Inr task, c1) \<and>
    (\<forall>t. dials (fst (dial_turn (pt_dialer task) t)) = [Some random]) \<and>
    (\<forall>cert spki_of sha256 t. device_id_of spki_of sha256 cert = Inr (sh_device_id d) \<longrightarrow>
       verify_server_cert spki_of sha256 (co_trust c1) cert t = Inr ()) \<and>
    (\<forall>cert spki_of sha256. device_id_of spki_of sha256 cert = Inr (co_device_id c) \<longrightarrow>
       verify_client_cert spki_of sha256 (sh_trust d1) cert seen_at = Inr ()) \<and>
    run_actions io (fst (on_received (new_machine daemon_id k None)
       (Handshake (own_handshake (new_machine (pt_local task) (pt_keepalive task) (Some random)))) clock)) s = Some ([intro], True, s) \<and>
    run_daemon env d1 [NetEvent (LConnected remote conn), NetEvent (LSession remote intro), OrchestratorTurn ready_at,
      OrchestratorTurn seen_at, ConfirmPairing (to_hex (co_device_id c)) True, ConfirmationTurn done_at []] = Some (outs, d2) \<and>
    PairingRequested (to_hex (co_device_id c)) (device_fingerprint c) (co_device_name c) \<in> set outs \<and>
    co_device_id c \<in> paired (sh_trust d2) \<and> pairing_deadline (sh_trust d2) = None \<and>
    map_of (sh_connected_devices d2) (co_device_id c) = Some conn \<and>
    dm_objects d2 (device_path (co_device_id c))
      = Some \<lparr>d1_name = co_device_name c, d1_device_id = to_hex (co_device_id c), d1_connected = True\<rparr>"
proof -
  let ?d1 = "d\<lparr>sh_trust := open_pairing_window (sh_trust d) (shown_at + token_ttl), sh_current_token := Some (issue random shown_at)\<rparr>"
  let ?c1 = "c\<lparr>co_trust := pin (co_trust c) (sh_device_id d)\<rparr>"
  let ?intro = "EvPeerHandshake (co_device_id c) (co_device_name c) [] (Some random)"
  obtain uri where uri: "start_pairing env os random shown_at d
      = Some ([TokenIssued random shown_at, QrReply uri (short_fingerprint (sh_device_id d))], ?d1)"
    "decode_qr_uri (env_url env) uri
      = Inr \<lparr>qr_version = protocol_version, qr_device_id = sh_device_id d, qr_name = sh_name d,
             qr_addrs = candidate_addrs os (sh_listen_addr d), qr_token = random\<rparr>"
    using start_pairing_shows [OF assms(1-5)] .
  obtain a as where "candidate_addrs os (sh_listen_addr d) = a # as"
    using candidate_addrs_dialable [of os "sh_listen_addr d"] by (auto simp: neq_Nil_conv)
  with shown_code_starts_dialer [OF uri(2)] obtain task where task: "core_pair (env_url env) uri (Inr ()) c = (Inr task, ?c1)"
    "pt_dialer task = dialer_start (Some random)"
    "pt_local task = \<lparr>li_device_id = co_device_id c, li_name = co_device_name c, li_capabilities = []\<rparr>"
    by simp
  have "bus_inv ?d1"
    using assms(6,7) pairing.step_inv [of d env "StartPairing os random shown_at"] uri(1)
      typed_step_match [of env d "StartPairing os random shown_at"]
    by (simp add: bus_inv_def typed_step_def daemon_step_def)
  then obtain outs d2 where run: "run_daemon env ?d1 [NetEvent (LConnected remote conn), NetEvent (LSession remote ?intro), OrchestratorTurn ready_at,
      OrchestratorTurn seen_at, ConfirmPairing (to_hex (co_device_id c)) True, ConfirmationTurn done_at []] = Some (outs, d2)"
    "PairingRequested (to_hex (co_device_id c)) (short_fingerprint (co_device_id c)) (co_device_name c) \<in> set outs"
    "co_device_id c \<in> paired (sh_trust d2)" "pairing_deadline (sh_trust d2) = None"
    "map_of (sh_connected_devices d2) (co_device_id c) = Some conn"
    "dm_objects d2 (device_path (co_device_id c))
      = Some \<lparr>d1_name = co_device_name c, d1_device_id = to_hex (co_device_id c), d1_connected = True\<rparr>"
    using daemon_pairs_phone [of ?d1 "co_device_id c" random shown_at seen_at env remote conn "co_device_name c" "[]" ready_at done_at]
      assms(7-12) by (auto simp: open_pairing_window_def)
  have "pairing_open (sh_trust ?d1) seen_at"
    using assms(12) by (simp add: pairing_open_def open_pairing_window_def token_ttl_def)
  then have "verify_client_cert spki_of sha256 (sh_trust ?d1) cert seen_at = Inr ()"
    if "device_id_of spki_of sha256 cert = Inr (co_device_id c)" for spki_of sha256 cert
    using that by (simp add: verify_client_cert_eq check_def)
  moreover have "verify_server_cert spki_of sha256 (co_trust ?c1) cert t = Inr ()"
    if "device_id_of spki_of sha256 cert = Inr (sh_device_id d)" for spki_of sha256 cert t
    using that by (simp add: verify_server_cert_eq check_def is_paired_def pin_def)
  moreover have "dials (fst (dial_turn (pt_dialer task) t)) = [Some random]" for t
    using dial_turn_dials [of "pt_dialer task" t] task(2) by (metis dialer.select_convs(2,3) dialer_start_def prod.collapse)
  moreover have "run_actions io (fst (on_received (new_machine daemon_id k None)
       (Handshake (own_handshake (new_machine (pt_local task) (pt_keepalive task) (Some random)))) clock)) s = Some ([?intro], True, s)"
    unfolding phone_introduced task(3) by simp
  ultimately show ?thesis
    using uri(1) task(1) run unfolding device_fingerprint_def
    by (intro exI [of _ uri] exI [of _ ?d1] exI [of _ task] exI [of _ ?c1] exI [of _ ?intro] exI [of _ outs] exI [of _ d2] conjI allI impI)
qed

theorem pairing_end_to_end_witness:
  "\<exists>uri d1 task c1. start_pairing demo_env demo_routes (replicate 16 7) 0 demo_daemon
      = Some ([TokenIssued (replicate 16 7) 0, QrReply uri (short_fingerprint (replicate 32 0))], d1) \<and>
    core_pair demo_url uri (Inr ()) demo_core = (Inr task, c1)"
proof -
  have d: "sh_device_id demo_daemon = replicate 32 0" "sh_name demo_daemon = ''desk''"
    "sh_listen_addr demo_daemon = SocketV4 0 0 0 0 58210" "paired (sh_trust demo_daemon) = {}" "dm_alive demo_daemon"
    "dm_confirming demo_daemon = None" "dm_queue demo_daemon = []"
    by (simp_all add: demo_boot)
  have url: "url_ok (env_url demo_env)" and len: "length (sh_device_id demo_daemon) = device_id_len"
    and nm: "is_rust_string (sh_name demo_daemon)" and tok: "length (replicate 16 7 :: token_bytes) = token_len"
    and addrs: "\<forall>a \<in> set (candidate_addrs demo_routes (sh_listen_addr demo_daemon)). text_faithful a"
    by (simp_all add: d device_id_len_def ascii_is_rust_string candidate_addrs_def demo_routes_def guess_outbound_ip_def
        demo_env_def demo_url_ok token_len_def)
  have inv: "bus_inv demo_daemon"
    unfolding bus_inv_def demo_daemon_def using boot_inv [OF canonical_demo] boot_match [OF canonical_demo] by simp
  have phone: "device_id_ok (co_device_id demo_core)" "co_device_id demo_core \<notin> paired (sh_trust demo_daemon)"
    by (simp_all add: demo_core_def device_id_ok_replicate d)
  have "(59 :: instant) - 0 < from_secs 60"
    by (simp add: from_secs_def)
  from pairing_end_to_end [where io = pipe_io and daemon_id = demo_identity and k = 1 and clock = 0 and s = "[]"
      and remote = phone_addr and conn = 1 and ready_at = 1 and done_at = 99,
      OF url len nm tok addrs inv d(5-7) phone this]
  have "\<exists>uri d1 task c1. start_pairing demo_env demo_routes (replicate 16 7) 0 demo_daemon
      = Some ([TokenIssued (replicate 16 7) 0, QrReply uri (short_fingerprint (sh_device_id demo_daemon))], d1) \<and>
    core_pair (env_url demo_env) uri (Inr ()) demo_core = (Inr task, c1)"
    by (elim exE conjE) (rule exI, rule exI, rule exI, rule exI, rule conjI, assumption, assumption)
  then show ?thesis
    unfolding d(1) by (simp add: demo_env_def)
qed

section \<open>What the command line lists, and what unpairing from it revokes\<close>

text \<open>
  A managed object as the bus hands it out, and a listing of the whole bus: some objects that are
  no devices, and each device object once, in the order of a hash map.
\<close>

definition managed :: "daemon \<Rightarrow> string \<Rightarrow> managed_object" where
  "managed d p =
     \<lparr>mo_interfaces = (if dm_objects d p = None then [] else [''org.freedesktop.DBus.Properties'', device_interface]),
      mo_device_id = map_option d1_device_id (dm_objects d p),
      mo_name = map_option d1_name (dm_objects d p),
      mo_connected = map_option d1_connected (dm_objects d p)\<rparr>"

definition bus_listing :: "daemon \<Rightarrow> managed_object list \<Rightarrow> bool" where
  "bus_listing d objects \<longleftrightarrow>
     (\<exists>others paths. mset objects = mset (others @ map (managed d) paths) \<and> distinct paths \<and>
        set paths = dom (dm_objects d) \<and> (\<forall>ob \<in> set others. device_interface \<notin> set (mo_interfaces ob)))"

lemma listed_ids:
  assumes "bus_listing d objects"
  obtains paths where "distinct paths" "set paths = dom (dm_objects d)"
    "mset (map di_device_id (list_devices objects)) = mset (map (\<lambda>p. d1_device_id (the (dm_objects d p))) paths)"
proof -
  let ?dev = "\<lambda>ob. device_interface \<in> set (mo_interfaces ob)"
  obtain others paths where l: "mset objects = mset (others @ map (managed d) paths)" "distinct paths"
      "set paths = dom (dm_objects d)" "\<forall>ob \<in> set others. \<not> ?dev ob"
    using assms by (auto simp: bus_listing_def)
  have "filter ?dev others = []" and "filter ?dev (map (managed d) paths) = map (managed d) paths"
    using l(3,4) by (auto simp: filter_empty_conv filter_id_conv managed_def)
  then have "mset (filter ?dev objects) = mset (map (managed d) paths)"
    using l(1) by (metis append_Nil filter_append mset_filter)
  then have "mset (list_devices objects) = mset (map read_object (map (managed d) paths))"
    by (simp add: list_devices_def del: map_map)
  then have "mset (map di_device_id (list_devices objects)) = mset (map di_device_id (map read_object (map (managed d) paths)))"
    by (metis mset_map)
  also have "map di_device_id (map read_object (map (managed d) paths)) = map (\<lambda>p. d1_device_id (the (dm_objects d p))) paths"
    using l(3) by (auto simp: managed_def read_object_def)
  finally show thesis
    using that l(2,3) by blast
qed

text \<open>On a running daemon the device objects and the trusted devices are the same, id by id.\<close>

lemma object_is_trusted:
  assumes "bus_inv d" and "dm_alive d" and "p \<in> dom (dm_objects d)"
  obtains i where "i \<in> paired (sh_trust d)" "device_id_ok i" "p = device_path i"
    "d1_device_id (the (dm_objects d p)) = to_hex i"
proof -
  obtain ob where ob: "dm_objects d p = Some ob"
    using assms(3) by blast
  obtain i where "i \<in> paired (sh_trust d)" "device_id_ok i" "p = device_path i" "d1_device_id ob = to_hex i"
    using bus_objectE [OF assms(1,2) ob] by blast
  with ob show thesis by (intro that [of i]) simp_all
qed

lemma trusted_has_object:
  assumes "bus_inv d" and "dm_alive d" and "i \<in> paired (sh_trust d)"
  shows "device_path i \<in> dom (dm_objects d)" and "d1_device_id (the (dm_objects d (device_path i))) = to_hex i"
proof -
  have inv: "daemon_inv d" "objects_match d"
    using assms(1,2) by (simp_all add: bus_inv_def)
  have ok: "device_id_ok i"
    using paired_device_ids_ok inv(1) assms(3) .
  from object_exists [OF inv(2,1) assms(3) ok] show path: "device_path i \<in> dom (dm_objects d)"
    by blast
  obtain j where "device_id_ok j" "device_path i = device_path j" "d1_device_id (the (dm_objects d (device_path i))) = to_hex j"
    using object_is_trusted [OF assms(1,2) path] .
  then show "d1_device_id (the (dm_objects d (device_path i))) = to_hex i"
    using ok by simp
qed

lemma listed_devices:
  assumes "bus_inv d" and "dm_alive d" and "bus_listing d objects"
  shows "distinct (map di_device_id (list_devices objects))"
    and "di_device_id ` set (list_devices objects) = to_hex ` paired (sh_trust d)"
proof -
  let ?shown = "\<lambda>p. d1_device_id (the (dm_objects d p))"
  obtain paths where l: "distinct paths" "set paths = dom (dm_objects d)"
    "mset (map di_device_id (list_devices objects)) = mset (map ?shown paths)"
    using assms(3) by (rule listed_ids)
  note trusted = object_is_trusted [OF assms(1,2)]
  have "inj_on ?shown (dom (dm_objects d))"
  proof (rule inj_onI)
    fix p q assume "p \<in> dom (dm_objects d)" "q \<in> dom (dm_objects d)" and same: "?shown p = ?shown q"
    obtain i where i: "device_id_ok i" "p = device_path i" "?shown p = to_hex i"
      using trusted [OF \<open>p \<in> _\<close>] .
    obtain j where "device_id_ok j" "q = device_path j" "?shown q = to_hex j"
      using trusted [OF \<open>q \<in> _\<close>] .
    with i same show "p = q" by simp
  qed
  with l(1,2) have "distinct (map ?shown paths)"
    by (simp add: distinct_map)
  with l(3) show "distinct (map di_device_id (list_devices objects))"
    using mset_eq_imp_distinct_iff by blast
  have "di_device_id ` set (list_devices objects) = ?shown ` dom (dm_objects d)"
    using mset_eq_setD [OF l(3)] l(2) by simp
  moreover have "?shown ` dom (dm_objects d) \<subseteq> to_hex ` paired (sh_trust d)"
  proof (rule image_subsetI)
    fix p assume "p \<in> dom (dm_objects d)"
    then obtain i where "i \<in> paired (sh_trust d)" "?shown p = to_hex i"
      by (rule trusted)
    then show "?shown p \<in> to_hex ` paired (sh_trust d)"
      by (simp only: imageI)
  qed
  moreover have "to_hex ` paired (sh_trust d) \<subseteq> ?shown ` dom (dm_objects d)"
  proof (rule image_subsetI)
    fix i assume i: "i \<in> paired (sh_trust d)"
    show "to_hex i \<in> ?shown ` dom (dm_objects d)"
      using trusted_has_object [OF assms(1,2) i] by (intro rev_image_eqI [of "device_path i"]) simp_all
  qed
  ultimately show "di_device_id ` set (list_devices objects) = to_hex ` paired (sh_trust d)"
    by (simp only: subset_antisym)
qed

lemma unpair_revokes:
  assumes "device_id_ok i"
  shows "sh_trust (snd (dbus_unpair env fates (to_hex i) d)) = unpair (sh_trust d) i"
proof -
  let ?d1 = "d\<lparr>sh_trust := unpair (sh_trust d) i, sh_state := remove (sh_state d) i\<rparr>"
  obtain out d2 where p: "persist_state env fates ?d1 = (out, d2)"
    by (metis surj_pair)
  then have "sh_trust d2 = unpair (sh_trust d) i"
    using persist_state_frame [OF p] by (simp add: core_def)
  moreover have "from_hex (to_hex i) = Some i"
    using assms by (simp add: from_hex_to_hex device_id_ok_def)
  ultimately show ?thesis
    using p by (simp add: dbus_unpair_def Let_def)
qed

text \<open>
  C9. Unpairing from the command line revokes the device that was listed. Whatever the daemon has
  done since its start, and in whatever order the bus enumerates its objects: the device list
  names every trusted device once and nothing else; a prefix the client accepts belongs to one
  trusted device, and the daemon's answer to it takes away that device's pin and no other, so
  that outside a pairing window its certificate is refused from then on; and every device can be
  named in this way, by its full id.
\<close>

theorem unpair_end_to_end:
  assumes "canonical (load from_str fs (join dir ''devices.json''))"
    and "run_daemon env (boot from_str ident name addr dir backend fs) inputs = Some (outs, d)" and "dm_alive d"
    and "bus_listing d objects"
  shows "distinct (map di_device_id (list_devices objects)) \<and>
    di_device_id ` set (list_devices objects) = to_hex ` paired (sh_trust d) \<and>
    (\<forall>i \<in> paired (sh_trust d). \<exists>info. run_unpair (list_devices objects) (to_hex i) = Unpairs info) \<and>
    (\<forall>p info. run_unpair (list_devices objects) p = Unpairs info \<longrightarrow>
       (\<exists>i \<in> paired (sh_trust d). di_device_id info = to_hex i \<and> starts_with (to_hex i) p \<and>
          (let t = sh_trust (snd (dbus_unpair env fates (di_device_id info) d)) in
             paired t = paired (sh_trust d) - {i} \<and>
             (\<forall>spki_of sha256 cert now. device_id_of spki_of sha256 cert = Inr i \<and> \<not> pairing_open t now \<longrightarrow>
                verify_client_cert spki_of sha256 t cert now \<noteq> Inr ()))))"
proof -
  have "bus_inv (boot from_str ident name addr dir backend fs)"
    using boot_inv [OF assms(1)] boot_match [OF assms(1)] by (simp add: bus_inv_def)
  then have inv: "bus_inv d"
    using bus.run_inv assms(2) by blast
  note listed = listed_devices [OF inv assms(3,4)]
  have ok: "device_id_ok i" if "i \<in> paired (sh_trust d)" for i
    using paired_device_ids_ok inv that by (auto simp: bus_inv_def)
  have entry: "\<exists>i \<in> paired (sh_trust d). di_device_id info = to_hex i" if "info \<in> set (list_devices objects)" for info
    using listed(2) that by blast
  then have len: "\<forall>info \<in> set (list_devices objects). length (di_device_id info) = 2 * device_id_len"
    using ok by (metis device_id_ok_def length_to_hex)
  note prefix = unpair_by_prefix [OF listed(1) len]
  have full: "\<exists>info. run_unpair (list_devices objects) (to_hex i) = Unpairs info" if i: "i \<in> paired (sh_trust d)" for i
  proof -
    obtain info where "info \<in> set (list_devices objects)" "di_device_id info = to_hex i"
      using listed(2) i by (metis imageE imageI)
    with prefix show ?thesis by metis
  qed
  have "\<exists>i \<in> paired (sh_trust d). di_device_id info = to_hex i \<and> starts_with (to_hex i) p \<and>
      (let t = sh_trust (snd (dbus_unpair env fates (di_device_id info) d)) in
         paired t = paired (sh_trust d) - {i} \<and>
         (\<forall>spki_of sha256 cert now. device_id_of spki_of sha256 cert = Inr i \<and> \<not> pairing_open t now \<longrightarrow>
            verify_client_cert spki_of sha256 t cert now \<noteq> Inr ()))"
    if u: "run_unpair (list_devices objects) p = Unpairs info" for p info
  proof -
    have "info \<in> set (list_devices objects)" and p: "starts_with (di_device_id info) p"
      using prefix u by blast+
    then obtain i where i: "i \<in> paired (sh_trust d)" "di_device_id info = to_hex i"
      using entry by blast
    then have "sh_trust (snd (dbus_unpair env fates (di_device_id info) d)) = unpair (sh_trust d) i"
      using unpair_revokes [OF ok] by simp
    with i p show ?thesis
      by (intro bexI [of _ i]) (simp_all add: Let_def unpair_def verify_client_cert_eq check_def is_paired_def)
  qed
  with listed full show ?thesis by blast
qed

theorem unpair_end_to_end_witness:
  "run_unpair (list_devices [managed paired_daemon (device_path phone)]) (to_hex phone) =
     Unpairs \<lparr>di_device_id = to_hex phone, di_name = ''pixel'', di_connected = True\<rparr> \<and>
   paired (sh_trust (snd (dbus_unpair demo_env [] (to_hex phone) paired_daemon))) = {}"
proof -
  note d = paired_daemon_phone(8,7,9)
  have "bus_listing paired_daemon [managed paired_daemon (device_path phone)]"
    unfolding bus_listing_def d(3) by (intro exI [of _ "[]"] exI [of _ "[device_path phone]"]) simp
  note ends = unpair_end_to_end [OF canonical_demo pairing_run [unfolded demo_daemon_def] d(2) this, of "[]"]
  have "list_devices [managed paired_daemon (device_path phone)]
      = [\<lparr>di_device_id = to_hex phone, di_name = ''pixel'', di_connected = True\<rparr>]"
    by (simp add: list_devices_def managed_def read_object_def d(3))
  then have u: "run_unpair (list_devices [managed paired_daemon (device_path phone)]) (to_hex phone)
      = Unpairs \<lparr>di_device_id = to_hex phone, di_name = ''pixel'', di_connected = True\<rparr>"
    by (simp add: run_unpair_def starts_with_def)
  with ends obtain i where "i \<in> {phone}"
    "paired (sh_trust (snd (dbus_unpair demo_env [] (to_hex phone) paired_daemon))) = {phone} - {i}"
    unfolding d(1) Let_def by (metis device_info.select_convs(1))
  with u show ?thesis by simp
qed

end
